(* ===== verification/Prelude.thy ===== *)
theory Prelude
  imports Main "HOL-Library.Word" "HOL-Library.Signed_Division"
begin

text \<open>
  Shared vocabulary of the development: bytes and Go's fixed-size arrays \<open>[n]byte\<close>, error
  values and panics, the sequencing of fallible state-passing steps, and byte buffers with the
  bounds checks of Go's index, slice and \<open>copy\<close> expressions.
\<close>

unbundle bit_operations_syntax

named_theorems buf_simps \<open>evaluation of buffer reads and writes\<close>
named_theorems step_simps \<open>unfolding of the state-passing combinators\<close>

section \<open>Bytes and fixed-size arrays\<close>

type_synonym byte = "8 word"
type_synonym bytes = "byte list"

abbreviation zeros :: "nat \<Rightarrow> bytes" where
  "zeros n \<equiv> replicate n 0"

text \<open>Go's \<open>[]byte(s)\<close> for a string \<open>s\<close>: a HOL \<open>char\<close> is one byte of the string.\<close>

definition bytes_of :: "string \<Rightarrow> bytes" where
  "bytes_of s = map of_char s"

lemma length_bytes_of [simp]: "length (bytes_of s) = length s"
  by (simp add: bytes_of_def)

text \<open>Go's array type \<open>[n]byte\<close>: the length is part of the type.\<close>

typedef (overloaded) ('n::len) arr = "{xs :: byte list. length xs = LENGTH('n)}"
  morphisms arr_bytes Abs_arr
  by (rule exI [of _ "replicate LENGTH('n) 0"]) simp

declare arr_bytes_inverse [code abstype]

text \<open>\<open>var out [n]byte; copy(out[:], xs)\<close>.\<close>

definition arr_of :: "byte list \<Rightarrow> ('n::len) arr" where
  [code del]: "arr_of xs = Abs_arr (take LENGTH('n) (xs @ zeros LENGTH('n)))"

lemma arr_bytes_of [simp, code abstract]:
  "arr_bytes (arr_of xs :: 'n::len arr) = take LENGTH('n) (xs @ zeros LENGTH('n))"
  by (simp add: arr_of_def Abs_arr_inverse)

lemma length_arr_bytes [simp]: "length (arr_bytes (a :: 'n::len arr)) = LENGTH('n)"
  using arr_bytes [of a] by simp

lemma arr_of_bytes [simp]: "arr_of (arr_bytes a) = a"
  by (metis append_eq_conv_conj arr_bytes_inverse arr_bytes_of length_arr_bytes)

lemma arr_eq_iff: "a = b \<longleftrightarrow> arr_bytes a = arr_bytes b"
  by (simp add: arr_bytes_inject)

lemma arr_bytes_of_exact:
  "length xs = LENGTH('n) \<Longrightarrow> arr_bytes (arr_of xs :: 'n::len arr) = xs"
  by simp

lemma arr_of_eq_iff:
  "(arr_of xs = (arr_of ys :: 'n::len arr)) \<longleftrightarrow>
     take LENGTH('n) (xs @ zeros LENGTH('n)) = take LENGTH('n) (ys @ zeros LENGTH('n))"
  by (simp add: arr_eq_iff)

instantiation arr :: (len) equal
begin

definition equal_arr :: "'a arr \<Rightarrow> 'a arr \<Rightarrow> bool" where
  "equal_arr a b \<longleftrightarrow> arr_bytes a = arr_bytes b"

instance
  by standard (simp add: equal_arr_def arr_eq_iff)

end

section \<open>Errors and panics\<close>

text \<open>
  The error values of the packages. The first seven are the sentinels that the code compares
  with \<open>errors.Is\<close>; \<open>OsError\<close> is an error value produced by the operating system,
  \<open>OsTimeout\<close> the timeout error of a socket deadline (\<open>net.Error\<close> with
  \<open>Timeout() = true\<close>), \<open>Errorf\<close> a \<open>fmt.Errorf\<close> without \<open>%w\<close> and \<open>Wrapf\<close> one that
  wraps an error with \<open>%w\<close>.
\<close>

datatype err =
    ErrTimeout
  | Canceled
  | DeadlineExceeded
  | ErrRejected
  | ErrAuthenticationRejected
  | ErrNetworkUnavailable
  | ErrAmbiguousNetwork
  | OsTimeout
  | OsError string
  | Errorf string
  | Wrapf string err

text \<open>\<open>errors.Is\<close>: the target occurs in the chain of wrapped errors.\<close>

fun errors_Is :: "err \<Rightarrow> err \<Rightarrow> bool" where
  "errors_Is (Wrapf s e) t = (Wrapf s e = t \<or> errors_Is e t)"
| "errors_Is e t = (e = t)"

lemma errors_Is_refl [simp]: "errors_Is e e"
  by (cases e) auto

text \<open>
  How a Go call can fail to return normally: with an error value, or by a panic, which no
  \<open>if err != nil\<close> of the program catches.
\<close>

datatype exc = Fail err | Panic string

text \<open>
  A fallible call passes the state through and returns an \<open>exc\<close> or a value. \<open>bindE\<close> is
  the ubiquitous \<open>if err != nil { return err }\<close>; a panic takes the same way out.
\<close>

definition retE :: "'a \<Rightarrow> 'w \<Rightarrow> (exc + 'a) \<times> 'w" where
  "retE a w = (Inr a, w)"

definition bindE ::
    "('w \<Rightarrow> (exc + 'a) \<times> 'w) \<Rightarrow> ('a \<Rightarrow> 'w \<Rightarrow> (exc + 'b) \<times> 'w) \<Rightarrow> 'w \<Rightarrow> (exc + 'b) \<times> 'w" where
  "bindE m f w = (case m w of (Inl e, w') \<Rightarrow> (Inl e, w') | (Inr a, w') \<Rightarrow> f a w')"

text \<open>A computation that cannot fail, used inside a fallible sequence.\<close>

definition liftE :: "('w \<Rightarrow> 'w) \<Rightarrow> 'w \<Rightarrow> (exc + unit) \<times> 'w" where
  "liftE f w = (Inr (), f w)"

lemma retE_simp [step_simps, simp]: "retE a w = (Inr a, w)"
  by (simp add: retE_def)

lemma liftE_simp [step_simps, simp]: "liftE f w = (Inr (), f w)"
  by (simp add: liftE_def)

lemma bindE_Inr [step_simps, simp]: "m w = (Inr a, w') \<Longrightarrow> bindE m f w = f a w'"
  by (simp add: bindE_def)

lemma bindE_Inl [step_simps, simp]: "m w = (Inl e, w') \<Longrightarrow> bindE m f w = (Inl e, w')"
  by (simp add: bindE_def)

lemma bindE_InrE:
  assumes "bindE m f w = (Inr b, w')"
  obtains a w1 where "m w = (Inr a, w1)" and "f a w1 = (Inr b, w')"
  using assms by (cases "m w") (auto simp: bindE_def split: sum.splits)

lemma bindE_cases [consumes 1, case_names Inl Inr]:
  assumes "bindE m f w = (r, w')"
  obtains e where "m w = (Inl e, w')" and "r = Inl e"
  | a w1 where "m w = (Inr a, w1)" and "f a w1 = (r, w')"
  using assms by (cases "m w") (auto simp: bindE_def split: sum.splits)

text \<open>Invariants are kept by sequencing.\<close>

lemma bindE_preserves:
  assumes "\<And>r w'. m w = (r, w') \<Longrightarrow> R w w'"
    and "\<And>a w1 r w'. m w = (Inr a, w1) \<Longrightarrow> f a w1 = (r, w') \<Longrightarrow> R w1 w'"
    and "\<And>x y z. R x y \<Longrightarrow> R y z \<Longrightarrow> R x z"
    and "bindE m f w = (r, w')"
  shows "R w w'"
  using assms(4) by (cases rule: bindE_cases) (use assms(1-3) in blast)+

text \<open>The same for functions without a state.\<close>

definition bindS :: "'e + 'a \<Rightarrow> ('a \<Rightarrow> 'e + 'b) \<Rightarrow> 'e + 'b" where
  "bindS m f = (case m of Inl e \<Rightarrow> Inl e | Inr a \<Rightarrow> f a)"

lemma bindS_simps [simp]: "bindS (Inl e) f = Inl e" "bindS (Inr a) f = f a"
  by (simp_all add: bindS_def)

lemma bindS_Inr: "bindS m f = Inr b \<longleftrightarrow> (\<exists>a. m = Inr a \<and> f a = Inr b)"
  by (cases m) auto

lemma bindS_Inl: "bindS m f = Inl e \<longleftrightarrow> m = Inl e \<or> (\<exists>a. m = Inr a \<and> f a = Inl e)"
  by (cases m) auto

section \<open>Bounds-checked buffers\<close>

text \<open>Index, slice and index assignment; \<open>None\<close> is the run-time panic.\<close>

definition idx :: "nat \<Rightarrow> 'a list \<Rightarrow> 'a option" where
  "idx i p = (if i < length p then Some (p ! i) else None)"

definition slice :: "nat \<Rightarrow> nat \<Rightarrow> 'a list \<Rightarrow> 'a list option" where
  "slice a b p = (if a \<le> b \<and> b \<le> length p then Some (take (b - a) (drop a p)) else None)"

text \<open>\<open>copy(p[a:b], s)\<close>: copies \<open>min (b - a) (length s)\<close> bytes.\<close>

definition copy_into :: "nat \<Rightarrow> nat \<Rightarrow> bytes \<Rightarrow> bytes \<Rightarrow> bytes option" where
  "copy_into a b s p =
     (if a \<le> b \<and> b \<le> length p
      then let t = take (b - a) s in Some (take a p @ t @ drop (a + length t) p)
      else None)"

text \<open>
  A sequence of assignments \<open>copy(p[a:b], s)\<close> in program order; \<open>p[i] = v\<close> is the case
  \<open>(i, i + 1, [v])\<close>.
\<close>

fun writes :: "(nat \<times> nat \<times> bytes) list \<Rightarrow> bytes \<Rightarrow> bytes option" where
  "writes [] p = Some p"
| "writes ((a, b, s) # ws) p =
     (case copy_into a b s p of None \<Rightarrow> None | Some p' \<Rightarrow> writes ws p')"

lemma idx_Some [buf_simps]: "i < length p \<Longrightarrow> idx i p = Some (p ! i)"
  by (simp add: idx_def)

lemma slice_Some [buf_simps]:
  "a \<le> b \<Longrightarrow> b \<le> length p \<Longrightarrow> slice a b p = Some (take (b - a) (drop a p))"
  by (simp add: slice_def)

lemma length_copy_into: "copy_into a b s p = Some p' \<Longrightarrow> length p' = length p"
  by (auto simp: copy_into_def Let_def split: if_splits)

lemma length_writes: "writes ws p = Some p' \<Longrightarrow> length p' = length p"
  by (induction ws p rule: writes.induct)
    (auto split: option.splits dest: length_copy_into)

lemma writes_append:
  "writes (ws @ ws') p = (case writes ws p of None \<Rightarrow> None | Some p' \<Rightarrow> writes ws' p')"
  by (induction ws p rule: writes.induct) (auto split: option.splits)

text \<open>
  Writes whose offsets increase, into a zeroed buffer of \<open>n\<close> bytes: \<open>laid_out\<close> says that
  they fit, \<open>assemble\<close> is the buffer they produce, field by field.
\<close>

fun laid_out :: "nat \<Rightarrow> nat \<Rightarrow> (nat \<times> nat \<times> bytes) list \<Rightarrow> bool" where
  "laid_out pos n [] \<longleftrightarrow> pos \<le> n"
| "laid_out pos n ((a, b, s) # ws) \<longleftrightarrow>
     pos \<le> a \<and> a \<le> b \<and> b \<le> n \<and> laid_out (a + min (b - a) (length s)) n ws"

fun assemble :: "nat \<Rightarrow> nat \<Rightarrow> (nat \<times> nat \<times> bytes) list \<Rightarrow> bytes" where
  "assemble pos n [] = zeros (n - pos)"
| "assemble pos n ((a, b, s) # ws) =
     zeros (a - pos) @ take (b - a) s @ assemble (a + min (b - a) (length s)) n ws"

lemma laid_out_le: "laid_out pos n ws \<Longrightarrow> pos \<le> n"
  by (induction pos n ws rule: laid_out.induct) auto

lemma writes_laid_out_aux:
  "laid_out pos n ws \<Longrightarrow> length d = pos \<Longrightarrow>
     writes ws (d @ zeros (n - pos)) = Some (d @ assemble pos n ws)"
proof (induction pos n ws arbitrary: d rule: laid_out.induct)
  case (1 pos n)
  then show ?case by simp
next
  case (2 pos n a b s ws)
  let ?t = "take (b - a) s"
  let ?d = "d @ zeros (a - pos) @ ?t"
  have len: "length ?d = a + min (b - a) (length s)"
    using "2.prems" by simp
  have "copy_into a b s (d @ zeros (n - pos)) = Some (?d @ zeros (n - length ?d))"
    using "2.prems" by (auto simp: copy_into_def Let_def)
  moreover have "writes ws (?d @ zeros (n - length ?d)) = Some (?d @ assemble (length ?d) n ws)"
    using "2.IH" [of ?d] "2.prems" len by simp
  ultimately show ?case
    using len by simp
qed

lemma writes_laid_out:
  "laid_out 0 n ws \<Longrightarrow> writes ws (zeros n) = Some (assemble 0 n ws)"
  using writes_laid_out_aux [of 0 n ws "[]"] by simp

lemma length_assemble: "laid_out pos n ws \<Longrightarrow> length (assemble pos n ws) = n - pos"
proof (induction pos n ws rule: laid_out.induct)
  case (2 pos n a b s ws)
  then show ?case
    using laid_out_le [of "a + min (b - a) (length s)" n ws] by (auto simp: min.commute)
qed simp

section \<open>Short-circuit conditions over checked reads\<close>

text \<open>
  \<open>a || b\<close> and \<open>a && b\<close> evaluate \<open>b\<close> only when \<open>a\<close> does not decide; a read out of range
  that is evaluated panics (\<open>None\<close>).
\<close>

definition or_sc :: "bool option \<Rightarrow> bool option \<Rightarrow> bool option" where
  "or_sc a b = (case a of None \<Rightarrow> None | Some True \<Rightarrow> Some True | Some False \<Rightarrow> b)"

definition and_sc :: "bool option \<Rightarrow> bool option \<Rightarrow> bool option" where
  "and_sc a b = (case a of None \<Rightarrow> None | Some True \<Rightarrow> b | Some False \<Rightarrow> Some False)"

definition eq_at :: "bytes \<Rightarrow> nat \<Rightarrow> byte \<Rightarrow> bool option" where
  "eq_at p i v = map_option (\<lambda>x. x = v) (idx i p)"

definition ne_at :: "bytes \<Rightarrow> nat \<Rightarrow> byte \<Rightarrow> bool option" where
  "ne_at p i v = map_option (\<lambda>x. x \<noteq> v) (idx i p)"

lemma or_sc_Some [buf_simps]: "or_sc (Some a) b = (if a then Some True else b)"
  by (simp add: or_sc_def)

lemma and_sc_Some [buf_simps]: "and_sc (Some a) b = (if a then b else Some False)"
  by (simp add: and_sc_def)

lemma eq_at_Some [buf_simps]: "i < length p \<Longrightarrow> eq_at p i v = Some (p ! i = v)"
  by (simp add: eq_at_def idx_def)

lemma ne_at_Some [buf_simps]: "i < length p \<Longrightarrow> ne_at p i v = Some (p ! i \<noteq> v)"
  by (simp add: ne_at_def idx_def)

section \<open>Integers\<close>

lemma xor_left_cancel: "a XOR b = a XOR c \<longleftrightarrow> b = (c :: 'w::len word)"
proof
  assume "a XOR b = a XOR c"
  then have "a XOR (a XOR b) = a XOR (a XOR c)" by simp
  then show "b = c" by (simp flip: xor.assoc)
qed simp

text \<open>Little-endian encodings (\<open>encoding/binary\<close>).\<close>

definition le16 :: "bytes \<Rightarrow> 16 word" where
  "le16 p = ucast (p ! 0) OR push_bit 8 (ucast (p ! 1))"

definition le32 :: "bytes \<Rightarrow> 32 word" where
  "le32 p = ucast (p ! 0) OR push_bit 8 (ucast (p ! 1)) OR push_bit 16 (ucast (p ! 2))
              OR push_bit 24 (ucast (p ! 3))"

definition put_le32 :: "32 word \<Rightarrow> bytes" where
  "put_le32 v = [ucast v, ucast (drop_bit 8 v), ucast (drop_bit 16 v), ucast (drop_bit 24 v)]"

lemma length_put_le32 [simp]: "length (put_le32 v) = 4"
  by (simp add: put_le32_def)

end
