(* ===== verification/Md5.thy ===== *)
theory Md5
  imports Prelude
begin

text \<open>
  MD5 (RFC 1321), the standard library function \<open>crypto/md5.Sum\<close> that
  \<open>internal/protocol/crypto.go\<close> exports as \<open>MD5\<close>. The digest is computed, not assumed, so
  that packets can be evaluated on concrete inputs; the RFC's test strings are checked at the end.
\<close>

unbundle bit_operations_syntax

section \<open>The compression function\<close>

definition md5_K :: "32 word list" where
  "md5_K =
    [0xd76aa478, 0xe8c7b756, 0x242070db, 0xc1bdceee, 0xf57c0faf, 0x4787c62a,
     0xa8304613, 0xfd469501, 0x698098d8, 0x8b44f7af, 0xffff5bb1, 0x895cd7be,
     0x6b901122, 0xfd987193, 0xa679438e, 0x49b40821, 0xf61e2562, 0xc040b340,
     0x265e5a51, 0xe9b6c7aa, 0xd62f105d, 0x02441453, 0xd8a1e681, 0xe7d3fbc8,
     0x21e1cde6, 0xc33707d6, 0xf4d50d87, 0x455a14ed, 0xa9e3e905, 0xfcefa3f8,
     0x676f02d9, 0x8d2a4c8a, 0xfffa3942, 0x8771f681, 0x6d9d6122, 0xfde5380c,
     0xa4beea44, 0x4bdecfa9, 0xf6bb4b60, 0xbebfbc70, 0x289b7ec6, 0xeaa127fa,
     0xd4ef3085, 0x04881d05, 0xd9d4d039, 0xe6db99e5, 0x1fa27cf8, 0xc4ac5665,
     0xf4292244, 0x432aff97, 0xab9423a7, 0xfc93a039, 0x655b59c3, 0x8f0ccc92,
     0xffeff47d, 0x85845dd1, 0x6fa87e4f, 0xfe2ce6e0, 0xa3014314, 0x4e0811a1,
     0xf7537e82, 0xbd3af235, 0x2ad7d2bb, 0xeb86d391]"

definition md5_S :: "nat list" where
  "md5_S =
    [7, 12, 17, 22, 7, 12, 17, 22, 7, 12, 17, 22, 7, 12, 17, 22,
     5, 9, 14, 20, 5, 9, 14, 20, 5, 9, 14, 20, 5, 9, 14, 20,
     4, 11, 16, 23, 4, 11, 16, 23, 4, 11, 16, 23, 4, 11, 16, 23,
     6, 10, 15, 21, 6, 10, 15, 21, 6, 10, 15, 21, 6, 10, 15, 21]"

datatype md5_state = MD5State "32 word" "32 word" "32 word" "32 word"

definition rotl32 :: "nat \<Rightarrow> 32 word \<Rightarrow> 32 word" where
  "rotl32 s w = push_bit s w OR drop_bit (32 - s) w"

fun md5_f :: "nat \<Rightarrow> 32 word \<Rightarrow> 32 word \<Rightarrow> 32 word \<Rightarrow> 32 word" where
  "md5_f i b c d =
     (if i < 16 then (b AND c) OR (NOT b AND d)
      else if i < 32 then (d AND b) OR (NOT d AND c)
      else if i < 48 then b XOR c XOR d
      else c XOR (b OR NOT d))"

fun md5_g :: "nat \<Rightarrow> nat" where
  "md5_g i =
     (if i < 16 then i
      else if i < 32 then (5 * i + 1) mod 16
      else if i < 48 then (3 * i + 5) mod 16
      else (7 * i) mod 16)"

fun md5_step :: "32 word list \<Rightarrow> nat \<Rightarrow> md5_state \<Rightarrow> md5_state" where
  "md5_step m i (MD5State a b c d) =
     MD5State d (b + rotl32 (md5_S ! i) (a + md5_f i b c d + md5_K ! i + m ! md5_g i)) b c"

fun md5_rounds :: "32 word list \<Rightarrow> nat list \<Rightarrow> md5_state \<Rightarrow> md5_state" where
  "md5_rounds m [] st = st"
| "md5_rounds m (i # is) st = md5_rounds m is (md5_step m i st)"

fun add_state :: "md5_state \<Rightarrow> md5_state \<Rightarrow> md5_state" where
  "add_state (MD5State a b c d) (MD5State a' b' c' d') = MD5State (a + a') (b + b') (c + c') (d + d')"

section \<open>Blocks and padding\<close>

fun words_le :: "bytes \<Rightarrow> 32 word list" where
  "words_le (a # b # c # d # xs) = le32 [a, b, c, d] # words_le xs"
| "words_le _ = []"

definition md5_block :: "bytes \<Rightarrow> md5_state \<Rightarrow> md5_state" where
  "md5_block blk st = add_state st (md5_rounds (words_le blk) [0..<64] st)"

fun md5_blocks :: "nat \<Rightarrow> bytes \<Rightarrow> md5_state \<Rightarrow> md5_state" where
  "md5_blocks 0 xs st = st"
| "md5_blocks (Suc n) xs st = md5_blocks n (drop 64 xs) (md5_block (take 64 xs) st)"

definition le64 :: "64 word \<Rightarrow> bytes" where
  "le64 v = map (\<lambda>i. ucast (drop_bit (8 * i) v)) [0..<8]"

definition md5_pad :: "bytes \<Rightarrow> bytes" where
  "md5_pad xs = xs @ [0x80] @ zeros ((119 - length xs mod 64) mod 64) @ le64 (of_nat (8 * length xs))"

definition md5_init :: md5_state where
  "md5_init = MD5State 0x67452301 0xefcdab89 0x98badcfe 0x10325476"

fun md5_out :: "md5_state \<Rightarrow> bytes" where
  "md5_out (MD5State a b c d) = put_le32 a @ put_le32 b @ put_le32 c @ put_le32 d"

text \<open>\<open>MD5(data)\<close> of \<open>crypto.go\<close>.\<close>

definition MD5 :: "bytes \<Rightarrow> 16 arr" where
  "MD5 data = (let p = md5_pad data in arr_of (md5_out (md5_blocks (length p div 64) p md5_init)))"

section \<open>Facts\<close>

lemma length_md5_out [simp]: "length (md5_out st) = 16"
  by (cases st) simp

lemma length_le64 [simp]: "length (le64 v) = 8"
  by (simp add: le64_def)

text \<open>Padding always fills whole 64-byte blocks.\<close>

lemma md5_pad_fill:
  assumes "r < 64"
  shows "r + 1 + (119 - r) mod 64 + 8 \<in> {64, 128 :: nat}"
proof (cases "r \<le> 55")
  case True
  then have "119 - r = 64 + (55 - r)" by simp
  then have "(119 - r) mod 64 = (55 - r) mod 64" by (metis mod_add_self1)
  with True show ?thesis by simp
next
  case False
  with assms show ?thesis by simp
qed

lemma md5_pad_blocks: "64 dvd length (md5_pad xs)"
proof -
  define r where "r = length xs mod 64"
  have "length (md5_pad xs) = 64 * (length xs div 64) + (r + 1 + (119 - r) mod 64 + 8)"
    by (simp add: md5_pad_def r_def)
  moreover have "64 dvd r + 1 + (119 - r) mod 64 + 8"
    using md5_pad_fill [of r] by (auto simp: r_def)
  ultimately show ?thesis
    by (metis dvd_add dvd_triv_left)
qed

text \<open>RFC 1321, section A.5.\<close>

lemma MD5_abc:
  "arr_bytes (MD5 (bytes_of ''abc'')) =
     [0x90, 0x01, 0x50, 0x98, 0x3c, 0xd2, 0x4f, 0xb0,
      0xd6, 0x96, 0x3f, 0x7d, 0x28, 0xe1, 0x7f, 0x72]"
  by code_simp

end
