(* ===== verification/Crypto.thy ===== *)
theory Crypto
  imports Md5
begin

text \<open>
  \<open>internal/protocol/crypto.go\<close>: the XOR and bit-rotation transforms of the password and the
  two checksums. Both checksums are loops over fixed-width chunks; what they share is stated as
  the locale \<open>chunk_fold\<close> and used for both.
\<close>

unbundle bit_operations_syntax

section \<open>XOR and ROR\<close>

definition XOR_bytes :: "bytes \<Rightarrow> bytes \<Rightarrow> int \<Rightarrow> bytes" where
  "XOR_bytes a b outLen =
     (let outLen = nat (if outLen < 0 then 0 else outLen);
          n = min (length a) (min (length b) outLen)
      in map (\<lambda>i. a ! i XOR b ! i) [0..<n] @ zeros (outLen - n))"

definition ROR :: "bytes \<Rightarrow> bytes" where
  "ROR data = map (\<lambda>b. push_bit 3 b + drop_bit 5 b) data"

text \<open>The inverse a server applies: rotation by three bits the other way.\<close>

definition unROR :: "bytes \<Rightarrow> bytes" where
  "unROR data = map (\<lambda>b. push_bit 5 b OR drop_bit 3 b) data"

lemma length_XOR_bytes [simp]: "length (XOR_bytes a b n) = nat n"
  by (auto simp: XOR_bytes_def Let_def)

lemma nth_XOR_bytes:
  "i < length a \<Longrightarrow> i < length b \<Longrightarrow> i < nat n \<Longrightarrow> XOR_bytes a b n ! i = a ! i XOR b ! i"
  by (auto simp: XOR_bytes_def Let_def nth_append)

lemma length_ROR [simp]: "length (ROR xs) = length xs"
  by (simp add: ROR_def)

lemma rot_byte_disjoint: "push_bit 3 b + drop_bit 5 b = push_bit 3 b OR drop_bit 5 (b :: byte)"
proof (rule disjunctive_add)
  fix i
  show "\<not> bit (push_bit 3 b) i \<or> \<not> bit (drop_bit 5 b) i"
    by (auto simp: bit_simps dest: bit_imp_le_length)
qed

lemma unrot_rot_byte:
  "push_bit 5 (push_bit 3 b OR drop_bit 5 b) OR drop_bit 3 (push_bit 3 b OR drop_bit 5 b) = (b :: byte)"
  by (rule bit_word_eqI) (auto simp: bit_simps dest: bit_imp_le_length)

lemma unROR_ROR [simp]: "unROR (ROR xs) = xs"
  unfolding unROR_def ROR_def map_map o_def rot_byte_disjoint unrot_rot_byte by simp

lemma XOR_bytes_cancel_min:
  assumes "n \<le> length key" and "n \<le> length xs"
  shows "XOR_bytes key (XOR_bytes key xs (int n)) (int n) = take n xs"
  using assms by (intro nth_equalityI) (auto simp: nth_XOR_bytes)

section \<open>Checksum and CRC\<close>

text \<open>\<open>var chunk [k]byte; copy(chunk[:], data[i:min(i+k, len(data))])\<close>.\<close>

definition chunk_at :: "nat \<Rightarrow> bytes \<Rightarrow> bytes" where
  "chunk_at k data = take k (data @ zeros k)"

text \<open>The loops; \<open>data\<close> is what is left from index \<open>i\<close> on.\<close>

function Checksum_loop :: "32 word \<Rightarrow> bytes \<Rightarrow> 32 word" where
  "Checksum_loop acc data =
     (if data = [] then acc
      else Checksum_loop (acc XOR le32 (chunk_at 4 data)) (drop 4 data))"
  by pat_completeness auto
termination
  by (relation "measure (\<lambda>(acc, data). length data)") auto

function CRC_loop :: "32 word \<Rightarrow> bytes \<Rightarrow> 32 word" where
  "CRC_loop acc data =
     (if data = [] then acc
      else CRC_loop (acc XOR ucast (le16 (chunk_at 2 data))) (drop 2 data))"
  by pat_completeness auto
termination
  by (relation "measure (\<lambda>(acc, data). length data)") auto

declare Checksum_loop.simps [simp del] CRC_loop.simps [simp del]

definition Checksum :: "bytes \<Rightarrow> 4 arr" where
  "Checksum data = arr_of (put_le32 (1968 * Checksum_loop 1234 data))"

definition CRC :: "bytes \<Rightarrow> 4 arr" where
  "CRC data = arr_of (put_le32 (CRC_loop 0 data * 711))"

section \<open>What the two loops share\<close>

locale chunk_fold =
  fixes k :: nat and word_of :: "bytes \<Rightarrow> 32 word" and loop :: "32 word \<Rightarrow> bytes \<Rightarrow> 32 word"
  assumes k_pos: "0 < k"
    and word_of_zeros: "word_of (zeros k) = 0"
    and loop_Nil: "loop s [] = s"
    and loop_step: "data \<noteq> [] \<Longrightarrow> loop s data = loop (s XOR word_of (chunk_at k data)) (drop k data)"
begin

lemma loop_acc: "loop s data = s XOR loop 0 data"
proof (induction "length data" arbitrary: s data rule: less_induct)
  case less
  show ?case
  proof (cases "data = []")
    case False
    then have "length (drop k data) < length data"
      using k_pos by simp
    note IH = less [OF this]
    show ?thesis
      using False by (simp add: loop_step IH [of "_ XOR _"] xor.assoc)
        (metis IH xor.left_neutral)
  qed (simp add: loop_Nil)
qed

text \<open>A prefix of whole chunks contributes separately.\<close>

lemma loop_append: "k dvd length a \<Longrightarrow> loop s (a @ b) = loop (loop s a) b"
proof (induction "length a" arbitrary: s a rule: less_induct)
  case less
  show ?case
  proof (cases "a = []")
    case False
    with less.prems k_pos have le: "k \<le> length a"
      by (simp add: dvd_imp_le)
    then have "length (drop k a) < length a" and "k dvd length (drop k a)"
      using less.prems k_pos False by auto
    note IH = less.hyps [OF this]
    have "chunk_at k (a @ b) = chunk_at k a"
      using le by (simp add: chunk_at_def)
    moreover have "drop k (a @ b) = drop k a @ b"
      using le by simp
    ultimately show ?thesis
      using False by (simp add: loop_step IH)
  qed (simp add: loop_Nil)
qed

lemma loop_zeros: "loop s (zeros n) = s"
proof (induction n arbitrary: s rule: less_induct)
  case (less n)
  show ?case
  proof (cases "n = 0")
    case False
    have "chunk_at k (zeros n) = zeros k"
      by (simp add: chunk_at_def flip: replicate_add)
    then have "loop s (zeros n) = loop s (zeros (n - k))"
      using False loop_step [of "zeros n" s] by (simp add: word_of_zeros)
    then show ?thesis
      using less [of "n - k" s] k_pos False by simp
  qed (simp add: loop_Nil)
qed

text \<open>Trailing zero bytes do not count: this is the zero-padding of the last chunk.\<close>

lemma loop_pad: "loop s (data @ zeros n) = loop s data"
proof (induction "length data" arbitrary: s data rule: less_induct)
  case less
  show ?case
  proof (cases "data = []")
    case False
    have ch: "chunk_at k (data @ zeros n) = chunk_at k data"
      by (auto simp: chunk_at_def simp flip: replicate_add)
    have lt: "length (drop k data) < length data"
      using False k_pos by simp
    have dr: "loop s' (drop k (data @ zeros n)) = loop s' (drop k data)" for s'
      using less [OF lt] by (cases "length data \<le> k") (simp_all add: loop_zeros loop_Nil)
    show ?thesis
      using False by (simp add: loop_step ch dr del: drop_append)
  qed (simp add: loop_zeros loop_Nil)
qed

text \<open>Closed form: the XOR of the values of all chunks, the last one zero-padded.\<close>

lemma loop_chunks:
  "loop s data =
     s XOR foldr (\<lambda>i acc. word_of (chunk_at k (drop (k * i) data)) XOR acc)
             [0..<(length data + k - 1) div k] 0"
proof (induction "length data" arbitrary: s data rule: less_induct)
  case less
  show ?case
  proof (cases "data = []")
    case True
    with k_pos show ?thesis by (simp add: loop_Nil)
  next
    case False
    have "(length data + k - 1) div k = Suc ((length (drop k data) + k - 1) div k)"
    proof (cases "k \<le> length data")
      case True
      then have "length data + k - 1 = (length (drop k data) + k - 1) + k"
        using k_pos by simp
      then show ?thesis
        using k_pos by (metis div_add_self2 not_gr0 Suc_eq_plus1)
    next
      case not_le: False
      then have eq: "length data + k - 1 = (length data - 1) + k" and "length data - 1 < k"
        using False by (cases data; simp)+
      then have "(length data + k - 1) div k = 1"
        using k_pos unfolding eq by (subst div_add_self2) simp_all
      then show ?thesis
        using not_le k_pos by simp
    qed
    then have "[0..<(length data + k - 1) div k] =
        0 # map Suc [0..<(length (drop k data) + k - 1) div k]"
      by (simp add: map_Suc_upt upt_conv_Cons del: upt_Suc)
    moreover have "drop (k * Suc i) data = drop (k * i) (drop k data)" for i
      by (simp add: algebra_simps)
    moreover have "length (drop k data) < length data"
      using False k_pos by simp
    ultimately show ?thesis
      using False by (simp add: loop_step less foldr_map o_def xor.assoc)
  qed
qed

text \<open>Replacing one whole chunk changes the sum by the XOR of the two chunk values.\<close>

lemma loop_one:
  assumes "k dvd length a" and "length x = k"
  shows "loop s (a @ x @ b) = (loop s a XOR loop 0 b) XOR word_of x"
proof -
  have "x \<noteq> []" using assms(2) k_pos by auto
  then have "loop (loop s a) (x @ b) = loop (loop s a XOR word_of x) b"
    using assms(2) by (simp add: loop_step chunk_at_def)
  also have "\<dots> = (loop s a XOR word_of x) XOR loop 0 b"
    by (rule loop_acc)
  finally show ?thesis
    using assms(1) by (simp add: loop_append ac_simps)
qed

lemma loop_replace:
  assumes "k dvd length a" and "length x = k" and "length y = k"
  shows "loop s (a @ x @ b) = loop s (a @ y @ b) \<longleftrightarrow> word_of x = word_of y"
  by (simp add: loop_one assms xor_left_cancel)

end

lemma le32_zeros: "le32 (zeros 4) = 0"
  by (simp add: le32_def eval_nat_numeral)

lemma le16_zeros: "ucast (le16 (zeros 2)) = (0 :: 32 word)"
  by (simp add: le16_def eval_nat_numeral)

interpretation ck: chunk_fold 4 le32 Checksum_loop
proof
  show "Checksum_loop s [] = s" for s
    by (subst Checksum_loop.simps) simp
  show "Checksum_loop s data = Checksum_loop (s XOR le32 (chunk_at 4 data)) (drop 4 data)"
    if "data \<noteq> []" for s data
    using that by (subst Checksum_loop.simps) simp
qed (simp_all add: le32_zeros)

interpretation cr: chunk_fold 2 "\<lambda>c. ucast (le16 c)" CRC_loop
proof
  show "CRC_loop s [] = s" for s
    by (subst CRC_loop.simps) simp
  show "CRC_loop s data = CRC_loop (s XOR ucast (le16 (chunk_at 2 data))) (drop 2 data)"
    if "data \<noteq> []" for s data
    using that by (subst CRC_loop.simps) simp
qed (simp_all add: le16_zeros)

section \<open>Little-endian round trips\<close>

lemma le32_put_le32 [simp]: "le32 (put_le32 v) = v"
  by (rule bit_word_eqI)
    (auto simp: le32_def put_le32_def bit_simps not_le less_diff_conv2; rule ccontr; simp)

lemma put_le32_inj: "put_le32 u = put_le32 v \<longleftrightarrow> u = v"
  by (metis le32_put_le32)

lemma arr4_put_le32_inj: "(arr_of (put_le32 u) :: 4 arr) = arr_of (put_le32 v) \<longleftrightarrow> u = v"
  by (simp add: arr_of_eq_iff put_le32_inj)

lemma le16_inj:
  assumes "length x = 2" and "length y = 2" and "le16 x = le16 y"
  shows "x = y"
proof -
  have low: "ucast (le16 p) = p ! 0" and high: "ucast (drop_bit 8 (le16 p)) = p ! 1" for p
    by (rule bit_word_eqI; auto simp: le16_def bit_simps dest: bit_imp_le_length)+
  from assms(3) have "x ! 0 = y ! 0" and "x ! 1 = y ! 1"
    by (metis low, metis high)
  with assms(1,2) show ?thesis
    by (auto intro!: nth_equalityI simp: less_2_cases_iff)
qed

lemma ucast16_32_inj: "(ucast u :: 32 word) = ucast v \<Longrightarrow> u = (v :: 16 word)"
proof -
  assume eq: "(ucast u :: 32 word) = ucast v"
  have "ucast (ucast w :: 32 word) = w" for w :: "16 word"
    by (rule bit_word_eqI) (auto simp: bit_simps)
  with eq show "u = v" by metis
qed

text \<open>\<open>1968 = 123 * 2^4\<close> and 123 is invertible: the product keeps the low 28 bits of the sum.\<close>

lemma mult_1968_cancel:
  fixes u v :: "32 word"
  shows "1968 * u = 1968 * v \<longleftrightarrow> take_bit 28 u = take_bit 28 v"
proof
  assume "1968 * u = 1968 * v"
  moreover have "3945782963 * (1968 * w) = push_bit 4 w" for w :: "32 word"
  proof -
    have "3945782963 * (1968 * w) = (3945782963 * 1968) * w"
      by (rule mult.assoc [symmetric])
    also have "3945782963 * 1968 = (16 :: 32 word)"
      by simp
    finally show ?thesis
      by (simp add: push_bit_eq_mult mult.commute)
  qed
  ultimately have "push_bit 4 u = push_bit 4 v"
    by metis
  then have b: "bit (push_bit 4 u) (i + 4) = bit (push_bit 4 v) (i + 4)" for i
    by simp
  show "take_bit 28 u = take_bit 28 v"
    by (rule bit_word_eqI) (use b in \<open>auto simp: bit_simps\<close>)
next
  assume "take_bit 28 u = take_bit 28 v"
  then have b: "bit (take_bit 28 u) i = bit (take_bit 28 v) i" for i
    by simp
  have "push_bit 4 u = push_bit 4 v"
  proof (rule bit_word_eqI)
    fix i assume "i < LENGTH(32)"
    then show "bit (push_bit 4 u) i = bit (push_bit 4 v) i"
      using b [of "i - 4"] by (auto simp: bit_simps)
  qed
  then have "123 * push_bit 4 u = 123 * push_bit 4 v" by simp
  then show "1968 * u = 1968 * v"
    by (simp add: push_bit_eq_mult ac_simps flip: mult.assoc)
qed

lemma mult_711_cancel:
  fixes u v :: "32 word"
  shows "u * 711 = v * 711 \<longleftrightarrow> u = v"
proof
  assume "u * 711 = v * 711"
  moreover have "w * 711 * 2567315191 = w" for w :: "32 word"
  proof -
    have "w * 711 * 2567315191 = w * (711 * 2567315191)"
      by (rule mult.assoc)
    also have "711 * 2567315191 = (1 :: 32 word)"
      by simp
    finally show ?thesis
      by simp
  qed
  ultimately show "u = v" by metis
qed simp

section \<open>Properties\<close>

text \<open>
  Property C40. The checksum loops compute what they are for: \<open>Checksum\<close> is \<open>1968\<close> times the
  XOR of \<open>1234\<close> with all little-endian 32-bit words of the data, \<open>CRC\<close> is \<open>711\<close> times the XOR
  of all 16-bit words; in both the last partial word is padded with zero bytes.
\<close>

theorem checksums_closed_form:
  "Checksum data =
     arr_of (put_le32 (1968 * (1234 XOR
       foldr (\<lambda>i acc. le32 (chunk_at 4 (drop (4 * i) data)) XOR acc)
         [0..<(length data + 3) div 4] 0)))
   \<and> CRC data =
     arr_of (put_le32 (711 *
       foldr (\<lambda>i acc. ucast (le16 (chunk_at 2 (drop (2 * i) data))) XOR acc)
         [0..<(length data + 1) div 2] 0))"
proof -
  have *: "length data + 4 - 1 = length data + 3" "length data + 2 - 1 = length data + 1"
    by simp_all
  show ?thesis
    unfolding Checksum_def CRC_def ck.loop_chunks [of 1234] cr.loop_chunks [of 0] *
    by (simp add: mult.commute)
qed

text \<open>
  What the checksums can detect. Replacing one aligned 4-byte word of the data
  leaves \<open>Checksum\<close> unchanged exactly when the two words agree on their low 28 bits; replacing
  one aligned 2-byte word always changes \<open>CRC\<close>.
\<close>

lemma checksum_detects:
  assumes "4 dvd length a" and "length x = 4" and "length y = 4"
    and "2 dvd length c" and "length u = 2" and "length v = 2"
  shows "(Checksum (a @ x @ b) = Checksum (a @ y @ b) \<longleftrightarrow>
            take_bit 28 (le32 x) = take_bit 28 (le32 y))
       \<and> (CRC (c @ u @ d) = CRC (c @ v @ d) \<longleftrightarrow> u = v)"
proof
  show "Checksum (a @ x @ b) = Checksum (a @ y @ b) \<longleftrightarrow> take_bit 28 (le32 x) = take_bit 28 (le32 y)"
    unfolding Checksum_def arr4_put_le32_inj mult_1968_cancel
    using assms(2,3) by (simp add: ck.loop_one [OF assms(1)] xor_left_cancel)
  show "CRC (c @ u @ d) = CRC (c @ v @ d) \<longleftrightarrow> u = v"
    unfolding CRC_def arr4_put_le32_inj
    using cr.loop_replace [OF assms(4), of u v 0 d] assms(5,6)
    by (auto simp: mult_711_cancel dest!: ucast16_32_inj intro: le16_inj)
qed

lemma checksum_detects_witness:
  "(Checksum ([] @ [1, 0, 0, 0x10] @ []) = Checksum ([] @ [1, 0, 0, 0x20] @ []) \<longleftrightarrow>
      take_bit 28 (le32 [1, 0, 0, 0x10]) = take_bit 28 (le32 [1, 0, 0, 0x20]))
   \<and> (CRC ([] @ [1, 2] @ [3]) = CRC ([] @ [1, 3] @ [3]) \<longleftrightarrow> [1, 2] = [1, 3 :: byte])"
  by (rule checksum_detects) simp_all

end
