(* ===== verification/Packets.thy ===== *)
theory Packets
  imports Crypto "HOL-Library.Monad_Syntax"
begin

text \<open>
  \<open>internal/protocol\<close>: the configuration and session records (\<open>types.go\<close>) and the packet
  builders (\<open>challenge.go\<close>, \<open>login.go\<close>, \<open>heartbeat.go\<close>, \<open>logout.go\<close>). A builder is the list of
  its assignments to the zeroed packet, in program order; \<open>None\<close> is a panic (an access out of
  range, or a random reader that is nil or runs dry).
\<close>

unbundle bit_operations_syntax

section \<open>types.go\<close>

record pconfig =
  pUsername :: string
  pPassword :: string
  pIP :: "4 arr"
  pMAC :: "6 arr"
  pHostName :: string
  pOSInfo :: string
  pPrimaryDNS :: "4 arr"
  pDHCPServer :: "4 arr"
  pAuthVersion :: "2 arr"
  pKeepAliveVersion :: "2 arr"
  pFirstHeartbeatVersion :: "2 arr"
  pExtraHeartbeatVersion :: "2 arr"

record session =
  LoginSalt :: "4 arr"
  LogoutSalt :: "4 arr"
  MD5Password :: "16 arr"
  ServerDrcomIndicator :: "16 arr"
  HeartbeatToken :: "4 arr"
  HeartbeatCount :: "64 word"

text \<open>\<open>var s protocol.Session\<close>: all fields zero.\<close>

definition zero_session :: session where
  "zero_session =
     \<lparr>LoginSalt = arr_of [], LogoutSalt = arr_of [], MD5Password = arr_of [],
      ServerDrcomIndicator = arr_of [], HeartbeatToken = arr_of [], HeartbeatCount = 0\<rparr>"

definition SizeChallenge :: nat where "SizeChallenge = 20"
definition SizeKeepAliveAuth :: nat where "SizeKeepAliveAuth = 38"
definition SizeKeepAliveHeartbeat :: nat where "SizeKeepAliveHeartbeat = 40"
definition SizeLogout :: nat where "SizeLogout = 80"

lemmas sizes = SizeChallenge_def SizeKeepAliveAuth_def SizeKeepAliveHeartbeat_def SizeLogout_def

section \<open>Random bytes\<close>

text \<open>
  An \<open>io.Reader\<close>: \<open>None\<close> is nil, \<open>Some bs\<close> still delivers \<open>bs\<close> and then fails.
  \<open>mustReadRandom\<close> fills a buffer of \<open>n\<close> bytes or panics.
\<close>

type_synonym reader = "bytes option"

definition mustReadRandom :: "reader \<Rightarrow> nat \<Rightarrow> (bytes \<times> reader) option" where
  "mustReadRandom rng n =
     (case rng of None \<Rightarrow> None
      | Some bs \<Rightarrow> if n \<le> length bs then Some (take n bs, Some (drop n bs)) else None)"

section \<open>challenge.go\<close>

definition BuildLoginChallenge :: "2 arr \<Rightarrow> reader \<Rightarrow> (bytes \<times> reader) option" where
  "BuildLoginChallenge authVersion rng = do {
     (r, rng') \<leftarrow> mustReadRandom rng 2;
     packet \<leftarrow> writes
       [(0, 1, [0x01]), (1, 2, [0x02]), (2, 4, r), (4, 6, arr_bytes authVersion)]
       (zeros SizeChallenge);
     Some (packet, rng') }"

definition BuildLogoutChallenge :: "2 arr \<Rightarrow> reader \<Rightarrow> (bytes \<times> reader) option" where
  "BuildLogoutChallenge authVersion rng = do {
     (r, rng') \<leftarrow> mustReadRandom rng 2;
     packet \<leftarrow> writes
       [(0, 1, [0x01]), (1, 2, [0x03]), (2, 4, r), (4, 6, arr_bytes authVersion)]
       (zeros SizeChallenge);
     Some (packet, rng') }"

section \<open>login.go\<close>

definition drcomIndicator :: bytes where
  "drcomIndicator = [0x44, 0x72, 0x43, 0x4f, 0x4d, 0x00, 0xcf, 0x07]"

definition unknownLoginIndicator :: bytes where
  "unknownLoginIndicator =
    [0x66, 0x34, 0x37, 0x64, 0x62, 0x62, 0x35, 0x39,
     0x63, 0x33, 0x34, 0x35, 0x39, 0x30, 0x31, 0x62,
     0x34, 0x33, 0x31, 0x31, 0x39, 0x32, 0x62, 0x62,
     0x31, 0x66, 0x62, 0x66, 0x63, 0x66, 0x64, 0x33,
     0x33, 0x66, 0x34, 0x33, 0x34, 0x32, 0x31, 0x31]"

text \<open>
  \<open>copyFixed(packet[a:b], src)\<close> copies \<open>min(b - a, len(src))\<close> bytes, as \<open>copy\<close> itself does.
\<close>

definition copyFixed :: "nat \<Rightarrow> nat \<Rightarrow> bytes \<Rightarrow> nat \<times> nat \<times> bytes" where
  "copyFixed a b src = (a, b, take (min (b - a) (length src)) src)"

text \<open>The offsets of the fields, from \<open>types.go\<close>.\<close>

definition loginOffsetMD5A :: nat where [simp]: "loginOffsetMD5A = 4"
definition loginOffsetUsername :: nat where [simp]: "loginOffsetUsername = 20"
definition loginOffsetControlCheckStatus :: nat where [simp]: "loginOffsetControlCheckStatus = 56"
definition loginOffsetAdapterNum :: nat where [simp]: "loginOffsetAdapterNum = 57"
definition loginOffsetMacXorMD5 :: nat where [simp]: "loginOffsetMacXorMD5 = 58"
definition loginOffsetMD5B :: nat where [simp]: "loginOffsetMD5B = 64"
definition loginOffsetIPIndicator :: nat where [simp]: "loginOffsetIPIndicator = 80"
definition loginOffsetIP :: nat where [simp]: "loginOffsetIP = 81"
definition loginOffsetMD5C :: nat where [simp]: "loginOffsetMD5C = 97"
definition loginOffsetIPDog :: nat where [simp]: "loginOffsetIPDog = 105"
definition loginOffsetHostName :: nat where [simp]: "loginOffsetHostName = 110"
definition loginOffsetPrimaryDNS :: nat where [simp]: "loginOffsetPrimaryDNS = 142"
definition loginOffsetDHCPServer :: nat where [simp]: "loginOffsetDHCPServer = 146"
definition loginOffsetDrcomFlag :: nat where [simp]: "loginOffsetDrcomFlag = 181"
definition loginOffsetDrcomIndicator :: nat where [simp]: "loginOffsetDrcomIndicator = 182"
definition loginOffsetAuthVersionA :: nat where [simp]: "loginOffsetAuthVersionA = 190"
definition loginOffsetOSInfo :: nat where [simp]: "loginOffsetOSInfo = 192"
definition loginOffsetUnknownIndicator :: nat where [simp]: "loginOffsetUnknownIndicator = 246"
definition loginOffsetAuthVersionB :: nat where [simp]: "loginOffsetAuthVersionB = 310"
definition loginOffsetPasswordLength :: nat where [simp]: "loginOffsetPasswordLength = 313"
definition loginOffsetPasswordROR :: nat where [simp]: "loginOffsetPasswordROR = 314"

text \<open>
  The assignments to the packet in three groups, cut where the code reads the packet back: the
  first 97 bytes go into \<open>md5c\<close>, the first \<open>316 + rorLen\<close> into the checksum.
\<close>

definition login_md5a :: "pconfig \<Rightarrow> session \<Rightarrow> 16 arr" where
  "login_md5a config s =
     MD5 ([0x03, 0x01] @ arr_bytes (LoginSalt s) @ bytes_of (pPassword config))"

definition login_md5b :: "pconfig \<Rightarrow> session \<Rightarrow> 16 arr" where
  "login_md5b config s =
     MD5 ([0x01] @ bytes_of (pPassword config) @ arr_bytes (LoginSalt s) @ zeros 4)"

definition login_head :: "pconfig \<Rightarrow> session \<Rightarrow> (nat \<times> nat \<times> bytes) list" where
  "login_head config s = (
     let username = bytes_of (pUsername config); md5a = arr_bytes (login_md5a config s)
     in [(0, 1, [0x03]), (1, 2, [0x01]), (2, 3, [0x00]), (3, 4, [of_nat (length username + 20)]),
         (loginOffsetMD5A, loginOffsetMD5A + 16, md5a),
         copyFixed loginOffsetUsername loginOffsetControlCheckStatus username,
         (loginOffsetControlCheckStatus, loginOffsetControlCheckStatus + 1, [0x00]),
         (loginOffsetAdapterNum, loginOffsetAdapterNum + 1, [0x00]),
         (loginOffsetMacXorMD5, loginOffsetMacXorMD5 + 6, XOR_bytes (arr_bytes (pMAC config)) md5a 6),
         (loginOffsetMD5B, loginOffsetMD5B + 16, arr_bytes (login_md5b config s)),
         (loginOffsetIPIndicator, loginOffsetIPIndicator + 1, [0x01]),
         (loginOffsetIP, loginOffsetIP + 4, arr_bytes (pIP config))])"

definition login_body :: "pconfig \<Rightarrow> session \<Rightarrow> 16 arr \<Rightarrow> (nat \<times> nat \<times> bytes) list" where
  "login_body config s md5c = (
     let password = bytes_of (pPassword config); rorLen = min (length password) 16
     in [(loginOffsetMD5C, loginOffsetMD5C + 8, take 8 (arr_bytes md5c)),
         (loginOffsetIPDog, loginOffsetIPDog + 1, [0x01]),
         copyFixed loginOffsetHostName loginOffsetPrimaryDNS (bytes_of (pHostName config)),
         (loginOffsetPrimaryDNS, loginOffsetPrimaryDNS + 4, arr_bytes (pPrimaryDNS config)),
         (loginOffsetDHCPServer, loginOffsetDHCPServer + 4, arr_bytes (pDHCPServer config)),
         (loginOffsetDrcomFlag, loginOffsetDrcomFlag + 1, [0x01]),
         (loginOffsetDrcomIndicator, loginOffsetDrcomIndicator + length drcomIndicator, drcomIndicator),
         (loginOffsetAuthVersionA, loginOffsetAuthVersionA + 2, arr_bytes (pAuthVersion config)),
         copyFixed loginOffsetOSInfo loginOffsetUnknownIndicator (bytes_of (pOSInfo config)),
         (loginOffsetUnknownIndicator, loginOffsetUnknownIndicator + length unknownLoginIndicator, unknownLoginIndicator),
         (loginOffsetAuthVersionB, loginOffsetAuthVersionB + 2, arr_bytes (pAuthVersion config)),
         (loginOffsetPasswordLength, loginOffsetPasswordLength + 1, [of_nat (length password)]),
         (loginOffsetPasswordROR, loginOffsetPasswordROR + rorLen,
            ROR (XOR_bytes (arr_bytes (login_md5a config s)) password (int rorLen))),
         (loginOffsetPasswordROR + rorLen, loginOffsetPasswordROR + rorLen + 1, [0x02]),
         (loginOffsetPasswordROR + rorLen + 1, loginOffsetPasswordROR + rorLen + 2, [0x0c])])"

definition login_tail :: "pconfig \<Rightarrow> 4 arr \<Rightarrow> (nat \<times> nat \<times> bytes) list" where
  "login_tail config checksum = (
     let rorLen = min (length (bytes_of (pPassword config))) 16
     in [(316 + rorLen, 316 + rorLen + 4, arr_bytes checksum),
         (322 + rorLen, 322 + rorLen + 6, arr_bytes (pMAC config))])"

definition BuildLoginPacket ::
    "pconfig \<Rightarrow> session \<Rightarrow> reader \<Rightarrow> (bytes \<times> session \<times> reader) option" where
  "BuildLoginPacket config s rng = (
     let password = bytes_of (pPassword config);
         rorLen = min (length password) 16;
         loginSize = 334 + (if length password > 0 then ((length password - 1) div 4) * 4 else 0);
         s' = s\<lparr>MD5Password := login_md5a config s\<rparr>
     in do {
       p1 \<leftarrow> writes (login_head config s) (zeros loginSize);
       md5cPlain \<leftarrow> slice 0 97 p1;
       p2 \<leftarrow> writes (login_body config s (MD5 (md5cPlain @ [0x14, 0x00, 0x07, 0x0b]))) p1;
       checksumPlain \<leftarrow> slice 0 (316 + rorLen) p2;
       p3 \<leftarrow> writes
         (login_tail config (Checksum (checksumPlain @ [0x01, 0x26, 0x07, 0x11, 0x00, 0x00]
                                         @ arr_bytes (pMAC config)))) p2;
       (let paddingLen = (if length password > 0 then (4 - length password mod 4) mod 4 else 0);
            randomOffset = 328 + rorLen + paddingLen
        in if randomOffset + 2 \<le> length p3 then do {
             (r, rng') \<leftarrow> mustReadRandom rng 2;
             p4 \<leftarrow> writes [(randomOffset, randomOffset + 2, r)] p3;
             Some (p4, s', rng') }
           else Some (p3, s', rng)) })"

section \<open>heartbeat.go\<close>

text \<open>
  \<open>now.Unix()\<close> is a signed 64-bit count of seconds; Go's division and remainder truncate.
\<close>

definition BuildKeepAliveAuth :: "session \<Rightarrow> int \<Rightarrow> bytes option" where
  "BuildKeepAliveAuth s ts =
     writes
       [(0, 1, [0xff]), (1, 17, arr_bytes (MD5Password s)),
        (20, 36, arr_bytes (ServerDrcomIndicator s)),
        (36, 37, [word_of_int (ts smod 256)]),
        (37, 38, [word_of_int ((ts sdiv 256) smod 256)])]
       (zeros SizeKeepAliveAuth)"

definition buildHeartbeatBase ::
    "session \<Rightarrow> byte \<Rightarrow> 2 arr \<Rightarrow> reader \<Rightarrow> (bytes \<times> reader) option" where
  "buildHeartbeatBase s phase version rng = do {
     (r, rng') \<leftarrow> mustReadRandom rng 4;
     packet \<leftarrow> writes
       [(0, 1, [0x07]), (1, 2, [ucast (HeartbeatCount s AND 0xff)]), (2, 3, [0x28]), (3, 4, [0x00]),
        (4, 5, [0x0b]), (5, 6, [phase]), (6, 8, arr_bytes version), (8, 12, r)]
       (zeros SizeKeepAliveHeartbeat);
     Some (packet, rng') }"

definition BuildFirstHeartbeat :: "pconfig \<Rightarrow> session \<Rightarrow> reader \<Rightarrow> (bytes \<times> reader) option" where
  "BuildFirstHeartbeat config s rng = buildHeartbeatBase s 0x01 (pFirstHeartbeatVersion config) rng"

definition BuildExtraHeartbeat :: "pconfig \<Rightarrow> session \<Rightarrow> reader \<Rightarrow> (bytes \<times> reader) option" where
  "BuildExtraHeartbeat config s rng = do {
     (packet, rng') \<leftarrow> buildHeartbeatBase s 0x01 (pExtraHeartbeatVersion config) rng;
     packet \<leftarrow> writes [(16, 20, arr_bytes (HeartbeatToken s))] packet;
     Some (packet, rng') }"

definition BuildHeartbeatStep1 :: "pconfig \<Rightarrow> session \<Rightarrow> reader \<Rightarrow> (bytes \<times> reader) option" where
  "BuildHeartbeatStep1 config s rng = do {
     (packet, rng') \<leftarrow> buildHeartbeatBase s 0x01 (pKeepAliveVersion config) rng;
     packet \<leftarrow> writes [(16, 20, arr_bytes (HeartbeatToken s))] packet;
     Some (packet, rng') }"

definition BuildHeartbeatStep2 :: "pconfig \<Rightarrow> session \<Rightarrow> 4 arr \<Rightarrow> bytes option" where
  "BuildHeartbeatStep2 config s randomToken = do {
     p1 \<leftarrow> writes
       [(0, 1, [0x07]), (1, 2, [ucast (HeartbeatCount s AND 0xff)]), (2, 3, [0x28]), (3, 4, [0x00]),
        (4, 5, [0x0b]), (5, 6, [0x03]), (6, 8, arr_bytes (pKeepAliveVersion config)),
        (8, 12, arr_bytes randomToken), (16, 20, arr_bytes (HeartbeatToken s))]
       (zeros SizeKeepAliveHeartbeat);
     pre \<leftarrow> slice 0 24 p1;
     crc \<leftarrow> Some (CRC (pre @ arr_bytes (pIP config)));
     writes [(24, 28, arr_bytes crc), (28, 32, arr_bytes (pIP config))] p1 }"

section \<open>logout.go\<close>

definition BuildLogoutPacket :: "pconfig \<Rightarrow> session \<Rightarrow> bytes option" where
  "BuildLogoutPacket config s = (
     let username = bytes_of (pUsername config);
         password = bytes_of (pPassword config);
         md5a = MD5 ([0x06, 0x01] @ arr_bytes (LogoutSalt s) @ password)
     in writes
       [(0, 1, [0x06]), (1, 2, [0x01]), (2, 3, [0x00]), (3, 4, [of_nat (length username + 20)]),
        (4, 20, arr_bytes md5a), copyFixed 20 56 username, (56, 57, [0x00]), (57, 58, [0x00]),
        (58, 64, XOR_bytes (arr_bytes (pMAC config)) (arr_bytes md5a) 6),
        (64, 80, arr_bytes (ServerDrcomIndicator s))]
       (zeros SizeLogout))"

end
