(* ===== verification/Layout.thy ===== *)
theory Layout
  imports Packets
begin

text \<open>
  The packets as field tables: what \<open>docs/PROTOCOL_FIELDS.md\<close> says each packet looks like, as a
  concatenation of fields, and the proofs that the builders of \<open>Packets\<close> produce exactly these
  bytes without going out of range.
\<close>

unbundle bit_operations_syntax

section \<open>Reading off an increasing sequence of writes\<close>

definition pad_to :: "nat \<Rightarrow> bytes \<Rightarrow> bytes" where
  "pad_to n xs = take n xs @ zeros (n - length xs)"

lemma length_pad_to [simp]: "length (pad_to n xs) = n"
  by (simp add: pad_to_def)

lemma assemble_skip:
  "q \<le> b \<Longrightarrow> laid_out b n ws \<Longrightarrow> assemble q n ws = zeros (b - q) @ assemble b n ws"
  by (cases ws) (auto simp flip: replicate_add append_assoc)

lemma assemble_field [buf_simps]:
  "b = a + length s \<Longrightarrow> assemble pos n ((a, b, s) # ws) = zeros (a - pos) @ s @ assemble b n ws"
  by simp

lemma assemble_copyFixed [buf_simps]:
  assumes "a \<le> b" and "laid_out b n ws"
  shows "assemble pos n (copyFixed a b s # ws) =
           zeros (a - pos) @ pad_to (b - a) s @ assemble b n ws"
proof -
  have "assemble (a + min (b - a) (length s)) n ws =
          zeros (b - (a + min (b - a) (length s))) @ assemble b n ws"
    using assms by (intro assemble_skip) auto
  then show ?thesis
    using assms(1)
    by (cases "b - a \<le> length s") (simp_all add: copyFixed_def pad_to_def min_absorb1 min_absorb2)
qed

lemma laid_out_copyFixed [buf_simps]:
  assumes "pos \<le> a" and "a \<le> b" and "laid_out b n ws"
  shows "laid_out pos n (copyFixed a b s # ws)"
proof -
  have "b \<le> n" using assms(3) by (rule laid_out_le)
  moreover have "laid_out q n ws" if "q \<le> b" for q
    using assms(3) that by (cases ws) auto
  ultimately show ?thesis
    using assms by (simp add: copyFixed_def)
qed

lemma laid_out_mono: "laid_out pos m ws \<Longrightarrow> m \<le> n \<Longrightarrow> laid_out pos n ws"
  by (induction pos m ws rule: laid_out.induct) auto

lemma laid_out_append: "laid_out pos n (ws @ ws') \<Longrightarrow> laid_out pos n ws"
  by (induction pos n ws rule: laid_out.induct) (auto dest: laid_out_le)

text \<open>A prefix of the packet is already determined by the writes into that prefix.\<close>

lemma take_assemble:
  "laid_out pos m ws \<Longrightarrow> m \<le> n \<Longrightarrow> take (m - pos) (assemble pos n ws) = assemble pos m ws"
proof (induction pos m ws rule: laid_out.induct)
  case (1 pos m)
  then show ?case by simp
next
  case (2 pos m a b s ws)
  let ?q = "a + min (b - a) (length s)"
  have q: "?q \<le> m" using "2.prems" laid_out_le [of ?q m ws] by simp
  have IH: "take (m - ?q) (assemble ?q n ws) = assemble ?q m ws"
    using 2 by simp
  have "m - pos = length (zeros (a - pos) @ take (b - a) s) + (m - ?q)"
    using "2.prems" q by (simp add: min.commute)
  moreover have "take (length X + j) (X @ Y) = X @ take j Y" for X Y :: bytes and j
    by simp
  ultimately show ?case
    using IH by (metis append.assoc assemble.simps(2))
qed

lemma assemble_append:
  assumes "laid_out pos m ws" and "laid_out m n ws'"
  shows "assemble pos n (ws @ ws') = assemble pos m ws @ assemble m n ws'"
  using assms
proof (induction pos m ws rule: laid_out.induct)
  case (1 pos m)
  then show ?case by (simp add: assemble_skip)
qed auto

text \<open>The whole of a builder's work: successive groups of writes behave as one group.\<close>

lemma writes_more:
  assumes "laid_out 0 n (ws @ ws')"
  shows "writes ws' (assemble 0 n ws) = Some (assemble 0 n (ws @ ws'))"
proof -
  have "writes (ws @ ws') (zeros n) = Some (assemble 0 n (ws @ ws'))"
    using assms by (rule writes_laid_out)
  moreover have "laid_out 0 n ws"
    using assms by (rule laid_out_append)
  then have "writes ws (zeros n) = Some (assemble 0 n ws)"
    by (rule writes_laid_out)
  ultimately show ?thesis
    by (simp add: writes_append)
qed

section \<open>The documented tables\<close>

text \<open>Challenge packets (20 bytes).\<close>

definition challenge_layout :: "byte \<Rightarrow> bytes \<Rightarrow> 2 arr \<Rightarrow> bytes" where
  "challenge_layout subtype rand authVersion =
     [0x01, subtype] @ rand @ arr_bytes authVersion @ zeros 14"

text \<open>Heartbeat packets (40 bytes): random token, server token, and from offset 24 the step 2 part.\<close>

definition heartbeat_layout :: "session \<Rightarrow> byte \<Rightarrow> 2 arr \<Rightarrow> bytes \<Rightarrow> bytes \<Rightarrow> bytes \<Rightarrow> bytes" where
  "heartbeat_layout s phase version rand token tail =
     [0x07, ucast (HeartbeatCount s), 0x28, 0x00, 0x0b, phase] @ arr_bytes version @ rand
       @ zeros 4 @ token @ zeros 4 @ tail"

text \<open>Logout packet (80 bytes).\<close>

definition logout_layout :: "pconfig \<Rightarrow> session \<Rightarrow> bytes" where
  "logout_layout config s = (
     let md5a = arr_bytes (MD5 ([0x06, 0x01] @ arr_bytes (LogoutSalt s) @ bytes_of (pPassword config)))
     in [0x06, 0x01, 0x00, of_nat (length (pUsername config) + 20)] @ md5a
          @ pad_to 36 (bytes_of (pUsername config)) @ [0x00, 0x00]
          @ XOR_bytes (arr_bytes (pMAC config)) md5a 6 @ arr_bytes (ServerDrcomIndicator s))"

text \<open>
  Login packet. \<open>n\<close> is the password length, \<open>r = min n 16\<close> of its bytes travel rotated, and the
  packet has \<open>334 + ((n - 1) div 4) * 4\<close> bytes.
\<close>

definition login_size :: "nat \<Rightarrow> nat" where
  "login_size n = 334 + ((n - 1) div 4) * 4"

definition login_padding :: "nat \<Rightarrow> nat" where
  "login_padding n = (4 - n mod 4) mod 4"

definition login_layout_head :: "pconfig \<Rightarrow> session \<Rightarrow> bytes" where
  "login_layout_head config s =
     [0x03, 0x01, 0x00, of_nat (length (pUsername config) + 20)]
       @ arr_bytes (login_md5a config s)
       @ pad_to 36 (bytes_of (pUsername config)) @ [0x00, 0x00]
       @ XOR_bytes (arr_bytes (pMAC config)) (arr_bytes (login_md5a config s)) 6
       @ arr_bytes (login_md5b config s)
       @ [0x01] @ arr_bytes (pIP config) @ zeros 12"

definition login_layout_body :: "pconfig \<Rightarrow> session \<Rightarrow> bytes" where
  "login_layout_body config s = (
     let head = login_layout_head config s; password = bytes_of (pPassword config)
     in head @ take 8 (arr_bytes (MD5 (head @ [0x14, 0x00, 0x07, 0x0b])))
          @ [0x01] @ zeros 4 @ pad_to 32 (bytes_of (pHostName config))
          @ arr_bytes (pPrimaryDNS config) @ arr_bytes (pDHCPServer config) @ zeros 31
          @ [0x01] @ drcomIndicator @ arr_bytes (pAuthVersion config)
          @ pad_to 54 (bytes_of (pOSInfo config)) @ unknownLoginIndicator @ zeros 24
          @ arr_bytes (pAuthVersion config) @ [0x00] @ [of_nat (length password)]
          @ ROR (XOR_bytes (arr_bytes (login_md5a config s)) password (int (min (length password) 16)))
          @ [0x02, 0x0c])"

definition login_layout :: "pconfig \<Rightarrow> session \<Rightarrow> bytes \<Rightarrow> bytes" where
  "login_layout config s rand = (
     let body = login_layout_body config s; n = length (pPassword config); mac = arr_bytes (pMAC config)
     in body @ arr_bytes (Checksum (body @ [0x01, 0x26, 0x07, 0x11, 0x00, 0x00] @ mac))
          @ zeros 2 @ mac @ zeros (login_padding n) @ rand
          @ zeros (login_size n - (330 + min n 16 + login_padding n)))"

section \<open>The builders produce them\<close>

lemma random_2: "mustReadRandom rng 2 = Some (r, rng') \<Longrightarrow> length r = 2"
  by (auto simp: mustReadRandom_def split: option.splits if_splits)

lemma random_4: "mustReadRandom rng 4 = Some (r, rng') \<Longrightarrow> length r = 4"
  by (auto simp: mustReadRandom_def split: option.splits if_splits)

lemma random_enough [buf_simps]:
  "n \<le> length bs \<Longrightarrow> mustReadRandom (Some bs) n = Some (take n bs, Some (drop n bs))"
  by (simp add: mustReadRandom_def)

lemma BuildLoginChallenge_layout:
  assumes "2 \<le> length bs"
  shows "BuildLoginChallenge av (Some bs) =
           Some (challenge_layout 0x02 (take 2 bs) av, Some (drop 2 bs))"
proof -
  have "writes [(0, 1, [0x01]), (1, 2, [0x02]), (2, 4, take 2 bs), (4, 6, arr_bytes av)] (zeros 20)
      = Some (challenge_layout 0x02 (take 2 bs) av)"
    using assms by (subst writes_laid_out) (simp_all add: challenge_layout_def)
  with assms show ?thesis
    by (simp add: BuildLoginChallenge_def random_enough sizes)
qed

lemma BuildLogoutChallenge_layout:
  assumes "2 \<le> length bs"
  shows "BuildLogoutChallenge av (Some bs) =
           Some (challenge_layout 0x03 (take 2 bs) av, Some (drop 2 bs))"
proof -
  have "writes [(0, 1, [0x01]), (1, 2, [0x03]), (2, 4, take 2 bs), (4, 6, arr_bytes av)] (zeros 20)
      = Some (challenge_layout 0x03 (take 2 bs) av)"
    using assms by (subst writes_laid_out) (simp_all add: challenge_layout_def)
  with assms show ?thesis
    by (simp add: BuildLogoutChallenge_def random_enough sizes)
qed

lemma BuildLogoutPacket_layout: "BuildLogoutPacket config s = Some (logout_layout config s)"
  unfolding BuildLogoutPacket_def Let_def sizes
  by (subst writes_laid_out)
    (simp_all add: logout_layout_def Let_def buf_simps del: assemble.simps(2))

lemma ucast_low_byte [buf_simps]: "ucast ((c :: 64 word) AND 0xff) = (ucast c :: byte)"
proof -
  have "(0xff :: 64 word) = mask 8" by (simp add: mask_eq_exp_minus_1)
  show ?thesis
    unfolding \<open>(0xff :: 64 word) = mask 8\<close> by (rule bit_word_eqI) (auto simp: bit_simps)
qed

definition base_writes :: "session \<Rightarrow> byte \<Rightarrow> 2 arr \<Rightarrow> bytes \<Rightarrow> (nat \<times> nat \<times> bytes) list" where
  "base_writes s phase version r =
     [(0, 1, [0x07]), (1, 2, [ucast (HeartbeatCount s AND 0xff)]), (2, 3, [0x28]), (3, 4, [0x00]),
      (4, 5, [0x0b]), (5, 6, [phase]), (6, 8, arr_bytes version), (8, 12, r)]"

lemma buildHeartbeatBase_writes:
  assumes "4 \<le> length bs"
  shows "buildHeartbeatBase s phase version (Some bs) =
           Some (assemble 0 40 (base_writes s phase version (take 4 bs)), Some (drop 4 bs))"
proof -
  have "writes (base_writes s phase version (take 4 bs)) (zeros 40)
      = Some (assemble 0 40 (base_writes s phase version (take 4 bs)))"
    using assms by (intro writes_laid_out) (simp add: base_writes_def)
  with assms show ?thesis
    by (simp add: buildHeartbeatBase_def random_enough sizes base_writes_def)
qed

lemma BuildFirstHeartbeat_layout:
  assumes "4 \<le> length bs"
  shows "BuildFirstHeartbeat config s (Some bs) =
     Some (heartbeat_layout s 0x01 (pFirstHeartbeatVersion config) (take 4 bs) (zeros 4) (zeros 16),
           Some (drop 4 bs))"
  using assms
  by (simp add: BuildFirstHeartbeat_def buildHeartbeatBase_writes base_writes_def
      heartbeat_layout_def buf_simps flip: replicate_add)

lemma base_token_writes:
  assumes "length r = 4"
  shows "writes [(16, 20, arr_bytes (tok :: 4 arr))] (assemble 0 40 (base_writes s phase version r)) =
     Some (heartbeat_layout s phase version r (arr_bytes tok) (zeros 16))"
  using assms
  by (subst writes_more)
    (simp_all add: base_writes_def heartbeat_layout_def buf_simps flip: replicate_add)

lemma BuildExtraHeartbeat_layout:
  assumes "4 \<le> length bs"
  shows "BuildExtraHeartbeat config s (Some bs) =
     Some (heartbeat_layout s 0x01 (pExtraHeartbeatVersion config) (take 4 bs)
             (arr_bytes (HeartbeatToken s)) (zeros 16), Some (drop 4 bs))"
  using assms
  by (simp add: BuildExtraHeartbeat_def buildHeartbeatBase_writes base_token_writes del: writes.simps)

lemma BuildHeartbeatStep1_layout:
  assumes "4 \<le> length bs"
  shows "BuildHeartbeatStep1 config s (Some bs) =
     Some (heartbeat_layout s 0x01 (pKeepAliveVersion config) (take 4 bs)
             (arr_bytes (HeartbeatToken s)) (zeros 16), Some (drop 4 bs))"
  using assms
  by (simp add: BuildHeartbeatStep1_def buildHeartbeatBase_writes base_token_writes del: writes.simps)

text \<open>The step 2 packet carries the CRC of its first 24 bytes followed by the client address.\<close>

definition step2_prefix :: "pconfig \<Rightarrow> session \<Rightarrow> 4 arr \<Rightarrow> bytes" where
  "step2_prefix config s tok =
     take 24 (heartbeat_layout s 0x03 (pKeepAliveVersion config) (arr_bytes tok)
                (arr_bytes (HeartbeatToken s)) (zeros 16))"

lemma BuildHeartbeatStep2_layout:
  "BuildHeartbeatStep2 config s tok =
     Some (heartbeat_layout s 0x03 (pKeepAliveVersion config) (arr_bytes tok)
             (arr_bytes (HeartbeatToken s))
             (arr_bytes (CRC (step2_prefix config s tok @ arr_bytes (pIP config)))
                @ arr_bytes (pIP config) @ zeros 8))"
proof -
  let ?ws = "base_writes s 0x03 (pKeepAliveVersion config) (arr_bytes tok)
               @ [(16, 20, arr_bytes (HeartbeatToken s))]"
  let ?crc = "CRC (step2_prefix config s tok @ arr_bytes (pIP config))"
  have 1: "writes ?ws (zeros SizeKeepAliveHeartbeat) = Some (assemble 0 40 ?ws)"
    unfolding sizes by (rule writes_laid_out) (simp add: base_writes_def)
  have 2: "slice 0 24 (assemble 0 40 ?ws) = Some (step2_prefix config s tok)"
    by (simp add: slice_def base_writes_def step2_prefix_def heartbeat_layout_def buf_simps)
  have 3: "writes [(24, 28, arr_bytes ?crc), (28, 32, arr_bytes (pIP config))] (assemble 0 40 ?ws)
      = Some (assemble 0 40 (?ws @ [(24, 28, arr_bytes ?crc), (28, 32, arr_bytes (pIP config))]))"
    by (rule writes_more) (simp add: base_writes_def)
  show ?thesis
    using 1 2 3
    by (simp add: BuildHeartbeatStep2_def base_writes_def heartbeat_layout_def buf_simps)
qed

lemma BuildKeepAliveAuth_layout:
  "BuildKeepAliveAuth s ts =
     Some ([0xff] @ arr_bytes (MD5Password s) @ zeros 3 @ arr_bytes (ServerDrcomIndicator s)
             @ [word_of_int (ts smod 256), word_of_int ((ts sdiv 256) smod 256)])"
  unfolding BuildKeepAliveAuth_def sizes
  by (subst writes_laid_out) (simp_all add: eval_nat_numeral)

section \<open>The login packet\<close>

lemma login_sizes:
  shows "330 + min n 16 + login_padding n \<le> login_size n"
    and "0 < n \<Longrightarrow> n \<le> 16 \<Longrightarrow> login_size n = 330 + n + login_padding n"
proof -
  have "n + login_padding n \<le> 4 + (n - 1) div 4 * 4" and
    "0 < n \<Longrightarrow> n + login_padding n = 4 + (n - 1) div 4 * 4"
  proof -
    have *: "m + 1 + (4 - (m + 1) mod 4) mod 4 = 4 + m div 4 * 4" for m :: nat
    proof -
      have "m mod 4 \<in> {0, 1, 2, 3}"
        using mod_less_divisor [of 4 m] by auto
      then show ?thesis
        by (auto simp: mod_Suc) (use div_mult_mod_eq [of m 4] in linarith)+
    qed
    show "0 < n \<Longrightarrow> n + login_padding n = 4 + (n - 1) div 4 * 4"
      using * [of "n - 1"] by (simp add: login_padding_def)
    then show "n + login_padding n \<le> 4 + (n - 1) div 4 * 4"
      by (cases n) (simp_all add: login_padding_def)
  qed
  then show "330 + min n 16 + login_padding n \<le> login_size n"
    and "0 < n \<Longrightarrow> n \<le> 16 \<Longrightarrow> login_size n = 330 + n + login_padding n"
    by (simp_all add: login_size_def)
qed

lemma laid_out_login_head: "85 \<le> N \<Longrightarrow> laid_out 0 N (login_head config s)"
  by (simp add: login_head_def Let_def buf_simps)

text \<open>
  The assignments form one increasing sequence, whatever the configuration: nothing the code
  writes overlaps or leaves the packet.
\<close>

lemma laid_out_login:
  fixes config :: pconfig
  defines "n \<equiv> length (pPassword config)"
  assumes "length r = 2"
  shows "laid_out 0 (login_size n) (login_head config s @ login_body config s h @ login_tail config ck
           @ [(328 + min n 16 + login_padding n, 330 + min n 16 + login_padding n, r)])"
  using login_sizes(1) [of n] assms(2)
  by (simp add: login_head_def login_body_def login_tail_def Let_def buf_simps n_def
      drcomIndicator_def unknownLoginIndicator_def)

lemma login_head_layout: "assemble 0 97 (login_head config s) = login_layout_head config s"
  by (simp add: login_head_def login_layout_head_def Let_def buf_simps del: assemble.simps(2))

lemma length_login_layout_head: "length (login_layout_head config s) = 97"
  by (simp add: login_layout_head_def)

lemma login_body_layout:
  fixes config :: pconfig
  defines "r \<equiv> min (length (pPassword config)) 16"
  shows "assemble 0 (316 + r)
           (login_head config s
             @ login_body config s (MD5 (login_layout_head config s @ [0x14, 0x00, 0x07, 0x0b])))
         = login_layout_body config s"
proof -
  let ?h = "MD5 (login_layout_head config s @ [0x14, 0x00, 0x07, 0x0b])"
  have "assemble 0 (316 + r) (login_head config s @ login_body config s ?h)
      = login_layout_head config s @ assemble 97 (316 + r) (login_body config s ?h)"
    unfolding login_head_def login_layout_head_def Let_def
    by (simp add: buf_simps login_body_def Let_def r_def drcomIndicator_def unknownLoginIndicator_def
        del: assemble.simps(2))
  then show ?thesis
    by (simp add: login_layout_body_def login_body_def Let_def buf_simps r_def
        drcomIndicator_def unknownLoginIndicator_def del: assemble.simps(2))
qed

lemma laid_out_login_body:
  "laid_out 0 (316 + min (length (pPassword config)) 16) (login_head config s @ login_body config s h)"
  by (simp add: login_head_def login_body_def Let_def buf_simps drcomIndicator_def
      unknownLoginIndicator_def)

lemma BuildLoginPacket_layout_aux:
  "BuildLoginPacket config s rng =
     (case mustReadRandom rng 2 of None \<Rightarrow> None
      | Some (rand, rng') \<Rightarrow>
          Some (login_layout config s rand, s\<lparr>MD5Password := login_md5a config s\<rparr>, rng'))"
proof -
  define rr where "rr = (case mustReadRandom rng 2 of None \<Rightarrow> zeros 2 | Some (rand, rng') \<Rightarrow> rand)"
  have rr: "length rr = 2"
    by (auto simp: rr_def random_2 split: option.splits)
  define n where "n = length (pPassword config)"
  define N where "N = login_size n"
  define r where "r = min n 16"
  define H where "H = login_head config s"
  define B where "B = login_body config s (MD5 (login_layout_head config s @ [0x14, 0x00, 0x07, 0x0b]))"
  define ck where "ck = Checksum (login_layout_body config s @ [0x01, 0x26, 0x07, 0x11, 0x00, 0x00]
                                   @ arr_bytes (pMAC config))"
  define T where "T = login_tail config ck"
  define R where "R = [(328 + r + login_padding n, 330 + r + login_padding n, rr)]"
  note defs = n_def r_def N_def H_def B_def T_def R_def
  have all: "laid_out 0 N (H @ B @ T @ R)"
    unfolding defs by (rule laid_out_login) (rule rr)
  then have lT: "laid_out 0 N ((H @ B) @ T)" and lB: "laid_out 0 N (H @ B)" and lH: "laid_out 0 N H"
    by (auto intro: laid_out_append [of _ _ _ "T @ R"] laid_out_append [of _ _ _ R]
        laid_out_append [of _ _ _ "B @ T @ R"])
  have HB: "laid_out 0 (316 + r) (H @ B)"
    unfolding defs by (rule laid_out_login_body)
  have N: "330 + r + login_padding n \<le> N"
    using login_sizes(1) [of n] by (simp add: N_def r_def)
  have w1: "writes H (zeros N) = Some (assemble 0 N H)"
    by (rule writes_laid_out [OF lH])
  have s1: "slice 0 97 (assemble 0 N H) = Some (login_layout_head config s)"
    using take_assemble [OF laid_out_login_head, of 97 N config s] N length_assemble [OF lH]
    by (simp add: slice_def login_head_layout H_def)
  have w2: "writes B (assemble 0 N H) = Some (assemble 0 N (H @ B))"
    by (rule writes_more [OF lB])
  have s2: "slice 0 (316 + r) (assemble 0 N (H @ B)) = Some (login_layout_body config s)"
    using take_assemble [OF HB, of N] N length_assemble [OF lB]
      login_body_layout [of config s]
    by (simp add: slice_def defs)
  have w3: "writes T (assemble 0 N (H @ B)) = Some (assemble 0 N (H @ B @ T))"
    using writes_more [OF lT] by simp
  have w4: "writes R (assemble 0 N (H @ B @ T)) = Some (assemble 0 N (H @ B @ T @ R))"
    using writes_more [of N "H @ B @ T" R] all by simp
  have "laid_out (316 + r) N (T @ R)"
    using N rr by (simp add: T_def R_def login_tail_def Let_def r_def n_def)
  then have "assemble 0 N (H @ B @ T @ R) = assemble 0 (316 + r) (H @ B) @ assemble (316 + r) N (T @ R)"
    using assemble_append [OF HB] by simp
  also have "\<dots> = login_layout config s (rr)"
    using rr N login_body_layout [of config s]
    by (simp add: login_layout_def Let_def defs ck_def login_tail_def algebra_simps)
  finally have out: "assemble 0 N (H @ B @ T @ R) = login_layout config s (rr)" .
  have len: "length (assemble 0 N (H @ B @ T)) = N"
    using length_assemble [of 0 N "H @ B @ T"] lT by simp
  have pad: "(if 0 < n then (4 - n mod 4) mod 4 else 0) = login_padding n"
    and size: "334 + (if 0 < n then (n - 1) div 4 * 4 else 0) = N"
    by (simp_all add: login_padding_def N_def login_size_def)
  show ?thesis
    unfolding BuildLoginPacket_def Let_def length_bytes_of
      n_def [symmetric] r_def [symmetric] pad size H_def [symmetric]
    using w1 s1 w2 s2 w3 w4 [unfolded out] len N
    by (cases "mustReadRandom rng 2")
      (auto simp: B_def ck_def T_def R_def rr_def add.assoc simp del: writes.simps)
qed

lemma length_login_layout_body:
  "length (login_layout_body config s) = 316 + min (length (pPassword config)) 16"
  by (simp add: login_layout_body_def Let_def length_login_layout_head drcomIndicator_def
      unknownLoginIndicator_def)

lemma length_login_layout:
  "length rand = 2 \<Longrightarrow> length (login_layout config s rand) = login_size (length (pPassword config))"
  using login_sizes(1) [of "length (pPassword config)"]
  by (simp add: login_layout_def Let_def length_login_layout_body)

lemma login_layout_body_split:
  obtains pre where "length pre = 314" and "take 16 (drop 4 pre) = arr_bytes (login_md5a config s)"
    and "pre ! 313 = of_nat (length (pPassword config))"
    and "login_layout_body config s =
           pre @ ROR (XOR_bytes (arr_bytes (login_md5a config s)) (bytes_of (pPassword config))
                        (int (min (length (pPassword config)) 16))) @ [0x02, 0x0c]"
proof -
  let ?h = "login_layout_head config s"
  let ?pre = "?h @ take 8 (arr_bytes (MD5 (?h @ [0x14, 0x00, 0x07, 0x0b])))
          @ [0x01] @ zeros 4 @ pad_to 32 (bytes_of (pHostName config))
          @ arr_bytes (pPrimaryDNS config) @ arr_bytes (pDHCPServer config) @ zeros 31
          @ [0x01] @ drcomIndicator @ arr_bytes (pAuthVersion config)
          @ pad_to 54 (bytes_of (pOSInfo config)) @ unknownLoginIndicator @ zeros 24
          @ arr_bytes (pAuthVersion config) @ [0x00] @ [of_nat (length (pPassword config))]"
  have len: "length ?pre = 314"
    by (simp add: length_login_layout_head drcomIndicator_def unknownLoginIndicator_def)
  have "?pre ! 313 = last ?pre"
    using len by (subst last_conv_nth) auto
  with len that [of ?pre] show ?thesis
    by (simp add: login_layout_body_def Let_def) (simp add: login_layout_head_def)
qed

section \<open>Properties\<close>

text \<open>
  Property C24. The login packet is exactly the field table of \<open>docs/PROTOCOL_FIELDS.md\<close>, for
  every configuration, session and reader: the two random bytes are the only way it can fail, no
  field overlaps another and no access leaves the packet, whose length is
  \<open>334 + ((n - 1) div 4) * 4\<close> for a password of \<open>n\<close> bytes. The session keeps the digest.
\<close>

theorem login_packet_field_table:
  "BuildLoginPacket config s rng =
     (case mustReadRandom rng 2 of None \<Rightarrow> None
      | Some (rand, rng') \<Rightarrow>
          Some (login_layout config s rand, s\<lparr>MD5Password := login_md5a config s\<rparr>, rng'))
   \<and> (\<forall>rand. if length rand = 2
        then length (login_layout config s rand) = 334 + ((length (pPassword config) - 1) div 4) * 4
        else True)"
  using BuildLoginPacket_layout_aux [of config s rng] length_login_layout [of _ config s]
  by (auto simp: login_size_def)

text \<open>
  Property C25. The receiver can decode and check the login packet from its own bytes. With the
  digest at \<open>[4:20]\<close>, the rotated field at 314 gives back the first 16 bytes of the password,
  whose length is at 313 (modulo 256), and the checksum at \<open>316 + r\<close> is the checksum of
  what precedes it, a fixed string and the MAC address stored at \<open>322 + r\<close>.
\<close>

theorem login_packet_decodes:
  assumes built: "BuildLoginPacket config s rng = Some (p, s', rng')"
    and r: "r = min (length (pPassword config)) 16"
  shows "XOR_bytes (take 16 (drop 4 p)) (unROR (take r (drop 314 p))) (int r)
           = take 16 (bytes_of (pPassword config))
       \<and> p ! 313 = of_nat (length (pPassword config))
       \<and> take 4 (drop (316 + r) p) =
           arr_bytes (Checksum (take (316 + r) p @ [0x01, 0x26, 0x07, 0x11, 0x00, 0x00]
                                  @ take 6 (drop (322 + r) p)))"
proof -
  let ?pw = "bytes_of (pPassword config)" and ?a = "arr_bytes (login_md5a config s)"
    and ?mac = "arr_bytes (pMAC config)" and ?body = "login_layout_body config s"
  have lb: "length ?body = 316 + r"
    by (simp add: length_login_layout_body r)
  from built obtain rand where "p = login_layout config s rand"
    by (auto simp: BuildLoginPacket_layout_aux split: option.splits)
  then obtain ck rest where p: "p = ?body @ ck @ zeros 2 @ ?mac @ rest" and lck: "length ck = 4"
    and ck: "ck = arr_bytes (Checksum (?body @ [0x01, 0x26, 0x07, 0x11, 0x00, 0x00] @ ?mac))"
    by (auto simp: login_layout_def Let_def)
  obtain pre where pre: "length pre = 314" "take 16 (drop 4 pre) = ?a"
    "pre ! 313 = of_nat (length (pPassword config))"
    and body: "?body = pre @ ROR (XOR_bytes ?a ?pw (int r)) @ [0x02, 0x0c]"
    using login_layout_body_split [of config s] unfolding r by blast
  have "take 16 (drop 4 p) = ?a" and "take r (drop 314 p) = ROR (XOR_bytes ?a ?pw (int r))"
    and "p ! 313 = of_nat (length (pPassword config))"
    using pre by (simp_all add: p body nth_append)
  moreover have "take r ?pw = take 16 ?pw"
    by (simp add: r min_def)
  then have "XOR_bytes ?a (XOR_bytes ?a ?pw (int r)) (int r) = take 16 ?pw"
    using XOR_bytes_cancel_min [of r ?a ?pw] by (simp add: r)
  moreover have "take (316 + r) p = ?body" and "take 4 (drop (316 + r) p) = ck"
    and "take 6 (drop (322 + r) p) = ?mac"
    using lb lck by (simp_all add: p)
  ultimately show ?thesis
    using ck by simp
qed

text \<open>The configuration of \<open>protocol_test.go\<close>, as a concrete input.\<close>

definition sample_pconfig :: pconfig where
  "sample_pconfig =
     \<lparr>pUsername = ''u123'', pPassword = ''passw0rd'', pIP = arr_of [192, 168, 1, 100],
      pMAC = arr_of [0x00, 0x11, 0x22, 0x33, 0x44, 0x55], pHostName = ''win'', pOSInfo = ''Windows 11'',
      pPrimaryDNS = arr_of [0, 0, 0, 0], pDHCPServer = arr_of [0, 0, 0, 0],
      pAuthVersion = arr_of [0x68, 0x00], pKeepAliveVersion = arr_of [0xdc, 0x02],
      pFirstHeartbeatVersion = arr_of [0x0f, 0x27], pExtraHeartbeatVersion = arr_of [0xdb, 0x02]\<rparr>"

theorem login_packet_decodes_witness:
  "\<exists>p s' rng'. BuildLoginPacket sample_pconfig zero_session (Some [0xaa, 0xbb]) = Some (p, s', rng')
     \<and> XOR_bytes (take 16 (drop 4 p)) (unROR (take 8 (drop 314 p))) 8 = bytes_of ''passw0rd''"
proof -
  have "\<exists>p s' rng'. BuildLoginPacket sample_pconfig zero_session (Some [0xaa, 0xbb]) = Some (p, s', rng')"
    by (simp add: BuildLoginPacket_layout_aux mustReadRandom_def)
  then obtain p s' rng'
    where p: "BuildLoginPacket sample_pconfig zero_session (Some [0xaa, 0xbb]) = Some (p, s', rng')"
    by blast
  have r: "8 = min (length (pPassword sample_pconfig)) 16"
    by (simp add: sample_pconfig_def)
  from login_packet_decodes [OF p r] p show ?thesis
    by (auto simp: sample_pconfig_def bytes_of_def)
qed

text \<open>
  The step 2 heartbeat is self-checking: bytes 24 to 27 are the CRC of the first 24
  bytes followed by the address stored at 28, and the three header fields that the server matches
  on (type, sequence number, phase) are in place.
\<close>

lemma step2_packet_checks:
  "\<exists>p. BuildHeartbeatStep2 config s tok = Some p \<and> length p = 40
     \<and> take 4 (drop 24 p) = arr_bytes (CRC (take 24 p @ take 4 (drop 28 p)))
     \<and> p ! 0 = 0x07 \<and> p ! 1 = ucast (HeartbeatCount s) \<and> p ! 5 = 0x03
     \<and> take 4 (drop 16 p) = arr_bytes (HeartbeatToken s)
     \<and> take 4 (drop 8 p) = arr_bytes tok"
  by (simp add: BuildHeartbeatStep2_layout step2_prefix_def heartbeat_layout_def)

text \<open>
  The keepalive packet never fails to build, has 38 bytes, and for a clock after 1970
  its last two bytes are the low 16 bits of the Unix time, little-endian.
\<close>

lemma keepalive_timestamp:
  assumes "0 \<le> ts"
  shows "\<exists>p. BuildKeepAliveAuth s ts = Some p \<and> length p = 38
     \<and> take 16 (drop 1 p) = arr_bytes (MD5Password s)
     \<and> take 16 (drop 20 p) = arr_bytes (ServerDrcomIndicator s)
     \<and> uint (p ! 36) + 256 * uint (p ! 37) = ts mod 65536"
proof -
  have trunc: "t smod 256 = t mod 256" "t sdiv 256 = t div 256" if "0 \<le> t" for t :: int
    using that by (cases "t = 0"; simp add: signed_modulo_int_def signed_divide_int_def)+
  have "ts mod 65536 = ts mod 256 + 256 * ((ts div 256) mod 256)"
    using zmod_zmult2_eq [of 256 ts 256] by simp
  then show ?thesis
    using assms by (simp add: BuildKeepAliveAuth_layout trunc nth_append uint_word_of_int)
qed

lemma keepalive_timestamp_witness:
  "\<exists>p. BuildKeepAliveAuth zero_session 0x1234 = Some p \<and> length p = 38
     \<and> take 16 (drop 1 p) = arr_bytes (MD5Password zero_session)
     \<and> take 16 (drop 20 p) = arr_bytes (ServerDrcomIndicator zero_session)
     \<and> uint (p ! 36) + 256 * uint (p ! 37) = 0x1234"
  using keepalive_timestamp [of "0x1234" zero_session] by simp

end
