(* ===== verification/World.thy ===== *)
theory World
  imports Packets
begin

text \<open>
  What the client shares with its environment: the clock, cancellation contexts, the scheduler,
  the random source, the socket, and the variables that several calls update through pointers and
  closures. Everything that the environment decides is a component of the state, so that a theorem
  about all states is a theorem about all schedules, servers and cancellation times.
  Also here: the configuration record (\<open>internal/config/config.go\<close>) and the session states
  (\<open>internal/runner/state.go\<close>).
\<close>

section \<open>Configuration\<close>

record NetworkInfo =
  InterfaceName :: string
  NIP :: "4 arr"
  NMAC :: "6 arr"

record config =
  Username :: string
  Password :: string
  IP :: "4 arr"
  MAC :: "6 arr"
  HostName :: string
  OSInfo :: string
  ServerIP :: "4 arr"
  ServerPort :: int
  BindIP :: "4 arr"
  BindPort :: int
  AuthVersion :: "2 arr"
  KeepAliveVersion :: "2 arr"
  FirstHeartbeatVersion :: "2 arr"
  ExtraHeartbeatVersion :: "2 arr"
  PrimaryDNS :: "4 arr"
  DHCPServer :: "4 arr"
  DebugHexDump :: bool
  ReceiveTimeout :: int
  RetryCount :: int
  HeartbeatInterval :: int
  ReceiveTimeoutMillis :: int
  HeartbeatIntervalSecs :: int
  AdapterHint :: string
  AutoNetwork :: NetworkInfo

definition ProtocolConfig :: "config \<Rightarrow> pconfig" where
  "ProtocolConfig c =
     \<lparr>pUsername = Username c, pPassword = Password c, pIP = IP c, pMAC = MAC c,
      pHostName = HostName c, pOSInfo = OSInfo c, pPrimaryDNS = PrimaryDNS c,
      pDHCPServer = DHCPServer c, pAuthVersion = AuthVersion c,
      pKeepAliveVersion = KeepAliveVersion c, pFirstHeartbeatVersion = FirstHeartbeatVersion c,
      pExtraHeartbeatVersion = ExtraHeartbeatVersion c\<rparr>"

section \<open>Durations\<close>

text \<open>\<open>time.Duration\<close> and clock readings are integers counting nanoseconds.\<close>

definition second :: int where "second = 1000000000"
definition millisecond :: int where "millisecond = 1000000"

section \<open>Session states\<close>

datatype State =
    StateDisconnected
  | StateLoginChallenge
  | StateLoggingIn
  | StateOnline
  | StateReconnecting
  | StateLoggingOut
  | StateStopped
  | StateFailed

fun state_string :: "State \<Rightarrow> string" where
  "state_string StateDisconnected = ''Disconnected''"
| "state_string StateLoginChallenge = ''LoginChallenge''"
| "state_string StateLoggingIn = ''LoggingIn''"
| "state_string StateOnline = ''Online''"
| "state_string StateReconnecting = ''Reconnecting''"
| "state_string StateLoggingOut = ''LoggingOut''"
| "state_string StateStopped = ''Stopped''"
| "state_string StateFailed = ''Failed''"

text \<open>
  The history of a run: each \<open>r.state.Store\<close> (\<open>EvState\<close>), each call of the supervisor's
  \<open>OnState\<close> callback (\<open>EvNotify\<close>), and the log lines with the attributes the code passes.
\<close>

datatype event =
    EvState State
  | EvNotify State
  | LogExchange string nat nat "err option"
  | LogLogin
  | LogHeartbeat "64 word"
  | LogLogout
  | LogLogoutFailed err
  | LogBound "4 arr" int string
  | LogRetry int "err option"

section \<open>Sockets\<close>

text \<open>\<open>net.UDPAddr\<close>; an IP is its 4 or 16 bytes.\<close>

record udp_addr =
  addr_ip :: bytes
  addr_port :: int

text \<open>What a read on the socket can yield: a datagram with its sender, or an error of the system.\<close>

datatype arrival = Datagram udp_addr bytes | SockErr string

section \<open>The state\<close>

text \<open>
  \<open>lags\<close> are the delays the scheduler inserts, one consumed at each observation of the clock or
  of a context (none when exhausted); \<open>coins\<close> resolve a \<open>select\<close> with several ready cases.
  \<open>inbox\<close> holds the arrivals still to come, \<open>rcvd\<close> and \<open>sent\<close> the datagrams read from and written
  to the socket so far. \<open>net\<close> is the network: given the packets sent so far and the next one, either an error of the
  send or the arrivals it causes, each with its delay in nanoseconds. \<open>sess\<close> is the session
  variable of \<open>Runner.Run\<close>, \<open>resp\<close> the variable \<open>response\<close> captured by \<open>Runner.exchange\<close>,
  \<open>delay\<close> the one captured by \<open>Supervisor.Run\<close>. \<open>sock_if\<close> is the socket's \<open>IP_UNICAST_IF\<close> option.
\<close>

record world =
  now :: int
  lags :: "nat list"
  coins :: "bool list"
  rng :: reader
  sess :: session
  resp :: bytes
  rstate :: State
  trace :: "event list"
  delay :: int
  sock_open :: bool
  sock_if :: "int option"
  sock_deadline :: "int option"
  inbox :: "(int \<times> arrival) list"
  rcvd :: "(udp_addr \<times> bytes) list"
  sent :: "(udp_addr \<times> bytes) list"
  net :: "bytes list \<Rightarrow> bytes \<Rightarrow> string + (nat \<times> arrival) list"

definition emit :: "event \<Rightarrow> world \<Rightarrow> world" where
  "emit e w = w\<lparr>trace := trace w @ [e]\<rparr>"

text \<open>Time passes between two statements.\<close>

definition pause :: "world \<Rightarrow> world" where
  "pause w = (case lags w of [] \<Rightarrow> w | d # ds \<Rightarrow> w\<lparr>now := now w + int d, lags := ds\<rparr>)"

definition flip :: "world \<Rightarrow> bool \<times> world" where
  "flip w = (case coins w of [] \<Rightarrow> (True, w) | c # cs \<Rightarrow> (c, w\<lparr>coins := cs\<rparr>))"

section \<open>Contexts\<close>

text \<open>
  A \<open>context.Context\<close> as the program builds them: cancelled by its owner at \<open>cancel_at\<close>
  (\<open>WithCancel\<close>), expiring at \<open>ctx_deadline\<close> (\<open>WithTimeout\<close>), or neither (\<open>Background\<close>).
\<close>

record ctx_t =
  cancel_at :: "int option"
  ctx_deadline :: "int option"

text \<open>When \<open>Done()\<close> is closed, and what \<open>Err()\<close> says from then on.\<close>

definition ctx_done :: "ctx_t \<Rightarrow> int option" where
  "ctx_done c =
     (case (cancel_at c, ctx_deadline c) of
        (None, d) \<Rightarrow> d
      | (Some a, None) \<Rightarrow> Some a
      | (Some a, Some d) \<Rightarrow> Some (min a d))"

definition ctx_cause :: "ctx_t \<Rightarrow> err" where
  "ctx_cause c =
     (case (cancel_at c, ctx_deadline c) of
        (None, d) \<Rightarrow> DeadlineExceeded
      | (Some a, None) \<Rightarrow> Canceled
      | (Some a, Some d) \<Rightarrow> if a \<le> d then Canceled else DeadlineExceeded)"

definition ctx_err_at :: "ctx_t \<Rightarrow> int \<Rightarrow> err option" where
  "ctx_err_at c t =
     (case ctx_done c of None \<Rightarrow> None | Some d \<Rightarrow> if d \<le> t then Some (ctx_cause c) else None)"

text \<open>\<open>ctx.Err()\<close>.\<close>

definition ctx_Err :: "ctx_t \<Rightarrow> world \<Rightarrow> err option \<times> world" where
  "ctx_Err c w = (let w = pause w in (ctx_err_at c (now w), w))"

text \<open>
  \<open>select { case <-ctx.Done(): ... case <-timer.C: ... }\<close> for a timer that fires at \<open>fire\<close>:
  a ready case is taken at once (the coin decides between two), otherwise the select blocks until
  the first of the two events. The result is whether the \<open>Done\<close> case was taken.
\<close>

definition select_done :: "ctx_t \<Rightarrow> int \<Rightarrow> world \<Rightarrow> bool \<times> world" where
  "select_done c fire w0 = (
     let w = pause w0 in
     case ctx_done c of
       None \<Rightarrow> (False, w\<lparr>now := max (now w) fire\<rparr>)
     | Some d \<Rightarrow>
         if d \<le> now w \<and> fire \<le> now w then flip w
         else if d \<le> now w then (True, w)
         else if fire \<le> now w then (False, w)
         else if d < fire then (True, w\<lparr>now := d\<rparr>)
         else if fire < d then (False, w\<lparr>now := fire\<rparr>)
         else flip (w\<lparr>now := d\<rparr>))"

section \<open>Facts\<close>

text \<open>The part of the state that only the runner itself writes.\<close>

definition same_local :: "world \<Rightarrow> world \<Rightarrow> bool" where
  "same_local w w' \<longleftrightarrow> sess w' = sess w \<and> rstate w' = rstate w \<and> trace w' = trace w
     \<and> rng w' = rng w \<and> delay w' = delay w \<and> net w' = net w"

text \<open>
  Time only moves forward, and every nanosecond is accounted for: \<open>busy\<close> is the time the
  scheduler may still take, so \<open>now + busy\<close> moves only when the program itself waits.
\<close>

definition busy :: "world \<Rightarrow> int" where
  "busy w = int (sum_list (lags w))"

lemma now_pause: "now w \<le> now (pause w)"
  by (simp add: pause_def split: list.split)

lemma pause_account [simp]: "now (pause w) + busy (pause w) = now w + busy w"
  by (simp add: pause_def busy_def split: list.split)

lemma busy_pause: "busy (pause w) \<le> busy w"
  by (simp add: pause_def busy_def split: list.split)

text \<open>
  The latest time at which a computation that only waits for the event at \<open>d\<close> can still be
  running. An operation that a context done at \<open>d\<close> interrupts never raises it.
\<close>

definition due :: "int \<Rightarrow> world \<Rightarrow> int" where
  "due d w = max (now w) d + busy w"

lemma due_pause: "due d (pause w) \<le> due d w"
  by (simp add: due_def pause_def busy_def max_def split: list.split)

lemma due_ge: "now w + busy w \<le> due d w"
  by (simp add: due_def)

lemma pause_frame [simp]:
  "coins (pause w) = coins w" "rng (pause w) = rng w" "sess (pause w) = sess w"
  "resp (pause w) = resp w" "rstate (pause w) = rstate w" "trace (pause w) = trace w"
  "delay (pause w) = delay w" "sock_open (pause w) = sock_open w"
  "sock_deadline (pause w) = sock_deadline w" "inbox (pause w) = inbox w" "rcvd (pause w) = rcvd w"
  "sent (pause w) = sent w" "net (pause w) = net w"
  by (simp_all add: pause_def split: list.split)

lemma flip_frame:
  "snd (flip w) = w\<lparr>coins := coins (snd (flip w))\<rparr>"
  by (simp add: flip_def split: list.split)

lemma flip_simps [simp]:
  "now (snd (flip w)) = now w" "lags (snd (flip w)) = lags w" "rng (snd (flip w)) = rng w"
  "sess (snd (flip w)) = sess w" "resp (snd (flip w)) = resp w" "rstate (snd (flip w)) = rstate w"
  "trace (snd (flip w)) = trace w" "delay (snd (flip w)) = delay w"
  "sock_open (snd (flip w)) = sock_open w" "sock_deadline (snd (flip w)) = sock_deadline w"
  "inbox (snd (flip w)) = inbox w" "rcvd (snd (flip w)) = rcvd w" "sent (snd (flip w)) = sent w" "net (snd (flip w)) = net w"
  by (simp_all add: flip_def split: list.split)

lemma ctx_Err_eq: "ctx_Err c w = (ctx_err_at c (now (pause w)), pause w)"
  by (simp add: ctx_Err_def Let_def)

lemma ctx_err_at_mono: "ctx_err_at c t = Some e \<Longrightarrow> t \<le> t' \<Longrightarrow> ctx_err_at c t' = Some e"
  by (auto simp: ctx_err_at_def split: option.splits if_splits)

lemma ctx_err_at_None: "ctx_err_at c t' = None \<Longrightarrow> t \<le> t' \<Longrightarrow> ctx_err_at c t = None"
  by (auto simp: ctx_err_at_def split: option.splits if_splits)

lemma ctx_err_at_cause: "ctx_err_at c t = Some e \<Longrightarrow> e = ctx_cause c"
  by (auto simp: ctx_err_at_def split: option.splits if_splits)

lemma ctx_cause_cases: "ctx_cause c = Canceled \<or> ctx_cause c = DeadlineExceeded"
  by (auto simp: ctx_cause_def split: option.splits)

lemma same_local_refl [simp]: "same_local w w"
  by (simp add: same_local_def)

lemma same_local_trans: "same_local a b \<Longrightarrow> same_local b c \<Longrightarrow> same_local a c"
  by (simp add: same_local_def)

lemma same_local_pause [simp]: "same_local w (pause w)"
  by (simp add: same_local_def)

text \<open>The select only moves the clock, never past the first of its two events.\<close>

lemma select_done_frame:
  assumes "select_done c fire w = (b, w')"
  shows "same_local w w' \<and> now w \<le> now w' \<and> sent w' = sent w \<and> inbox w' = inbox w
    \<and> resp w' = resp w \<and> sock_open w' = sock_open w \<and> rcvd w' = rcvd w"
  using assms now_pause [of w]
  by (auto simp: select_done_def Let_def same_local_def prod_eq_iff split: option.splits if_splits)

lemma select_done_busy:
  assumes "select_done c fire w = (b, w')"
  shows "busy w' \<le> busy w" and "now w' + busy w' \<le> max (now w) fire + busy w"
    and "ctx_done c = Some d \<Longrightarrow> due d w' \<le> due d w"
proof -
  have b: "busy (w\<lparr>now := n\<rparr>) = busy w" "busy (snd (flip v)) = busy v" for n w v
    by (simp_all add: busy_def)
  have acc: "now (pause w) + busy (pause w) = now w + busy w" by simp
  have le: "now w \<le> now (pause w)" "busy (pause w) \<le> busy w" by (rule now_pause busy_pause)+
  show "busy w' \<le> busy w"
    using assms le
    by (auto simp: select_done_def Let_def b prod_eq_iff split: option.splits if_splits)
  show "now w' + busy w' \<le> max (now w) fire + busy w"
    using assms le acc
    by (auto simp: select_done_def Let_def b prod_eq_iff max_def split: option.splits if_splits)
  show "ctx_done c = Some d \<Longrightarrow> due d w' \<le> due d w"
    using assms le acc unfolding due_def
    by (auto simp: select_done_def Let_def b prod_eq_iff max_def split: option.splits if_splits)
qed

lemma select_done_True: "select_done c fire w = (True, w') \<Longrightarrow> ctx_err_at c (now w') \<noteq> None"
  by (auto simp: select_done_def Let_def ctx_err_at_def prod_eq_iff split: option.splits if_splits)

lemma select_done_False: "select_done c fire w = (False, w') \<Longrightarrow> fire \<le> now w'"
  by (auto simp: select_done_def Let_def prod_eq_iff split: option.splits if_splits)

end
