(* ===== verification/Response.thy ===== *)
theory Response
  imports Packets
begin

text \<open>
  \<open>internal/protocol\<close>: the reply parsers (\<open>challenge.go\<close>, \<open>login.go\<close>, \<open>heartbeat.go\<close>,
  \<open>logout.go\<close>) and the request-specific matcher (\<open>response.go\<close>). They read bytes that come
  from the network, so every index and slice is a checked read: \<open>None\<close> is a run-time panic, and
  the lemmas show that it never happens.
\<close>

section \<open>Parsers\<close>

definition parseChallengeResponse :: "bytes \<Rightarrow> byte \<Rightarrow> (err + 4 arr) option" where
  "parseChallengeResponse packet subtype =
     (if length packet < 8 then Some (Inl (Errorf ''challenge response too short''))
      else do {
        wrong \<leftarrow> or_sc (ne_at packet 0 0x02) (ne_at packet 1 subtype);
        if wrong then Some (Inl (Errorf ''unexpected challenge response type''))
        else do {
          salt \<leftarrow> slice 4 8 packet;
          Some (Inr (arr_of salt)) } })"

definition ParseLoginChallengeResponse :: "bytes \<Rightarrow> (err + 4 arr) option" where
  "ParseLoginChallengeResponse packet = parseChallengeResponse packet 0x02"

definition ParseLogoutChallengeResponse :: "bytes \<Rightarrow> (err + 4 arr) option" where
  "ParseLogoutChallengeResponse packet = parseChallengeResponse packet 0x03"

definition ParseLoginResponse :: "bytes \<Rightarrow> session \<Rightarrow> (err + session) option" where
  "ParseLoginResponse packet s = do {
     rejected \<leftarrow> and_sc (Some (length packet > 0)) (eq_at packet 0 0x05);
     if rejected then Some (Inl (Errorf ''authentication rejected by server''))
     else if length packet < 39 then Some (Inl (Errorf ''login response too short''))
     else do {
       other \<leftarrow> ne_at packet 0 0x04;
       if other then Some (Inl (Errorf ''unexpected login response type''))
       else do {
         ind \<leftarrow> slice 23 39 packet;
         Some (Inr (s\<lparr>ServerDrcomIndicator := arr_of ind\<rparr>)) } } }"

definition ParseLogoutResponse :: "bytes \<Rightarrow> (err + unit) option" where
  "ParseLogoutResponse packet = do {
     bad \<leftarrow> or_sc (Some (length packet < 25)) (or_sc (Some (39 \<le> length packet)) (ne_at packet 0 0x04));
     Some (if bad then Inl (Errorf ''invalid logout response'') else Inr ()) }"

definition ParseKeepAliveAuthResponse :: "bytes \<Rightarrow> (err + unit) option" where
  "ParseKeepAliveAuthResponse packet = do {
     bad \<leftarrow> or_sc (Some (length packet < 72)) (or_sc (ne_at packet 0 0x07)
              (or_sc (ne_at packet 2 16) (or_sc (ne_at packet 3 0) (ne_at packet 4 0x06))));
     Some (if bad then Inl (Errorf ''invalid keepalive auth response'') else Inr ()) }"

definition validHeartbeat :: "bytes \<Rightarrow> bool option" where
  "validHeartbeat p = do {
     bad \<leftarrow> or_sc (Some (length p < 40)) (or_sc (ne_at p 0 0x07) (or_sc (ne_at p 4 0x0b)
              (do { len \<leftarrow> slice 2 4 p; Some (unat (le16 len) \<noteq> length p) })));
     if bad then Some False
     else or_sc (eq_at p 5 0x02) (or_sc (eq_at p 5 0x04) (eq_at p 5 0x06)) }"

definition ParseHeartbeatStep1Response :: "bytes \<Rightarrow> session \<Rightarrow> (err + session) option" where
  "ParseHeartbeatStep1Response packet s = do {
     bad \<leftarrow> or_sc (map_option Not (validHeartbeat packet))
              (or_sc (ne_at packet 5 0x02) (ne_at packet 1 (ucast (HeartbeatCount s))));
     if bad then Some (Inl (Errorf ''invalid heartbeat step1 response''))
     else do {
       tok \<leftarrow> slice 16 20 packet;
       Some (Inr (s\<lparr>HeartbeatToken := arr_of tok\<rparr>)) } }"

definition ParseHeartbeatAck :: "bytes \<Rightarrow> (err + unit) option" where
  "ParseHeartbeatAck packet = do {
     valid \<leftarrow> validHeartbeat packet;
     Some (if valid then Inr () else Inl (Errorf ''invalid heartbeat response'')) }"

section \<open>The matcher\<close>

text \<open>\<open>ParseX(p) == nil\<close>.\<close>

definition is_nil :: "(err + unit) option \<Rightarrow> bool option" where
  "is_nil r = map_option (\<lambda>x. case x of Inl _ \<Rightarrow> False | Inr _ \<Rightarrow> True) r"

definition ResponseMatcher :: "bytes \<Rightarrow> bool \<Rightarrow> bytes \<Rightarrow> (err + bool) option" where
  "ResponseMatcher request allowFile p =
     (if length p = 0 \<or> length request = 0 then Some (Inr False)
      else do {
        rejected \<leftarrow> eq_at p 0 0x05;
        if rejected then Some (Inl ErrRejected)
        else do {
          kind \<leftarrow> idx 0 request;
          if kind = 0x01 then
            map_option Inr (and_sc (Some (length request \<ge> 2)) (and_sc (Some (length p \<ge> 8))
              (and_sc (eq_at p 0 0x02) (do { sub \<leftarrow> idx 1 request; eq_at p 1 sub }))))
          else if kind = 0x03 then
            map_option Inr (and_sc (Some (length p \<ge> 39)) (eq_at p 0 0x04))
          else if kind = 0x06 then map_option Inr (is_nil (ParseLogoutResponse p))
          else if kind = 0xff then map_option Inr (is_nil (ParseKeepAliveAuthResponse p))
          else if kind = 0x07 then do {
            skip \<leftarrow> or_sc (Some (length request < 8)) (or_sc (map_option Not (validHeartbeat p))
                      (do { count \<leftarrow> idx 1 request; ne_at p 1 count }));
            if skip then Some (Inr False)
            else do {
              step2 \<leftarrow> eq_at request 5 0x03;
              if step2 then map_option Inr (eq_at p 5 0x04)
              else if allowFile then map_option Inr (or_sc (eq_at p 5 0x06) (eq_at p 5 0x02))
              else map_option Inr (eq_at p 5 0x02) } }
          else Some (Inr False) } })"

section \<open>Plain characterisations\<close>

text \<open>The conditions without the reading order: what the checked code decides.\<close>

definition heartbeat_ok :: "bytes \<Rightarrow> bool" where
  "heartbeat_ok p \<longleftrightarrow> 40 \<le> length p \<and> p ! 0 = 0x07 \<and> p ! 4 = 0x0b
     \<and> unat (le16 (take 2 (drop 2 p))) = length p \<and> p ! 5 \<in> {0x02, 0x04, 0x06}"

definition keepalive_ok :: "bytes \<Rightarrow> bool" where
  "keepalive_ok p \<longleftrightarrow> 72 \<le> length p \<and> p ! 0 = 0x07 \<and> p ! 2 = 16 \<and> p ! 3 = 0 \<and> p ! 4 = 0x06"

definition logout_ok :: "bytes \<Rightarrow> bool" where
  "logout_ok p \<longleftrightarrow> 25 \<le> length p \<and> length p < 39 \<and> p ! 0 = 0x04"

definition rejects :: "bytes \<Rightarrow> bytes \<Rightarrow> bool" where
  "rejects request p \<longleftrightarrow> p \<noteq> [] \<and> request \<noteq> [] \<and> p ! 0 = 0x05"

definition accepts :: "bytes \<Rightarrow> bool \<Rightarrow> bytes \<Rightarrow> bool" where
  "accepts request allowFile p \<longleftrightarrow> p \<noteq> [] \<and> request \<noteq> [] \<and> p ! 0 \<noteq> 0x05 \<and>
     (if request ! 0 = 0x01 then
        2 \<le> length request \<and> 8 \<le> length p \<and> p ! 0 = 0x02 \<and> p ! 1 = request ! 1
      else if request ! 0 = 0x03 then 39 \<le> length p \<and> p ! 0 = 0x04
      else if request ! 0 = 0x06 then logout_ok p
      else if request ! 0 = 0xff then keepalive_ok p
      else request ! 0 = 0x07 \<and> 8 \<le> length request \<and> heartbeat_ok p \<and> p ! 1 = request ! 1
        \<and> (if request ! 5 = 0x03 then p ! 5 = 0x04
           else p ! 5 = 0x02 \<or> allowFile \<and> p ! 5 = 0x06))"

lemma validHeartbeat_eq [buf_simps]: "validHeartbeat p = Some (heartbeat_ok p)"
proof (cases "length p < 40")
  case False
  then have "p \<noteq> []" by auto
  with False show ?thesis by (auto simp: validHeartbeat_def heartbeat_ok_def buf_simps)
qed (simp add: validHeartbeat_def heartbeat_ok_def buf_simps)

lemma ParseLogoutResponse_eq [buf_simps]:
  "ParseLogoutResponse p =
     Some (if logout_ok p then Inr () else Inl (Errorf ''invalid logout response''))"
proof (cases "length p < 25")
  case False
  then have "p \<noteq> []" by auto
  with False show ?thesis by (auto simp: ParseLogoutResponse_def logout_ok_def buf_simps)
qed (simp add: ParseLogoutResponse_def logout_ok_def buf_simps)

lemma ParseKeepAliveAuthResponse_eq [buf_simps]:
  "ParseKeepAliveAuthResponse p =
     Some (if keepalive_ok p then Inr () else Inl (Errorf ''invalid keepalive auth response''))"
proof (cases "length p < 72")
  case False
  then have "p \<noteq> []" by auto
  with False show ?thesis by (auto simp: ParseKeepAliveAuthResponse_def keepalive_ok_def buf_simps)
qed (simp add: ParseKeepAliveAuthResponse_def keepalive_ok_def buf_simps)

lemma parseChallengeResponse_eq [buf_simps]:
  "parseChallengeResponse p sub = Some
     (if length p < 8 then Inl (Errorf ''challenge response too short'')
      else if p ! 0 \<noteq> 0x02 \<or> p ! 1 \<noteq> sub then Inl (Errorf ''unexpected challenge response type'')
      else Inr (arr_of (take 4 (drop 4 p))))"
proof (cases "length p < 8")
  case False
  then have "p \<noteq> []" by auto
  with False show ?thesis by (auto simp: parseChallengeResponse_def buf_simps)
qed (simp add: parseChallengeResponse_def buf_simps)

lemma ParseLoginResponse_eq [buf_simps]:
  "ParseLoginResponse p s = Some
     (if p \<noteq> [] \<and> p ! 0 = 0x05 then Inl (Errorf ''authentication rejected by server'')
      else if length p < 39 then Inl (Errorf ''login response too short'')
      else if p ! 0 \<noteq> 0x04 then Inl (Errorf ''unexpected login response type'')
      else Inr (s\<lparr>ServerDrcomIndicator := arr_of (take 16 (drop 23 p))\<rparr>))"
  by (cases "p = []") (auto simp: ParseLoginResponse_def buf_simps)

lemma ParseHeartbeatStep1Response_eq [buf_simps]:
  "ParseHeartbeatStep1Response p s = Some
     (if heartbeat_ok p \<and> p ! 5 = 0x02 \<and> p ! 1 = ucast (HeartbeatCount s)
      then Inr (s\<lparr>HeartbeatToken := arr_of (take 4 (drop 16 p))\<rparr>)
      else Inl (Errorf ''invalid heartbeat step1 response''))"
proof (cases "heartbeat_ok p")
  case True
  then have "5 < length p" "1 < length p" "20 \<le> length p" by (auto simp: heartbeat_ok_def)
  with True show ?thesis by (auto simp: ParseHeartbeatStep1Response_def buf_simps)
qed (simp add: ParseHeartbeatStep1Response_def buf_simps)

lemma ParseHeartbeatAck_eq [buf_simps]:
  "ParseHeartbeatAck p =
     Some (if heartbeat_ok p then Inr () else Inl (Errorf ''invalid heartbeat response''))"
  by (simp add: ParseHeartbeatAck_def buf_simps)

lemma ResponseMatcher_eq:
  "ResponseMatcher request allowFile p = Some
     (if rejects request p then Inl ErrRejected else Inr (accepts request allowFile p))"
proof (cases "p = [] \<or> request = []")
  case True
  then show ?thesis
    by (auto simp: ResponseMatcher_def rejects_def accepts_def)
next
  case False
  then have ne: "p \<noteq> []" "request \<noteq> []" by auto
  have hb: "5 < length p" "Suc 0 < length p" if "heartbeat_ok p"
    using that by (auto simp: heartbeat_ok_def)
  show ?thesis
    using ne hb
    by (auto simp: ResponseMatcher_def rejects_def accepts_def is_nil_def buf_simps)
qed

section \<open>What a matched reply guarantees to the parser\<close>

lemma accepts_challenge:
  assumes "accepts r a p" and "r ! 0 = 0x01"
  shows "parseChallengeResponse p (r ! 1) = Some (Inr (arr_of (take 4 (drop 4 p))))"
  using assms by (auto simp: accepts_def buf_simps)

lemma accepts_login:
  assumes "accepts r a p" and "r ! 0 = 0x03"
  shows "ParseLoginResponse p s =
           Some (Inr (s\<lparr>ServerDrcomIndicator := arr_of (take 16 (drop 23 p))\<rparr>))"
  using assms by (auto simp: accepts_def buf_simps)

lemma accepts_step1:
  assumes "accepts r False p" and "r ! 0 = 0x07" and "r ! 5 \<noteq> 0x03" and "r ! 1 = ucast (HeartbeatCount s)"
  shows "ParseHeartbeatStep1Response p s =
           Some (Inr (s\<lparr>HeartbeatToken := arr_of (take 4 (drop 16 p))\<rparr>))"
  using assms by (auto simp: accepts_def buf_simps)

text \<open>The kind of exchange a request opens; heartbeats carry their sequence number.\<close>

datatype reply_kind =
  RChallenge byte | RLogin | RLogout | RKeepAlive | RBeat byte | RStep2 byte | RNone

definition reply_kind :: "bytes \<Rightarrow> reply_kind" where
  "reply_kind r =
     (if r = [] then RNone
      else if r ! 0 = 0x01 then RChallenge (r ! 1)
      else if r ! 0 = 0x03 then RLogin
      else if r ! 0 = 0x06 then RLogout
      else if r ! 0 = 0xff then RKeepAlive
      else if r ! 0 = 0x07 then (if r ! 5 = 0x03 then RStep2 (r ! 1) else RBeat (r ! 1))
      else RNone)"

text \<open>The same classification, read off the reply.\<close>

definition answer_kind :: "bytes \<Rightarrow> reply_kind" where
  "answer_kind p =
     (if p ! 0 = 0x02 then RChallenge (p ! 1)
      else if p ! 0 = 0x04 then (if length p < 39 then RLogout else RLogin)
      else if p ! 4 = 0x06 then RKeepAlive
      else if p ! 5 = 0x04 then RStep2 (p ! 1)
      else RBeat (p ! 1))"

lemma accepts_kind: "accepts r f p \<Longrightarrow> reply_kind r = answer_kind p"
  unfolding accepts_def
  by (elim conjE)
    (simp add: reply_kind_def answer_kind_def heartbeat_ok_def keepalive_ok_def logout_ok_def
      split: if_splits; auto)

section \<open>Properties\<close>

text \<open>
  Property C26. No datagram can crash the client, and each is judged by the documented conditions. For every request and
  every reply, however short or malformed, the matcher and all parsers return without an out-of-range access. The
  matcher reports a rejection exactly when the reply starts with \<open>05\<close>, and accepts exactly when type, length, phase and
  sequence number fit the request. Each parser succeeds exactly on the replies of its type: a challenge of at
  least 8 bytes with the right subtype, a login success of at least 39 bytes starting with \<open>04\<close>, a logout reply of 25 to 38
  bytes starting with \<open>04\<close>, a keepalive reply of at least 72 bytes with its four fixed bytes, a heartbeat whose declared length is
  its size with phase \<open>02\<close> and the current sequence number (step 1) or any of the three phases (acknowledgement). It then takes
  the four or sixteen bytes at the documented offset and nothing else changes; otherwise the error says what is wrong.
\<close>

theorem network_input_never_panics:
  "ResponseMatcher request allowFile p =
     Some (if p \<noteq> [] \<and> request \<noteq> [] \<and> p ! 0 = 0x05 then Inl ErrRejected else Inr (accepts request allowFile p))
   \<and> parseChallengeResponse p sub = Some
       (if length p < 8 then Inl (Errorf ''challenge response too short'')
        else if take 2 p = [0x02, sub] then Inr (arr_of (take 4 (drop 4 p)))
        else Inl (Errorf ''unexpected challenge response type''))
   \<and> ParseLoginResponse p s = Some
       (if take 1 p = [0x05] then Inl (Errorf ''authentication rejected by server'')
        else if length p < 39 then Inl (Errorf ''login response too short'')
        else if take 1 p = [0x04] then Inr (s\<lparr>ServerDrcomIndicator := arr_of (take 16 (drop 23 p))\<rparr>)
        else Inl (Errorf ''unexpected login response type''))
   \<and> ParseLogoutResponse p = Some
       (if length p \<in> {25..38} \<and> take 1 p = [0x04] then Inr () else Inl (Errorf ''invalid logout response''))
   \<and> ParseKeepAliveAuthResponse p = Some
       (if 72 \<le> length p \<and> take 1 p = [0x07] \<and> take 3 (drop 2 p) = [16, 0, 0x06] then Inr ()
        else Inl (Errorf ''invalid keepalive auth response''))
   \<and> ParseHeartbeatStep1Response p s = Some
       (if heartbeat_ok p \<and> p ! 5 = 0x02 \<and> p ! 1 = ucast (HeartbeatCount s)
        then Inr (s\<lparr>HeartbeatToken := arr_of (take 4 (drop 16 p))\<rparr>)
        else Inl (Errorf ''invalid heartbeat step1 response''))
   \<and> ParseHeartbeatAck p = Some
       (if 40 \<le> length p \<and> take 1 p = [0x07] \<and> unat (le16 (take 2 (drop 2 p))) = length p
           \<and> (\<exists>phase. take 2 (drop 4 p) = [0x0b, phase] \<and> phase \<in> {0x02, 0x04, 0x06})
        then Inr () else Inl (Errorf ''invalid heartbeat response''))"
proof -
  have t1: "take 1 p = [a] \<longleftrightarrow> p \<noteq> [] \<and> p ! 0 = a" for a
    by (cases p) auto
  have t2: "take 2 p = [a, b] \<longleftrightarrow> p ! 0 = a \<and> p ! 1 = b" if "8 \<le> length p" for a b
    using that by (auto simp: list_eq_iff_nth_eq less_Suc_eq numeral_2_eq_2)
  have t3: "take 3 (drop 2 p) = [a, b, c] \<longleftrightarrow> p ! 2 = a \<and> p ! 3 = b \<and> p ! 4 = c" if "72 \<le> length p" for a b c
    using that by (auto simp: list_eq_iff_nth_eq less_Suc_eq eval_nat_numeral)
  have t4: "take 2 (drop 4 p) = [a, b] \<longleftrightarrow> p ! 4 = a \<and> p ! 5 = b" if "40 \<le> length p" for a b
    using that by (auto simp: list_eq_iff_nth_eq less_Suc_eq eval_nat_numeral)
  have logout: "logout_ok p \<longleftrightarrow> length p \<in> {25..38} \<and> take 1 p = [0x04]"
    unfolding t1 by (auto simp: logout_ok_def)
  have keepalive: "keepalive_ok p \<longleftrightarrow> 72 \<le> length p \<and> take 1 p = [0x07] \<and> take 3 (drop 2 p) = [16, 0, 0x06]"
    unfolding t1 by (auto simp: keepalive_ok_def t3)
  have ack: "heartbeat_ok p \<longleftrightarrow> 40 \<le> length p \<and> take 1 p = [0x07] \<and> unat (le16 (take 2 (drop 2 p))) = length p
     \<and> (\<exists>phase. take 2 (drop 4 p) = [0x0b, phase] \<and> phase \<in> {0x02, 0x04, 0x06})"
    unfolding t1 by (auto simp: heartbeat_ok_def t4)
  have challenge: "parseChallengeResponse p sub = Some
       (if length p < 8 then Inl (Errorf ''challenge response too short'')
        else if take 2 p = [0x02, sub] then Inr (arr_of (take 4 (drop 4 p)))
        else Inl (Errorf ''unexpected challenge response type''))"
    unfolding parseChallengeResponse_eq by (cases "length p < 8") (auto simp: t2)
  have login: "ParseLoginResponse p s = Some
       (if take 1 p = [0x05] then Inl (Errorf ''authentication rejected by server'')
        else if length p < 39 then Inl (Errorf ''login response too short'')
        else if take 1 p = [0x04] then Inr (s\<lparr>ServerDrcomIndicator := arr_of (take 16 (drop 23 p))\<rparr>)
        else Inl (Errorf ''unexpected login response type''))"
    unfolding t1 by (auto simp: ParseLoginResponse_eq)
  show ?thesis
    unfolding ResponseMatcher_eq challenge login ParseLogoutResponse_eq ParseKeepAliveAuthResponse_eq
      ParseHeartbeatStep1Response_eq ParseHeartbeatAck_eq logout keepalive ack [symmetric] rejects_def
    by (intro conjI refl)
qed

text \<open>
  Property C27. A late or duplicated reply cannot be taken for the reply to another phase: a
  datagram that the matcher accepts for two requests answers the same kind of exchange, with the
  same challenge subtype or heartbeat sequence number.
\<close>

theorem reply_answers_one_kind:
  assumes "ResponseMatcher r1 f1 p = Some (Inr True)"
    and "ResponseMatcher r2 f2 p = Some (Inr True)"
  shows "reply_kind r1 = reply_kind r2"
  using assms accepts_kind [of r1 f1 p] accepts_kind [of r2 f2 p]
  by (auto simp: ResponseMatcher_eq split: if_splits)

theorem reply_answers_one_kind_witness:
  "reply_kind [0x01, 0x02] = reply_kind [0x01, 0x02, 0xaa]"
  by (rule reply_answers_one_kind [of _ False "[0x02, 0x02, 0, 0, 1, 2, 3, 4]" _ True])
    (simp_all add: ResponseMatcher_eq accepts_def rejects_def)

text \<open>
  A truncated heartbeat reply is never accepted: the declared length must be the
  datagram's length, so every proper prefix of an accepted reply is refused.
\<close>

lemma truncated_heartbeat_refused:
  assumes "ResponseMatcher r f p = Some (Inr True)" and "r ! 0 = 0x07" and "n < length p"
  shows "ResponseMatcher r f (take n p) = Some (Inr False)"
proof -
  have ok: "heartbeat_ok p" and p0: "p ! 0 = 0x07"
    using assms(1,2) by (auto simp: ResponseMatcher_eq accepts_def heartbeat_ok_def split: if_splits)
  have "\<not> heartbeat_ok (take n p)"
    using ok assms(3) by (auto simp: heartbeat_ok_def drop_take min_def)
  moreover have "\<not> rejects r (take n p)"
    using p0 by (cases n) (auto simp: rejects_def)
  ultimately show ?thesis
    using assms(2) by (simp add: ResponseMatcher_eq accepts_def)
qed

lemma truncated_heartbeat_refused_witness:
  "ResponseMatcher [7, 9, 40, 0, 0x0b, 1, 0xdc, 2] False (take 20 ([7, 9, 40, 0, 0x0b, 2] @ zeros 34))
     = Some (Inr False)"
  by (rule truncated_heartbeat_refused)
    (simp_all add: ResponseMatcher_eq accepts_def rejects_def heartbeat_ok_def le16_def)

end
