(* ===== verification/NetAddr.thy ===== *)
theory NetAddr
  imports Prelude
begin

text \<open>
  The part of Go's \<open>net\<close> package that the program uses on addresses: the two representations of
  an IPv4 address (4 bytes, or 16 bytes in IPv4-mapped form) and the classification predicates.
\<close>

unbundle bit_operations_syntax

section \<open>IP addresses\<close>

definition v4InV6Prefix :: bytes where
  "v4InV6Prefix = [0, 0, 0, 0, 0, 0, 0, 0, 0, 0, 0xff, 0xff]"

text \<open>\<open>net.IP.Equal\<close>: an IPv4 address and its IPv4-mapped IPv6 form are equal.\<close>

definition ip_Equal :: "bytes \<Rightarrow> bytes \<Rightarrow> bool" where
  "ip_Equal ip x =
     (if length ip = length x then ip = x
      else if length ip = 4 \<and> length x = 16 then take 12 x = v4InV6Prefix \<and> ip = drop 12 x
      else if length ip = 16 \<and> length x = 4 then take 12 ip = v4InV6Prefix \<and> drop 12 ip = x
      else False)"

text \<open>\<open>IP.To4\<close>; \<open>None\<close> is nil.\<close>

definition To4 :: "bytes \<Rightarrow> bytes option" where
  "To4 ip =
     (if length ip = 4 then Some ip
      else if length ip = 16 \<and> take 12 ip = v4InV6Prefix then Some (drop 12 ip)
      else None)"

definition IsUnspecified :: "bytes \<Rightarrow> bool" where
  "IsUnspecified ip \<longleftrightarrow> ip_Equal ip (v4InV6Prefix @ zeros 4) \<or> ip_Equal ip (zeros 16)"

definition IsLoopback :: "bytes \<Rightarrow> bool" where
  "IsLoopback ip =
     (case To4 ip of Some ip4 \<Rightarrow> ip4 ! 0 = 127 | None \<Rightarrow> ip_Equal ip (zeros 15 @ [1]))"

definition IsMulticast :: "bytes \<Rightarrow> bool" where
  "IsMulticast ip =
     (case To4 ip of
        Some ip4 \<Rightarrow> ip4 ! 0 AND 0xf0 = 0xe0
      | None \<Rightarrow> length ip = 16 \<and> ip ! 0 = 0xff)"

text \<open>\<open>ipv4ToNetIP\<close> of the configuration package: \<open>net.IPv4(a, b, c, d).To4()\<close>, nil as [].\<close>

definition ipv4ToNetIP :: "4 arr \<Rightarrow> bytes" where
  "ipv4ToNetIP v = (case To4 (v4InV6Prefix @ arr_bytes v) of None \<Rightarrow> [] | Some ip \<Rightarrow> ip)"

section \<open>Interfaces of the system\<close>

text \<open>\<open>net.Addr\<close> by dynamic type, and \<open>net.Interface\<close> with the outcome of its \<open>Addrs()\<close>.\<close>

datatype net_addr = IPNet bytes | IPAddr bytes | OtherAddr

record net_iface =
  ifIndex :: int
  ifName :: string
  ifFlags :: "64 word"
  ifHardwareAddr :: bytes
  ifAddrs :: "err + net_addr list"

definition FlagUp :: "64 word" where "FlagUp = 1"
definition FlagLoopback :: "64 word" where "FlagLoopback = 4"

section \<open>Facts\<close>

lemma To4_length: "To4 ip = Some x \<Longrightarrow> length x = 4"
  by (auto simp: To4_def split: if_splits)

lemma To4_arr [simp]: "To4 (arr_bytes (a :: 4 arr)) = Some (arr_bytes a)"
  by (simp add: To4_def)

text \<open>Addresses that \<open>Equal\<close> identifies have the same 4-byte form, and conversely.\<close>

lemma ip_Equal_To4:
  assumes "To4 x = Some a"
  shows "ip_Equal x y \<longleftrightarrow> To4 y = Some a"
proof -
  have app: "take 12 z = v4InV6Prefix \<Longrightarrow> z = v4InV6Prefix @ drop 12 z" for z
    by (metis append_take_drop_id)
  show ?thesis
    using assms app [of x] app [of y]
    by (auto simp: ip_Equal_def To4_def v4InV6Prefix_def split: if_splits)
qed

lemma ip_Equal_refl [simp]: "ip_Equal x x"
  by (simp add: ip_Equal_def)

lemma ipv4ToNetIP_eq [simp]: "ipv4ToNetIP v = arr_bytes v"
  by (simp add: ipv4ToNetIP_def To4_def v4InV6Prefix_def)

end
