(* ===== verification/Transport.thy ===== *)
theory Transport
  imports World Response NetAddr
begin

text \<open>
  \<open>internal/transport\<close>: the retry loop (\<open>retry.go\<close>) and the UDP exchange (\<open>udp.go\<close>) with its
  deadline, cancellation and filtering of foreign and unmatched datagrams. The interface that the
  runner relies on (Go's \<open>runner.Exchanger\<close>) is the locale \<open>exchanger\<close>; \<open>Exchange\<close> is shown to
  provide it.
\<close>

section \<open>Addresses\<close>

definition sameUDPAddr :: "udp_addr option \<Rightarrow> udp_addr option \<Rightarrow> bool" where
  "sameUDPAddr a b =
     (case (a, b) of
        (Some a, Some b) \<Rightarrow> addr_port a = addr_port b \<and> ip_Equal (addr_ip a) (addr_ip b)
      | _ \<Rightarrow> False)"

section \<open>retry.go\<close>

definition IsTimeout :: "err \<Rightarrow> bool" where
  "IsTimeout e = errors_Is e ErrTimeout"

fun retry_loop ::
    "ctx_t \<Rightarrow> (world \<Rightarrow> (exc + unit) \<times> world) \<Rightarrow> nat \<Rightarrow> err option \<Rightarrow> world \<Rightarrow> (exc + unit) \<times> world"
where
  "retry_loop ctx fn 0 lastErr w =
     (case lastErr of
        None \<Rightarrow> (Inr (), w)
      | Some e \<Rightarrow> (Inl (Fail (Wrapf ''exchange failed after attempts'' e)), w))"
| "retry_loop ctx fn (Suc left) lastErr w =
     (case ctx_Err ctx w of
        (Some e, w1) \<Rightarrow> (Inl (Fail e), w1)
      | (None, w1) \<Rightarrow>
          (case fn w1 of
             (Inl (Panic m), w2) \<Rightarrow> (Inl (Panic m), w2)
           | (Inl (Fail e), w2) \<Rightarrow>
               if \<not> IsTimeout e then (Inl (Fail e), w2) else retry_loop ctx fn left (Some e) w2
           | (Inr u, w2) \<Rightarrow> (Inr (), w2)))"

definition RetryExchange ::
    "ctx_t \<Rightarrow> int \<Rightarrow> (world \<Rightarrow> (exc + unit) \<times> world) \<Rightarrow> world \<Rightarrow> (exc + unit) \<times> world" where
  "RetryExchange ctx count fn w =
     (let count = (if count < 1 then 1 else count) in retry_loop ctx fn (nat count) None w)"

section \<open>udp.go\<close>

definition defaultReceiveBufferSize :: nat where "defaultReceiveBufferSize = 4096"

record transport =
  server :: udp_addr
  timeout :: int

type_synonym matcher = "bytes \<Rightarrow> (err + bool) option"
type_synonym exchange_fn = "ctx_t \<Rightarrow> bytes \<Rightarrow> matcher option \<Rightarrow> world \<Rightarrow> (exc + bytes) \<times> world"

text \<open>
  \<open>context.AfterFunc\<close>: once the context is done, a goroutine sets the socket deadline to the
  current time, which interrupts a pending read or write. \<open>arm\<close> is the moment this happens.
\<close>

definition arm :: "ctx_t \<Rightarrow> world \<Rightarrow> int option \<times> world" where
  "arm ctx w =
     (case lags w of
        [] \<Rightarrow> (map_option (\<lambda>d. max d (now w)) (ctx_done ctx), w)
      | l # ls \<Rightarrow> (map_option (\<lambda>d. max d (now w) + int l) (ctx_done ctx), w\<lparr>lags := ls\<rparr>))"

text \<open>
  The deferred clean-up: if the goroutine has been started, wait for it; then clear the deadline.
\<close>

definition disarm :: "ctx_t \<Rightarrow> int option \<Rightarrow> world \<Rightarrow> world" where
  "disarm ctx wake w =
     (let w = (case (ctx_done ctx, wake) of
                 (Some d, Some k) \<Rightarrow> if d \<le> now w then w\<lparr>now := max (now w) k\<rparr> else w
               | _ \<Rightarrow> w)
      in w\<lparr>sock_deadline := None\<rparr>)"

text \<open>Arrivals are queued by time, after those of the same time.\<close>

definition enqueue :: "(int \<times> arrival) \<Rightarrow> (int \<times> arrival) list \<Rightarrow> (int \<times> arrival) list" where
  "enqueue a q = takeWhile (\<lambda>x. fst x \<le> fst a) q @ a # dropWhile (\<lambda>x. fst x \<le> fst a) q"

text \<open>\<open>WriteToUDP\<close> under a deadline.\<close>

definition write_udp :: "udp_addr \<Rightarrow> bytes \<Rightarrow> int \<Rightarrow> world \<Rightarrow> (err + unit) \<times> world" where
  "write_udp addr packet dl w =
     (if dl \<le> now w then (Inl OsTimeout, w)
      else case net w (map snd (sent w)) packet of
        Inl m \<Rightarrow> (Inl (OsError m), w)
      | Inr as \<Rightarrow>
          (Inr (), w\<lparr>sent := sent w @ [(addr, packet)],
                    inbox := fold (\<lambda>(d, x). enqueue (now w + int d, x)) as (inbox w)\<rparr>))"

text \<open>What \<open>Exchange\<close> returns when a read fails with the error \<open>e\<close>.\<close>

definition read_failed :: "ctx_t \<Rightarrow> err \<Rightarrow> world \<Rightarrow> (exc + bytes) \<times> world" where
  "read_failed ctx e w =
     (case ctx_Err ctx w of
        (Some ce, w) \<Rightarrow> (Inl (Fail ce), w)
      | (None, w) \<Rightarrow>
          let w' = (case ctx_deadline ctx of None \<Rightarrow> w | Some _ \<Rightarrow> pause w) in
          if (case ctx_deadline ctx of None \<Rightarrow> False | Some d \<Rightarrow> \<not> now w' < d)
          then (Inl (Fail DeadlineExceeded), w')
          else if e = OsTimeout then (Inl (Fail ErrTimeout), w')
          else (Inl (Fail e), w'))"

text \<open>
  The receive loop, on the queue of arrivals still to come. A read under the deadline \<open>dl\<close> yields
  the next arrival if it comes before \<open>dl\<close>, else it times out at \<open>dl\<close>. The socket of Windows reports
  an error for a datagram that is larger than the buffer, and gives no part of it.
\<close>

definition msgSize :: string where
  "msgSize = ''A message sent on a datagram socket was larger than the internal message buffer''"

fun recv_loop ::
    "transport \<Rightarrow> ctx_t \<Rightarrow> matcher option \<Rightarrow> int \<Rightarrow> (int \<times> arrival) list \<Rightarrow> world \<Rightarrow> (exc + bytes) \<times> world"
where
  "recv_loop t ctx match dl [] w =
     read_failed ctx OsTimeout (w\<lparr>now := max (now w) dl, inbox := []\<rparr>)"
| "recv_loop t ctx match dl ((ta, x) # q) w =
     (if dl \<le> max (now w) ta
      then read_failed ctx OsTimeout (w\<lparr>now := max (now w) dl, inbox := (ta, x) # q\<rparr>)
      else
        let w = w\<lparr>now := max (now w) ta, inbox := q\<rparr> in
        case x of
          SockErr m \<Rightarrow> read_failed ctx (OsError m) w
        | Datagram addr buf \<Rightarrow>
            if defaultReceiveBufferSize < length buf then read_failed ctx (OsError msgSize) w
            else
            let w = w\<lparr>rcvd := rcvd w @ [(addr, buf)]\<rparr> in
            if \<not> sameUDPAddr (Some addr) (Some (server t)) then recv_loop t ctx match dl q w
            else (case match of
                    None \<Rightarrow> (Inr buf, w)
                  | Some m \<Rightarrow>
                      (case m buf of
                         None \<Rightarrow> (Inl (Panic ''index out of range''), w)
                       | Some (Inl e) \<Rightarrow> (Inl (Fail e), w)
                       | Some (Inr ok) \<Rightarrow>
                           if \<not> ok then recv_loop t ctx match dl q w else (Inr buf, w))))"

definition Exchange :: "transport \<Rightarrow> exchange_fn" where
  "Exchange t ctx packet match w =
     (case ctx_Err ctx w of
        (Some e, w) \<Rightarrow> (Inl (Fail e), w)
      | (None, w) \<Rightarrow>
          let w = pause w;
              deadline = now w + timeout t;
              deadline = (case ctx_deadline ctx of
                            None \<Rightarrow> deadline | Some d \<Rightarrow> if d < deadline then d else deadline)
          in if \<not> sock_open w
             then (Inl (Fail (OsError ''use of closed network connection'')), w)
             else (case arm ctx (w\<lparr>sock_deadline := Some deadline\<rparr>) of (wake, w) \<Rightarrow>
               let dl = (case wake of None \<Rightarrow> deadline | Some k \<Rightarrow> min deadline k) in
               case write_udp (server t) packet dl w of
                 (Inl e, w) \<Rightarrow>
                   (case ctx_Err ctx w of
                      (Some ce, w) \<Rightarrow> (Inl (Fail ce), disarm ctx wake w)
                    | (None, w) \<Rightarrow> (Inl (Fail e), disarm ctx wake w))
               | (Inr _, w) \<Rightarrow>
                   (case recv_loop t ctx match dl (inbox w) w of
                      (r, w) \<Rightarrow> (r, disarm ctx wake w))))"

text \<open>
  \<open>pinInterface\<close> (\<open>interface_windows.go\<close>): what the system answers is a parameter. The option
  value is the interface index in network byte order, read back as a native (little-endian) word.
\<close>

record os_net =
  os_interfaces :: "err + net_iface list"
  os_listen :: "udp_addr \<Rightarrow> err option"
  os_SyscallConn :: "err option"
  os_Control :: "err option"
  os_setsockopt :: "int \<Rightarrow> err option"

definition put_be32 :: "32 word \<Rightarrow> bytes" where
  "put_be32 v = [ucast (drop_bit 24 v), ucast (drop_bit 16 v), ucast (drop_bit 8 v), ucast v]"

definition pin_socket :: "os_net \<Rightarrow> int \<Rightarrow> world \<Rightarrow> (err + unit) \<times> world" where
  "pin_socket os index w =
     (case os_SyscallConn os of
        Some e \<Rightarrow> (Inl e, w)
      | None \<Rightarrow>
          let value = uint (le32 (put_be32 (word_of_int index))) in
          case os_Control os of
            Some e \<Rightarrow> (Inl e, w)
          | None \<Rightarrow>
              (case os_setsockopt os value of
                 Some e \<Rightarrow> (Inl e, w)
               | None \<Rightarrow> (Inr (), w\<lparr>sock_if := Some value\<rparr>)))"

text \<open>The two loops: the first address of an interface that is an \<open>*net.IPNet\<close> equal to \<open>ip\<close>.\<close>

fun owns :: "bytes \<Rightarrow> net_addr list \<Rightarrow> bool" where
  "owns ip [] = False"
| "owns ip (IPNet a # as) = (if \<not> ip_Equal a ip then owns ip as else True)"
| "owns ip (_ # as) = owns ip as"

fun pin_loop :: "os_net \<Rightarrow> bytes \<Rightarrow> net_iface list \<Rightarrow> world \<Rightarrow> (err + unit) \<times> world" where
  "pin_loop os ip [] w = (Inl (Errorf ''no interface owns''), w)"
| "pin_loop os ip (iface # ifaces) w =
     (case ifAddrs iface of
        Inl _ \<Rightarrow> pin_loop os ip ifaces w
      | Inr addrs \<Rightarrow> if owns ip addrs then pin_socket os (ifIndex iface) w else pin_loop os ip ifaces w)"

definition pinInterface :: "os_net \<Rightarrow> bytes \<Rightarrow> world \<Rightarrow> (err + unit) \<times> world" where
  "pinInterface os ip w =
     (if IsUnspecified ip \<or> IsLoopback ip \<or> To4 ip = None then (Inr (), w)
      else case os_interfaces os of
        Inl e \<Rightarrow> (Inl e, w)
      | Inr ifaces \<Rightarrow> pin_loop os ip ifaces w)"

definition NewTransport ::
    "os_net \<Rightarrow> udp_addr option \<Rightarrow> udp_addr option \<Rightarrow> int \<Rightarrow> world \<Rightarrow> (err + transport) \<times> world" where
  "NewTransport os bindAddr serverAddr tmo w =
     (case bindAddr of
        None \<Rightarrow> (Inl (Errorf ''bind address is nil''), w)
      | Some addr \<Rightarrow>
          (case serverAddr of
             None \<Rightarrow> (Inl (Errorf ''server address is nil''), w)
           | Some srv \<Rightarrow>
               if tmo \<le> 0 then (Inl (Errorf ''timeout must be positive''), w)
               else case os_listen os addr of
                 Some e \<Rightarrow> (Inl e, w)
               | None \<Rightarrow>
                   let w = w\<lparr>sock_open := True, sock_if := None, sock_deadline := None, inbox := []\<rparr> in
                   (case pinInterface os (addr_ip addr) w of
                      (Inl e, w) \<Rightarrow>
                        (Inl (Wrapf ''select authentication interface'' e), w\<lparr>sock_open := False\<rparr>)
                    | (Inr _, w) \<Rightarrow> (Inr \<lparr>server = srv, timeout = tmo\<rparr>, w))))"

text \<open>\<open>Close\<close>.\<close>

definition Close :: "world \<Rightarrow> world" where
  "Close w = w\<lparr>sock_open := False\<rparr>"

section \<open>The exchanger interface\<close>

text \<open>
  What the runner may assume of an \<open>Exchanger\<close>: it leaves the runner's variables alone, takes at
  most the time \<open>T\<close> (plus what the scheduler takes), returns promptly when the context is done, sends the packet to the server (\<open>S\<close>) at most
  once and not at all under a context that is already done, returns only a reply that came from
  the server and that the matcher accepts, does not panic when the matcher does not, reports a
  rejection only if the matcher found one in a datagram of the server, and reports the error that the
  matcher finds in the last datagram of the server.
\<close>

locale exchanger =
  fixes X :: exchange_fn and T :: int and S :: "udp_addr \<Rightarrow> bool"
  assumes T_nonneg: "0 \<le> T"
    and frame: "X c p m w = (r, w') \<Longrightarrow> same_local w w'"
    and forward: "X c p m w = (r, w') \<Longrightarrow> now w \<le> now w'"
    and bounded: "X c p m w = (r, w') \<Longrightarrow> now w' + busy w' \<le> now w + busy w + T"
    and prompt: "X c p m w = (r, w') \<Longrightarrow> ctx_done c = Some d \<Longrightarrow> due d w' \<le> due d w"
    and lags_used: "X c p m w = (r, w') \<Longrightarrow> busy w' \<le> busy w"
    and one_send: "X c p m w = (r, w') \<Longrightarrow> sent w' = sent w \<or> (\<exists>a. S a \<and> sent w' = sent w @ [(a, p)])"
    and receives: "X c p m w = (r, w') \<Longrightarrow> \<exists>new. rcvd w' = rcvd w @ new"
    and done_ctx: "X c p m w = (r, w') \<Longrightarrow> ctx_err_at c (now w) = Some e \<Longrightarrow>
          r = Inl (Fail e) \<and> sent w' = sent w"
    and matched: "X c p (Some f) w = (Inr q, w') \<Longrightarrow>
          f q = Some (Inr True) \<and> (\<exists>a new. S a \<and> rcvd w' = rcvd w @ new @ [(a, q)])"
    and total: "X c p (Some f) w = (Inl (Panic s), w') \<Longrightarrow> \<exists>q. f q = None"
    and rejected: "X c p (Some f) w = (Inl (Fail e), w') \<Longrightarrow> 
          errors_Is e ErrRejected \<or> errors_Is e ErrAuthenticationRejected \<Longrightarrow>
          \<exists>a q new. S a \<and> f q = Some (Inl e) \<and> rcvd w' = rcvd w @ new @ [(a, q)]"
    and decided: "X c p (Some f) w = (r, w') \<Longrightarrow> rcvd w' = rcvd w @ new @ [(a, q)] \<Longrightarrow> S a \<Longrightarrow>
          f q = Some (Inl e) \<Longrightarrow> r = Inl (Fail e)"

section \<open>Exchange provides it\<close>

lemma arm_frame:
  assumes "arm ctx w = (wake, w')"
  shows "same_local w w' \<and> now w' = now w \<and> sent w' = sent w \<and> inbox w' = inbox w
    \<and> sock_open w' = sock_open w \<and> rcvd w' = rcvd w
    \<and> (\<forall>k. wake = Some k \<longrightarrow> k \<le> max (now w) (the (ctx_done ctx)) + (busy w - busy w'))
    \<and> busy w' \<le> busy w \<and> (wake = None \<longleftrightarrow> ctx_done ctx = None)"
  using assms by (auto simp: arm_def busy_def same_local_def split: list.splits)

lemma disarm_frame:
  "same_local w (disarm ctx wake w) \<and> sent (disarm ctx wake w) = sent w \<and> now w \<le> now (disarm ctx wake w)
   \<and> busy (disarm ctx wake w) = busy w \<and> sock_deadline (disarm ctx wake w) = None
   \<and> inbox (disarm ctx wake w) = inbox w \<and> sock_open (disarm ctx wake w) = sock_open w
   \<and> rcvd (disarm ctx wake w) = rcvd w"
  by (auto simp: disarm_def same_local_def busy_def Let_def split: option.splits)

lemma disarm_now:
  assumes "\<forall>k. wake = Some k \<longrightarrow> k \<le> max n (the (ctx_done ctx)) + l" and "n \<le> now w" and "0 \<le> l"
  shows "now (disarm ctx wake w) \<le> now w + l"
  using assms by (fastforce simp: disarm_def Let_def split: option.splits)

lemma read_failed_props:
  assumes "read_failed ctx e w = (r, w')"
  shows "same_local w w' \<and> sent w' = sent w \<and> inbox w' = inbox w \<and> rcvd w' = rcvd w \<and> now w \<le> now w'
    \<and> now w' + busy w' = now w + busy w \<and> busy w' \<le> busy w
    \<and> (\<exists>e'. r = Inl (Fail e') \<and> (e' = e \<or> e' \<in> {ErrTimeout, DeadlineExceeded, ctx_cause ctx}))"
proof -
  have "now w \<le> now (pause w)" "now (pause w) \<le> now (pause (pause w))"
    "busy (pause w) \<le> busy w" "busy (pause (pause w)) \<le> busy (pause w)"
    by (rule now_pause busy_pause)+
  then show ?thesis
    using assms
    by (auto simp: read_failed_def ctx_Err_eq Let_def same_local_def
        split: option.splits if_splits dest: ctx_err_at_cause)
qed

lemma write_udp_props:
  assumes "write_udp a p dl w = (r, w')"
  shows "same_local w w' \<and> now w' = now w \<and> busy w' = busy w \<and> lags w' = lags w \<and> rcvd w' = rcvd w
    \<and> (sent w' = sent w \<and> r \<noteq> Inr () \<or> sent w' = sent w @ [(a, p)])
    \<and> (\<forall>e. r = Inl e \<longrightarrow> e = OsTimeout \<or> (\<exists>s. e = OsError s))"
  using assms by (auto simp: write_udp_def same_local_def busy_def split: sum.splits if_splits)

text \<open>One turn of the receive loop, as a case distinction.\<close>

lemma recv_loop_step:
  assumes "recv_loop t ctx m dl ((ta, x) # q) w = (r, w')"
  obtains (timeout) "dl \<le> max (now w) ta"
      and "read_failed ctx OsTimeout (w\<lparr>now := max (now w) dl, inbox := (ta, x) # q\<rparr>) = (r, w')"
  | (failed) s where "max (now w) ta < dl"
      and "x = SockErr s \<or> s = msgSize \<and> (\<exists>a b. x = Datagram a b \<and> defaultReceiveBufferSize < length b)"
      and "read_failed ctx (OsError s) (w\<lparr>now := max (now w) ta, inbox := q\<rparr>) = (r, w')"
  | (skip) addr payload where "max (now w) ta < dl" and "x = Datagram addr payload"
      and "length payload \<le> defaultReceiveBufferSize"
      and "\<And>f. m = Some f \<Longrightarrow> sameUDPAddr (Some addr) (Some (server t)) \<Longrightarrow> f payload = Some (Inr False)"
      and "recv_loop t ctx m dl q (w\<lparr>now := max (now w) ta, inbox := q,
             rcvd := rcvd w @ [(addr, payload)]\<rparr>) = (r, w')"
  | (reply) addr payload where "max (now w) ta < dl" and "x = Datagram addr payload"
      and "length payload \<le> defaultReceiveBufferSize"
      and "sameUDPAddr (Some addr) (Some (server t))"
      and "r = Inr payload"
      and "w' = w\<lparr>now := max (now w) ta, inbox := q,
             rcvd := rcvd w @ [(addr, payload)]\<rparr>"
      and "\<And>f. m = Some f \<Longrightarrow> f payload = Some (Inr True)"
  | (error) f b addr where "max (now w) ta < dl" and "m = Some f"
      and "sameUDPAddr (Some addr) (Some (server t))"
      and "w' = w\<lparr>now := max (now w) ta, inbox := q, rcvd := rcvd w @ [(addr, b)]\<rparr>"
      and "f b = None \<and> (\<exists>s. r = Inl (Panic s)) \<or> (\<exists>e. f b = Some (Inl e) \<and> r = Inl (Fail e))"
proof (cases "dl \<le> max (now w) ta")
  case True
  then show ?thesis
    using assms timeout by simp
next
  case False
  then have lt: "max (now w) ta < dl" unfolding not_le .
  show ?thesis
  proof (cases x)
    case (SockErr s)
    then show ?thesis
      using assms False by (intro failed [OF lt, of s]) (simp_all add: Let_def)
  next
    case (Datagram addr b)
    show ?thesis
    proof (cases "defaultReceiveBufferSize < length b")
      case True
      then show ?thesis
        using assms False Datagram by (intro failed [OF lt, of msgSize]) (simp_all add: Let_def)
    next
      case fits: False
      then have len: "length b \<le> defaultReceiveBufferSize" by simp
      let ?rest = "recv_loop t ctx m dl q (w\<lparr>now := max (now w) ta, inbox := q, rcvd := rcvd w @ [(addr, b)]\<rparr>)"
      note step = assms [unfolded Datagram recv_loop.simps, unfolded Let_def if_not_P [OF False] arrival.case if_not_P [OF fits]]
      show ?thesis
      proof (cases "sameUDPAddr (Some addr) (Some (server t))")
        case False
        then show ?thesis
          using step by (intro skip [OF lt Datagram len]) simp_all
      next
        case same: True
        show ?thesis
        proof (cases m)
          case None
          then show ?thesis
            using step same by (intro reply [OF lt Datagram len same]) simp_all
        next
          case (Some f)
          consider "f b = None" | e where "f b = Some (Inl e)" | "f b = Some (Inr True)" | "f b = Some (Inr False)"
            by (cases "f b") (auto, metis (full_types) sum.exhaust)
          then show ?thesis
          proof cases
            case 3
            then show ?thesis
              using step same Some by (intro reply [OF lt Datagram len same]) simp_all
          next
            case 4
            then show ?thesis
              using step same Some by (intro skip [OF lt Datagram len]) simp_all
          qed (use step same Some error [OF lt Some same, of b] in auto)
        qed
      qed
    qed
  qed
qed

lemma recv_loop_props:
  assumes "recv_loop t ctx m dl q w = (r, w')"
  shows "same_local w w' \<and> sent w' = sent w \<and> now w \<le> now w' \<and> (\<exists>new. rcvd w' = rcvd w @ new)
    \<and> now w' + busy w' \<le> max (now w) dl + busy w \<and> busy w' \<le> busy w"
  using assms
proof (induction q arbitrary: w)
  case Nil
  then show ?case
    using read_failed_props [of ctx OsTimeout "w\<lparr>now := max (now w) dl, inbox := []\<rparr>" r w']
    by (auto simp: same_local_def busy_def)
next
  case (Cons a q)
  obtain ta x where a: "a = (ta, x)" by (cases a)
  have upd: "same_local w (w\<lparr>now := n, inbox := i\<rparr>)" "busy (w\<lparr>now := n, inbox := i\<rparr>) = busy w"
    "same_local w (w\<lparr>now := n, inbox := i, rcvd := j\<rparr>)" "busy (w\<lparr>now := n, inbox := i, rcvd := j\<rparr>) = busy w"
    for n i j
    by (simp_all add: same_local_def busy_def)
  from Cons.prems [unfolded a] show ?case
  proof (cases rule: recv_loop_step)
    case timeout
    then show ?thesis
      using upd read_failed_props [OF timeout(2)] by (auto intro: same_local_trans)
  next
    case (failed s)
    then show ?thesis
      using upd read_failed_props [OF failed(3)] by (auto intro: same_local_trans)
  next
    case (skip addr payload)
    then show ?thesis
      using Cons.IH [OF skip(5)] by (simp add: same_local_def busy_def) auto
  next
    case (reply addr payload)
    then show ?thesis
      using upd by auto
  next
    case (error f b)
    then show ?thesis
      using upd by auto
  qed
qed

lemma recv_loop_reply:
  assumes "recv_loop t ctx m dl q w = (Inr b, w')"
  shows "\<exists>ta addr. (ta, Datagram addr b) \<in> set q \<and> ta < dl
     \<and> sameUDPAddr (Some addr) (Some (server t)) \<and> length b \<le> defaultReceiveBufferSize
     \<and> (\<forall>f. m = Some f \<longrightarrow> f b = Some (Inr True)) \<and> (\<exists>new. rcvd w' = rcvd w @ new @ [(addr, b)])"
  using assms
proof (induction q arbitrary: w)
  case Nil
  then show ?case
    by (auto dest!: read_failed_props)
next
  case (Cons a q)
  obtain ta x where a: "a = (ta, x)" by (cases a)
  from Cons.prems [unfolded a] show ?case
  proof (cases rule: recv_loop_step)
    case (skip addr payload)
    from Cons.IH [OF skip(5)] obtain tb addr' new where
      ih: "(tb, Datagram addr' b) \<in> set q" "tb < dl" "sameUDPAddr (Some addr') (Some (server t))"
      "length b \<le> defaultReceiveBufferSize" "\<forall>f. m = Some f \<longrightarrow> f b = Some (Inr True)"
      "rcvd w' = (rcvd w @ [(addr, payload)]) @ new @ [(addr', b)]"
      by auto
    have "\<exists>n. rcvd w' = rcvd w @ n @ [(addr', b)]"
      using ih(6) by (metis append.assoc)
    then show ?thesis
      by (intro exI [of _ tb] exI [of _ addr'] conjI) (use ih in simp_all)
  next
    case (reply addr payload)
    show ?thesis
      unfolding a
      by (rule exI [of _ ta], rule exI [of _ addr]) (use reply in auto)
  qed (auto dest: read_failed_props)
qed

lemma recv_loop_error:
  assumes "recv_loop t ctx m dl q w = (Inl x, w')"
  shows "(\<exists>s. x = Panic s \<and> (\<exists>f b. m = Some f \<and> f b = None))
       \<or> (\<exists>e. x = Fail e \<and> (e \<in> {ErrTimeout, DeadlineExceeded, OsTimeout, ctx_cause ctx}
              \<or> (\<exists>s. e = OsError s) \<or> (\<exists>f b addr new. m = Some f \<and> f b = Some (Inl e)
                  \<and> sameUDPAddr (Some addr) (Some (server t)) \<and> rcvd w' = rcvd w @ new @ [(addr, b)])))"
  using assms
proof (induction q arbitrary: w)
  case Nil
  then show ?case
    by (auto dest!: read_failed_props)
next
  case (Cons a q)
  obtain ta x' where a: "a = (ta, x')" by (cases a)
  from Cons.prems [unfolded a] show ?case
  proof (cases rule: recv_loop_step)
    case skip
    then show ?thesis
      using Cons.IH [OF skip(5)] by auto
  qed (auto dest: read_failed_props)
qed

text \<open>An error that the matcher finds in the last datagram of the server is the result: nothing is read after it.\<close>

lemma recv_loop_decided:
  assumes "recv_loop t ctx (Some f) dl q w = (r, w')" and "rcvd w' = rcvd w @ new @ [(a, b)]"
    and "sameUDPAddr (Some a) (Some (server t))" and "f b = Some (Inl e)"
  shows "r = Inl (Fail e)"
  using assms(1,2)
proof (induction q arbitrary: w new)
  case Nil
  then show ?case by (auto dest!: read_failed_props)
next
  case (Cons x q)
  obtain ta y where x: "x = (ta, y)" by (cases x)
  from Cons.prems(1) [unfolded x] show ?case
  proof (cases rule: recv_loop_step)
    case (skip addr payload)
    obtain n where n: "rcvd w' = (rcvd w @ [(addr, payload)]) @ n"
      using recv_loop_props [OF skip(5)] by auto
    show ?thesis
    proof (cases n rule: rev_cases)
      case Nil
      then have "addr = a" "payload = b" using n Cons.prems(2) by simp_all
      then show ?thesis using skip(4) assms(3,4) by simp
    next
      case (snoc n' z)
      then have "z = (a, b)" using n Cons.prems(2) by (metis append.assoc last_snoc)
      then show ?thesis using Cons.IH [OF skip(5), of n'] n snoc by simp
    qed
  next
    case timeout
    then show ?thesis using Cons.prems(2) by (auto dest!: read_failed_props)
  next
    case failed
    then show ?thesis using Cons.prems(2) by (auto dest!: read_failed_props)
  qed (use Cons.prems(2) assms(4) in auto)
qed

text \<open>The stages of a call: refused context, closed socket, failed write, receive loop.\<close>

lemma Exchange_cases:
  assumes "Exchange t ctx p m w = (r, w')"
  obtains (refused) e where "ctx_err_at ctx (now (pause w)) = Some e"
      and "r = Inl (Fail e)" and "w' = pause w"
  | (closed) "ctx_err_at ctx (now (pause w)) = None"
      and "r = Inl (Fail (OsError ''use of closed network connection''))" and "w' = pause (pause w)"
  | (unsent) sd wake w1 w2 e dl where "ctx_err_at ctx (now (pause w)) = None"
      and "arm ctx ((pause (pause w))\<lparr>sock_deadline := sd\<rparr>) = (wake, w1)"
      and "write_udp (server t) p dl w1 = (Inl e, w2)"
      and "r = Inl (Fail e) \<or> r = Inl (Fail (ctx_cause ctx))"
      and "w' = disarm ctx wake (pause w2)"
  | (received) sd wake w1 w2 w3 dl where "ctx_err_at ctx (now (pause w)) = None"
      and "arm ctx ((pause (pause w))\<lparr>sock_deadline := sd\<rparr>) = (wake, w1)"
      and "dl \<le> now (pause (pause w)) + timeout t"
      and "\<And>d. ctx_deadline ctx = Some d \<Longrightarrow> dl \<le> d" and "\<And>k. wake = Some k \<Longrightarrow> dl \<le> k"
      and "write_udp (server t) p dl w1 = (Inr (), w2)"
      and "recv_loop t ctx m dl (inbox w2) w2 = (r, w3)"
      and "w' = disarm ctx wake w3"
proof (cases "ctx_err_at ctx (now (pause w))")
  case (Some e)
  have "(r, w') = (Inl (Fail e), pause w)"
    using assms unfolding Exchange_def ctx_Err_eq Some by simp
  then show ?thesis
    using refused [OF Some] by simp
next
  case None
  define v where "v = pause (pause w)"
  define D where "D = (case ctx_deadline ctx of None \<Rightarrow> now v + timeout t
    | Some d \<Rightarrow> if d < now v + timeout t then d else now v + timeout t)"
  have D: "D \<le> now v + timeout t" "\<And>d. ctx_deadline ctx = Some d \<Longrightarrow> D \<le> d"
    by (auto simp: D_def split: option.splits)
  obtain wake w1 where arm: "arm ctx (v\<lparr>sock_deadline := Some D\<rparr>) = (wake, w1)"
    by (rule prod.exhaust)
  define lim where "lim = (case wake of None \<Rightarrow> D | Some k \<Rightarrow> min D k)"
  have "lim \<le> D" and wk: "\<And>k. wake = Some k \<Longrightarrow> lim \<le> k"
    by (cases wake; simp add: lim_def)+
  then have lim: "lim \<le> now v + timeout t" "\<And>d. ctx_deadline ctx = Some d \<Longrightarrow> lim \<le> d"
    using D by (blast intro: order_trans)+
  obtain x w2 where wr: "write_udp (server t) p lim w1 = (x, w2)"
    by (rule prod.exhaust)
  have run: "Exchange t ctx p m w =
     (if \<not> sock_open v then (Inl (Fail (OsError ''use of closed network connection'')), v)
      else case (x, w2) of
        (Inl e, w) \<Rightarrow> (case ctx_Err ctx w of
            (Some ce, w) \<Rightarrow> (Inl (Fail ce), disarm ctx wake w)
          | (None, w) \<Rightarrow> (Inl (Fail e), disarm ctx wake w))
      | (Inr _, w) \<Rightarrow> (case recv_loop t ctx m lim (inbox w) w of (r, w) \<Rightarrow> (r, disarm ctx wake w)))"
    unfolding Exchange_def ctx_Err_eq [of ctx w] None prod.case option.case Let_def
      v_def [symmetric] D_def [symmetric] arm lim_def [symmetric] wr ..
  show ?thesis
  proof (cases "sock_open v")
    case False
    then show ?thesis
      using closed [OF None] run assms by (simp add: v_def)
  next
    case True
    show ?thesis
    proof (cases x)
      case (Inl e)
      show ?thesis
        by (rule unsent [OF None arm [unfolded v_def] wr [unfolded Inl]])
          (use run True Inl assms in \<open>auto simp: ctx_Err_eq split: option.splits dest: ctx_err_at_cause\<close>)
    next
      case (Inr u)
      obtain r3 w3 where rl: "recv_loop t ctx m lim (inbox w2) w2 = (r3, w3)"
        by (rule prod.exhaust)
      show ?thesis
        by (rule received [OF None arm [unfolded v_def] lim [unfolded v_def] wk])
          (use run True Inr assms wr rl in auto)
    qed
  qed
qed

text \<open>The bookkeeping shared by the two branches that reach the socket.\<close>

lemma armed_frame:
  assumes arm: "arm ctx ((pause (pause w))\<lparr>sock_deadline := sd\<rparr>) = (wake, w1)"
    and v: "same_local w1 v" "now w1 \<le> now v" "now v + busy v \<le> now w1 + busy w1 + T" "busy v \<le> busy w1"
    and w': "w' = disarm ctx wake v"
  shows "same_local w w' \<and> now w \<le> now w' \<and> now w' + busy w' \<le> now w + busy w + T \<and> sent w' = sent v
    \<and> rcvd w' = rcvd v \<and> busy w' \<le> busy w"
proof -
  let ?w = "pause (pause w)"
  have pp: "now w \<le> now ?w"
    using now_pause [of w] now_pause [of "pause w"] by linarith
  have acc: "now ?w + busy ?w = now w + busy w" "busy ?w \<le> busy w"
    using busy_pause [of w] busy_pause [of "pause w"] by simp_all
  have bus: "busy (?w\<lparr>sock_deadline := sd\<rparr>) = busy ?w"
    by (simp add: busy_def)
  note a = arm_frame [OF arm, unfolded bus]
  have "now w' \<le> now v + (busy ?w - busy w1)"
    unfolding w' by (rule disarm_now [of wake "now w1" ctx]) (use a v in auto)
  moreover have "busy w' = busy v" "sent w' = sent v" "rcvd w' = rcvd v" "same_local v w'" "now v \<le> now w'"
    using disarm_frame [of v ctx wake] unfolding w' by auto
  moreover have "now w1 = now ?w" "same_local ?w w1"
    using a by (auto simp: same_local_def)
  ultimately show ?thesis
    using pp acc v same_local_trans [OF same_local_trans [OF same_local_pause same_local_pause]]
    using a by (intro conjI; (linarith | metis same_local_trans)?)
qed

lemma Exchange_frame:
  assumes "Exchange t ctx p m w = (r, w')"
  shows "same_local w w' \<and> now w \<le> now w' \<and> now w' + busy w' \<le> now w + busy w + max 0 (timeout t)
    \<and> (sent w' = sent w \<or> sent w' = sent w @ [(server t, p)]) \<and> (\<exists>new. rcvd w' = rcvd w @ new)
    \<and> busy w' \<le> busy w"
  using assms
proof (cases rule: Exchange_cases)
  case (unsent sd wake w1 w2 e dl)
  note b = write_udp_props [OF unsent(3)]
  have "same_local w1 (pause w2)" "now w1 \<le> now (pause w2)" "busy (pause w2) \<le> busy w1"
    using b now_pause [of w2] busy_pause [of w2] by (auto simp: same_local_def)
  moreover have "now (pause w2) + busy (pause w2) \<le> now w1 + busy w1 + max 0 (timeout t)"
    using b unfolding pause_account by simp
  ultimately have "same_local w w' \<and> now w \<le> now w' \<and> now w' + busy w' \<le> now w + busy w + max 0 (timeout t)
      \<and> sent w' = sent (pause w2) \<and> rcvd w' = rcvd (pause w2) \<and> busy w' \<le> busy w"
    using unsent(5) by (intro armed_frame [OF unsent(2)]) auto
  moreover have "sent w1 = sent w" "rcvd w1 = rcvd w"
    using arm_frame [OF unsent(2)] by simp_all
  ultimately show ?thesis
    using b by auto
next
  case (received sd wake w1 w2 w3 dl)
  note a = arm_frame [OF received(2)] and b = write_udp_props [OF received(6)]
    and c = recv_loop_props [OF received(7)]
  have "same_local w1 w3" "now w1 \<le> now w3" "busy w3 \<le> busy w1"
    using b c by (auto intro: same_local_trans)
  moreover have "now w3 + busy w3 \<le> now w1 + busy w1 + max 0 (timeout t)"
    using a b c received(3) by auto
  ultimately have "same_local w w' \<and> now w \<le> now w' \<and> now w' + busy w' \<le> now w + busy w + max 0 (timeout t)
      \<and> sent w' = sent w3 \<and> rcvd w' = rcvd w3 \<and> busy w' \<le> busy w"
    using received(8) by (intro armed_frame [OF received(2)])
  then show ?thesis
    using a b c by auto
next
  case refused
  then show ?thesis using now_pause [of w] busy_pause [of w] by simp
next
  case closed
  then show ?thesis
    using now_pause [of w] now_pause [of "pause w"] busy_pause [of w] busy_pause [of "pause w"]
    by (auto simp: same_local_def)
qed

text \<open>A context that is done at \<open>d\<close> interrupts the call.\<close>

lemma armed_prompt:
  assumes arm: "arm ctx ((pause (pause w))\<lparr>sock_deadline := sd\<rparr>) = (wake, w1)"
    and d: "ctx_done ctx = Some d"
    and v: "now w1 \<le> now v" "busy v \<le> busy w1" "now v + busy v \<le> max (now w1) lim + busy w1"
    and lim: "\<And>k. wake = Some k \<Longrightarrow> lim \<le> max (now w1) k"
    and w': "w' = disarm ctx wake v"
  shows "due d w' \<le> due d w"
proof -
  let ?u = "pause (pause w)"
  have u: "due d ?u \<le> due d w"
    using due_pause [of d w] due_pause [of d "pause w"] by linarith
  obtain l where l: "wake = Some (max d (now ?u) + l)" "busy w1 + l = busy ?u" "0 \<le> l" "now w1 = now ?u"
    using arm d by (auto simp: arm_def busy_def split: list.splits)
  define M where "M = max (now ?u) d"
  have k: "max d (now ?u) + l = M + l" and M: "now ?u \<le> M" "d \<le> M" "M = now ?u \<or> M = d"
    by (auto simp: M_def max_def)
  have le: "max (now w1) lim \<le> M + l"
    using lim [OF l(1)] l(3,4) M k by simp
  have b: "busy w' = busy v" "now w' = (if d \<le> now v then max (now v) (M + l) else now v)"
    using w' d l(1) k disarm_frame [of v ctx wake] by (simp_all add: disarm_def)
  have "now v + busy v \<le> M + busy ?u" "M + l + busy v \<le> M + busy ?u" "d + busy v \<le> M + busy ?u"
    using le l v M by linarith+
  then have "now w' + busy w' \<le> M + busy ?u" "d + busy w' \<le> M + busy ?u"
    unfolding b by (simp_all add: max_def)
  then have "due d w' \<le> due d ?u"
    unfolding due_def M_def [symmetric] by (simp add: max_def)
  with u show ?thesis by linarith
qed

lemma Exchange_prompt:
  assumes "Exchange t ctx p m w = (r, w')" and "ctx_done ctx = Some d"
  shows "due d w' \<le> due d w"
  using assms(1)
proof (cases rule: Exchange_cases)
  case (unsent sd wake w1 w2 e dl)
  note b = write_udp_props [OF unsent(3)]
  show ?thesis
    by (rule armed_prompt [OF unsent(2) assms(2) _ _ _ _ unsent(5), of "now w1"])
      (use b now_pause [of w2] busy_pause [of w2] pause_account [of w2] in \<open>simp_all del: pause_account\<close>)
next
  case (received sd wake w1 w2 w3 dl)
  show ?thesis
    by (rule armed_prompt [OF received(2) assms(2) _ _ _ max.coboundedI2 [OF received(5)] received(8)])
      (use write_udp_props [OF received(6)] recv_loop_props [OF received(7)] in auto)
next
  case refused
  then show ?thesis by (simp add: due_pause)
next
  case closed
  then show ?thesis using due_pause [of d w] due_pause [of d "pause w"] by simp
qed

lemma Exchange_reply:
  assumes "Exchange t ctx p m w = (Inr b, w')"
  shows "\<exists>as ta addr. net w (map snd (sent w)) p = Inr as
     \<and> (ta, Datagram addr b) \<in> set (inbox w) \<union> (\<lambda>(d, x). (now (pause (pause w)) + int d, x)) ` set as
     \<and> sameUDPAddr (Some addr) (Some (server t)) \<and> length b \<le> defaultReceiveBufferSize
     \<and> ta < now (pause (pause w)) + timeout t \<and> (\<forall>d. ctx_deadline ctx = Some d \<longrightarrow> ta < d)
     \<and> sent w' = sent w @ [(server t, p)] \<and> (\<forall>f. m = Some f \<longrightarrow> f b = Some (Inr True))
     \<and> (\<exists>new. rcvd w' = rcvd w @ new @ [(addr, b)])"
  using assms
proof (cases rule: Exchange_cases)
  case (received sd wake w1 w2 w3 dl)
  note a = arm_frame [OF received(2)]
  have set_enq: "set (fold (\<lambda>(d, x). enqueue (n + int d, x)) as q)
      = set q \<union> (\<lambda>(d, x). (n + int d, x)) ` set as" for n as q
  proof (induction as arbitrary: q)
    case (Cons y as)
    obtain d x where "y = (d, x)" by (cases y)
    moreover have "set (enqueue z q) = insert z (set q)" for z q
    proof -
      have "set (takeWhile P q) \<union> set (dropWhile P q) = set q" for P
        by (metis set_append takeWhile_dropWhile_id)
      then show ?thesis
        by (auto simp: enqueue_def)
    qed
    ultimately show ?case
      using Cons.IH by auto
  qed simp
  obtain as where as: "net w (map snd (sent w)) p = Inr as" "sent w2 = sent w @ [(server t, p)]"
    "inbox w2 = fold (\<lambda>(d, x). enqueue (now (pause (pause w)) + int d, x)) as (inbox w)"
    using received(6) a by (auto simp: write_udp_def same_local_def split: if_splits sum.splits)
  from recv_loop_reply [OF received(7)] obtain ta addr where
    rep: "(ta, Datagram addr b) \<in> set (inbox w2)" "ta < dl"
      "sameUDPAddr (Some addr) (Some (server t))" "length b \<le> defaultReceiveBufferSize"
      "\<forall>f. m = Some f \<longrightarrow> f b = Some (Inr True)" "\<exists>new. rcvd w3 = rcvd w2 @ new @ [(addr, b)]"
    by blast
  have rcv: "rcvd w3 = rcvd w'" "rcvd w2 = rcvd w"
    using a write_udp_props [OF received(6)] disarm_frame [of w3 ctx wake] received(8) by simp_all
  have snt: "sent w' = sent w @ [(server t, p)]"
    using recv_loop_props [OF received(7)] disarm_frame [of w3 ctx wake] received(8) as by simp
  have "ta < now (pause (pause w)) + timeout t" "\<forall>d. ctx_deadline ctx = Some d \<longrightarrow> ta < d"
    using rep(2) received(3,4) by (blast intro: less_le_trans)+
  then show ?thesis
    using as(1) rep(1) [unfolded as(3) set_enq] rep(3-) [unfolded rcv] snt by blast
qed auto

lemma Exchange_error:
  assumes "Exchange t ctx p m w = (Inl x, w')"
  shows "(\<exists>s. x = Panic s \<and> (\<exists>f b. m = Some f \<and> f b = None))
       \<or> (\<exists>e. x = Fail e \<and> (e \<in> {ErrTimeout, DeadlineExceeded, OsTimeout, ctx_cause ctx}
              \<or> (\<exists>s. e = OsError s) \<or> (\<exists>f b addr new. m = Some f \<and> f b = Some (Inl e)
                  \<and> sameUDPAddr (Some addr) (Some (server t)) \<and> rcvd w' = rcvd w @ new @ [(addr, b)])))"
  using assms
proof (cases rule: Exchange_cases)
  case (received sd wake w1 w2 w3 dl)
  have "rcvd w3 = rcvd w'" "rcvd w2 = rcvd w"
    using arm_frame [OF received(2)] write_udp_props [OF received(6)] disarm_frame [of w3 ctx wake] received(8)
    by simp_all
  then show ?thesis
    using recv_loop_error [OF received(7)] by simp
next
  case (unsent sd wake w1 w2 e dl)
  then show ?thesis
    using write_udp_props [OF unsent(3)] by auto
qed (auto dest: ctx_err_at_cause)

lemma Exchange_decided:
  assumes "Exchange t ctx p (Some f) w = (r, w')" and "rcvd w' = rcvd w @ new @ [(a, b)]"
    and "sameUDPAddr (Some a) (Some (server t))" and "f b = Some (Inl e)"
  shows "r = Inl (Fail e)"
  using assms(1)
proof (cases rule: Exchange_cases)
  case (received sd wake w1 w2 w3 dl)
  have "rcvd w3 = rcvd w'" "rcvd w2 = rcvd w"
    using arm_frame [OF received(2)] write_udp_props [OF received(6)] disarm_frame [of w3 ctx wake] received(8)
    by simp_all
  then show ?thesis
    using recv_loop_decided [OF received(7) _ assms(3,4), of new] assms(2) by simp
next
  case (unsent sd wake w1 w2 e dl)
  then have "rcvd w' = rcvd w"
    using arm_frame [OF unsent(2)] write_udp_props [OF unsent(3)] disarm_frame [of "pause w2" ctx wake] by simp
  then show ?thesis using assms(2) by simp
qed (use assms(2) in auto)

interpretation tr: exchanger "Exchange t" "max 0 (timeout t)" "\<lambda>a. sameUDPAddr (Some a) (Some (server t))" for t
proof
  fix c p m w r w' f q s e d new a
  show "0 \<le> max 0 (timeout t)"
    by simp
  { assume "Exchange t c p m w = (r, w')"
    note fr = Exchange_frame [OF this]
    show "same_local w w'" and "now w \<le> now w'" and "busy w' \<le> busy w"
      and "now w' + busy w' \<le> now w + busy w + max 0 (timeout t)"
      and "sent w' = sent w \<or> (\<exists>a. sameUDPAddr (Some a) (Some (server t)) \<and> sent w' = sent w @ [(a, p)])"
      and "\<exists>new. rcvd w' = rcvd w @ new"
      using fr by (auto simp: sameUDPAddr_def) }
  { assume "Exchange t c p m w = (r, w')" and "ctx_done c = Some d"
    then show "due d w' \<le> due d w" by (rule Exchange_prompt) }
  { assume "Exchange t c p m w = (r, w')" and "ctx_err_at c (now w) = Some e"
    then show "r = Inl (Fail e) \<and> sent w' = sent w"
      using ctx_err_at_mono [OF _ now_pause, of c w e] by (simp add: Exchange_def ctx_Err_eq) auto }
  { assume "Exchange t c p (Some f) w = (Inr q, w')"
    from Exchange_reply [OF this] show "f q = Some (Inr True)
        \<and> (\<exists>a new. sameUDPAddr (Some a) (Some (server t)) \<and> rcvd w' = rcvd w @ new @ [(a, q)])" by blast }
  { assume "Exchange t c p (Some f) w = (Inl (Panic s), w')"
    from Exchange_error [OF this] show "\<exists>q. f q = None" by auto }
  { assume "Exchange t c p (Some f) w = (Inl (Fail e), w')" 
      and "errors_Is e ErrRejected \<or> errors_Is e ErrAuthenticationRejected"
    with Exchange_error [OF this(1)] show "\<exists>a q new. sameUDPAddr (Some a) (Some (server t))
        \<and> f q = Some (Inl e) \<and> rcvd w' = rcvd w @ new @ [(a, q)]"
      using ctx_cause_cases [of c] by auto }
  { assume "Exchange t c p (Some f) w = (r, w')" and "rcvd w' = rcvd w @ new @ [(a, q)]"
      and "sameUDPAddr (Some a) (Some (server t))" and "f q = Some (Inl e)"
    then show "r = Inl (Fail e)" by (rule Exchange_decided) }
qed

section \<open>Creating the transport\<close>

lemma owns_iff: "owns ip addrs \<longleftrightarrow> (\<exists>a. IPNet a \<in> set addrs \<and> ip_Equal a ip)"
  by (induction ip addrs rule: owns.induct) auto

lemma pin_socket_props:
  "pin_socket os i w = (r, w') \<Longrightarrow>
     sock_open w' = sock_open w \<and> sock_deadline w' = sock_deadline w
     \<and> (r = Inr () \<longrightarrow> sock_if w' = Some (uint (le32 (put_be32 (word_of_int i)))))"
  by (auto simp: pin_socket_def Let_def split: option.splits)

lemma pin_loop_props:
  "pin_loop os ip ifaces w = (r, w') \<Longrightarrow>
     sock_open w' = sock_open w \<and> sock_deadline w' = sock_deadline w
     \<and> (r = Inr () \<longrightarrow> (\<exists>f \<in> set ifaces. \<exists>as a. ifAddrs f = Inr as \<and> IPNet a \<in> set as \<and> ip_Equal a ip
           \<and> sock_if w' = Some (uint (le32 (put_be32 (word_of_int (ifIndex f)))))))"
  by (induction os ip ifaces w rule: pin_loop.induct)
    (force simp: owns_iff split: sum.splits if_splits dest: pin_socket_props)+

lemma pinInterface_props:
  assumes "pinInterface os ip w = (r, w')"
  shows "sock_open w' = sock_open w \<and> sock_deadline w' = sock_deadline w
     \<and> (r = Inr () \<longrightarrow> IsUnspecified ip \<or> IsLoopback ip \<or> To4 ip = None \<or>
          (\<exists>fs f as a. os_interfaces os = Inr fs \<and> f \<in> set fs \<and> ifAddrs f = Inr as \<and> IPNet a \<in> set as
             \<and> ip_Equal a ip \<and> sock_if w' = Some (uint (le32 (put_be32 (word_of_int (ifIndex f)))))))"
  using assms
  by (auto simp: pinInterface_def split: if_splits sum.splits dest!: pin_loop_props)

section \<open>The retry loop\<close>

text \<open>\<open>n\<close> attempts in a row that time out, none of them under a done context.\<close>

inductive timed_out ::
    "ctx_t \<Rightarrow> (world \<Rightarrow> (exc + unit) \<times> world) \<Rightarrow> nat \<Rightarrow> world \<Rightarrow> world \<Rightarrow> bool" for ctx fn where
  timed_out_0: "timed_out ctx fn 0 w w"
| timed_out_Suc: "ctx_Err ctx w = (None, w1) \<Longrightarrow> fn w1 = (Inl (Fail e), w2) \<Longrightarrow> IsTimeout e \<Longrightarrow>
     timed_out ctx fn n w2 w3 \<Longrightarrow> timed_out ctx fn (Suc n) w w3"

text \<open>How the loop ends after those attempts.\<close>

inductive retry_end ::
    "ctx_t \<Rightarrow> (world \<Rightarrow> (exc + unit) \<times> world) \<Rightarrow> world \<Rightarrow> exc + unit \<Rightarrow> world \<Rightarrow> bool" for ctx fn where
  cancelled: "ctx_Err ctx w = (Some e, w1) \<Longrightarrow> retry_end ctx fn w (Inl (Fail e)) w1"
| success: "ctx_Err ctx w = (None, w1) \<Longrightarrow> fn w1 = (Inr u, w2) \<Longrightarrow> retry_end ctx fn w (Inr ()) w2"
| error: "ctx_Err ctx w = (None, w1) \<Longrightarrow> fn w1 = (Inl (Fail e), w2) \<Longrightarrow> \<not> IsTimeout e \<Longrightarrow>
     retry_end ctx fn w (Inl (Fail e)) w2"
| panic: "ctx_Err ctx w = (None, w1) \<Longrightarrow> fn w1 = (Inl (Panic s), w2) \<Longrightarrow>
     retry_end ctx fn w (Inl (Panic s)) w2"

lemma retry_loop_outcome:
  assumes "retry_loop ctx fn k prev w = (r, w')" and "\<forall>e. prev = Some e \<longrightarrow> IsTimeout e"
    and "k = 0 \<longrightarrow> prev \<noteq> None"
  shows "\<exists>n v. timed_out ctx fn n w v \<and>
    (n < k \<and> retry_end ctx fn v r w'
     \<or> n = k \<and> v = w' \<and> (\<exists>e. r = Inl (Fail (Wrapf ''exchange failed after attempts'' e)) \<and> IsTimeout e))"
  using assms
proof (induction k arbitrary: prev w)
  case 0
  then show ?case
    using timed_out_0 [of ctx fn w] by (auto split: option.splits)
next
  case (Suc k)
  obtain ce w1 where c: "ctx_Err ctx w = (ce, w1)" by (rule prod.exhaust)
  show ?case
  proof (cases ce)
    case (Some e)
    then show ?thesis
      using Suc.prems(1) c by (auto intro!: exI [of _ 0] exI [of _ w] timed_out_0 cancelled)
  next
    case None
    obtain x w2 where f: "fn w1 = (x, w2)" by (rule prod.exhaust)
    consider s where "x = Inl (Panic s)" | u where "x = Inr u" | e where "x = Inl (Fail e)" "\<not> IsTimeout e"
      | e where "x = Inl (Fail e)" "IsTimeout e"
      by (cases x; cases "projl x") auto
    then show ?thesis
    proof cases
      case (4 e)
      then have "retry_loop ctx fn k (Some e) w2 = (r, w')"
        using Suc.prems(1) c None f by simp
      from Suc.IH [OF this] obtain n v where n: "timed_out ctx fn n w2 v"
        "n < k \<and> retry_end ctx fn v r w' \<or> n = k \<and> v = w' \<and>
           (\<exists>e. r = Inl (Fail (Wrapf ''exchange failed after attempts'' e)) \<and> IsTimeout e)"
        using 4 by auto
      have "timed_out ctx fn (Suc n) w v"
        by (rule timed_out_Suc [OF c [unfolded None] f [unfolded 4(1)] 4(2) n(1)])
      then show ?thesis
        using n(2) by auto
    qed (use Suc.prems(1) c None f in
      \<open>auto intro!: exI [of _ 0] exI [of _ w] timed_out_0 intro: success error panic\<close>)
  qed
qed

lemma RetryExchange_outcome:
  assumes "RetryExchange ctx count fn w = (r, w')"
  shows "\<exists>n v. timed_out ctx fn n w v \<and>
    (n < nat (max 1 count) \<and> retry_end ctx fn v r w'
     \<or> n = nat (max 1 count) \<and> v = w'
        \<and> (\<exists>e. r = Inl (Fail (Wrapf ''exchange failed after attempts'' e)) \<and> IsTimeout e))"
proof -
  obtain k where k: "nat (if count < 1 then 1 else count) = Suc k" "nat (max 1 count) = Suc k"
    by (cases "nat (max 1 count)") (auto simp: max_def split: if_splits)
  have run: "retry_loop ctx fn (Suc k) None w = (r, w')"
    using assms by (simp add: RetryExchange_def k)
  show ?thesis
    unfolding k(2) by (rule retry_loop_outcome [OF run]) simp_all
qed

section \<open>Unrelated datagrams\<close>


text \<open>What a call does is determined up to the datagrams read and the queue it leaves.\<close>

definition same_upto :: "world \<Rightarrow> world \<Rightarrow> bool" where
  "same_upto w1 w2 \<longleftrightarrow> w1\<lparr>inbox := [], rcvd := []\<rparr> = w2\<lparr>inbox := [], rcvd := []\<rparr>"

definition same_outcome :: "'a \<times> world \<Rightarrow> 'a \<times> world \<Rightarrow> bool" where
  "same_outcome a b \<longleftrightarrow> fst a = fst b \<and> same_upto (snd a) (snd b)"


lemma same_outcome_refl [simp]: "same_outcome a a"
  by (simp add: same_outcome_def same_upto_def)



lemma same_upto_simps [simp]:
  "same_upto (w1\<lparr>inbox := i\<rparr>) w2 = same_upto w1 w2" "same_upto (w1\<lparr>rcvd := j\<rparr>) w2 = same_upto w1 w2"
  "same_upto w1 (w2\<lparr>inbox := i\<rparr>) = same_upto w1 w2" "same_upto w1 (w2\<lparr>rcvd := j\<rparr>) = same_upto w1 w2"
  "same_upto w w"
  by (simp_all add: same_upto_def)









section \<open>Sample values\<close>

definition sample_world :: world where
  "sample_world =
     \<lparr>now = 0, lags = [5, 7], coins = [], rng = Some [], sess = zero_session, resp = [],
      rstate = StateDisconnected, trace = [], delay = 0, sock_open = True, sock_if = None,
      sock_deadline = None, inbox = [], rcvd = [], sent = [],
      net = (\<lambda>_ p. Inr [(3, Datagram \<lparr>addr_ip = [6, 6, 6, 6], addr_port = 61440\<rparr> [2, 2]),
                        (10, Datagram \<lparr>addr_ip = [10, 100, 61, 3], addr_port = 61440\<rparr> (0x02 # tl p))])\<rparr>"

definition sample_transport :: transport where
  "sample_transport = \<lparr>server = \<lparr>addr_ip = [10, 100, 61, 3], addr_port = 61440\<rparr>, timeout = 2000 * millisecond\<rparr>"

definition no_ctx :: ctx_t where
  "no_ctx = \<lparr>cancel_at = None, ctx_deadline = None\<rparr>"

lemma sample_exchange:
  "fst (Exchange sample_transport no_ctx [1, 2, 3] None sample_world) = Inr [0x02, 2, 3]"
  by code_simp

section \<open>Properties\<close>

text \<open>
  Property C22. The transport never leaks a socket and never talks over the wrong adapter: on every
  error path the call leaves no socket open that it opened, and on success the socket is open with
  no deadline and, for a bind address that is a specific IPv4 address, bound to an interface that
  owns exactly this address.
\<close>

theorem new_transport_pinned_or_closed:
  "case NewTransport os b s tmo w of
     (Inl e, w') \<Rightarrow> (if sock_open w' then w' = w else True)
   | (Inr t, w') \<Rightarrow> sock_open w' \<and> sock_deadline w' = None \<and> 0 < timeout t \<and> Some (server t) = s
       \<and> (\<exists>a0. b = Some a0 \<and> (IsUnspecified (addr_ip a0) \<or> IsLoopback (addr_ip a0)
            \<or> To4 (addr_ip a0) = None
            \<or> (\<exists>fs f as a. os_interfaces os = Inr fs \<and> f \<in> set fs \<and> ifAddrs f = Inr as
                 \<and> IPNet a \<in> set as \<and> ip_Equal a (addr_ip a0)
                 \<and> sock_if w' = Some (uint (le32 (put_be32 (word_of_int (ifIndex f))))))))"
  by (auto simp: NewTransport_def Let_def split: option.splits prod.splits sum.splits
      dest!: pinInterface_props)

text \<open>
  Property C8. An exchange returns only what the server sent in answer: the reply is the whole
  payload of a datagram from the server's address that fits the buffer and that the matcher accepts, which was
  queued or caused by the packet just sent, and arrived before the receive timeout and before the
  deadline of the context; the packet went out exactly once and the socket deadline is cleared.
\<close>

theorem exchange_returns_matched_reply:
  assumes "Exchange t ctx p m w = (Inr b, w')"
  shows "\<exists>as ta addr. net w (map snd (sent w)) p = Inr as
     \<and> (ta, Datagram addr b) \<in> set (inbox w) \<union> (\<lambda>(d, x). (now (pause (pause w)) + int d, x)) ` set as
     \<and> sameUDPAddr (Some addr) (Some (server t)) \<and> length b \<le> defaultReceiveBufferSize
     \<and> ta < now (pause (pause w)) + timeout t \<and> (\<forall>d. ctx_deadline ctx = Some d \<longrightarrow> ta < d)
     \<and> sent w' = sent w @ [(server t, p)] \<and> (\<forall>f. m = Some f \<longrightarrow> f b = Some (Inr True))
     \<and> sock_deadline w' = None"
proof -
  have "sock_deadline w' = None"
    using assms by (cases rule: Exchange_cases) (simp_all add: disarm_frame)
  with Exchange_reply [OF assms] show ?thesis
    by (elim exE conjE) (intro exI conjI, assumption+)
qed

theorem exchange_returns_matched_reply_witness:
  "sock_deadline (snd (Exchange sample_transport no_ctx [1, 2, 3] None sample_world)) = None
   \<and> sent (snd (Exchange sample_transport no_ctx [1, 2, 3] None sample_world))
       = [(server sample_transport, [1, 2, 3])]"
proof -
  have "Exchange sample_transport no_ctx [1, 2, 3] None sample_world
      = (Inr [0x02, 2, 3], snd (Exchange sample_transport no_ctx [1, 2, 3] None sample_world))"
    using sample_exchange by (metis prod.collapse)
  from exchange_returns_matched_reply [OF this] show ?thesis
    by (auto simp: sample_world_def)
qed



text \<open>
  Property C21. The retry loop makes at most \<open>max 1 count\<close> attempts: some number of timeouts,
  then either the outcome of one more attempt (success, an error that is not a timeout, unwrapped,
  or the error of a context that is already done), or, after \<open>count\<close> of them, the last timeout,
  wrapped but still recognised by \<open>IsTimeout\<close>. It never reports success without an attempt
  that succeeded.
\<close>

theorem retry_exchange_outcomes:
  assumes "RetryExchange ctx count fn w = (r, w')"
  shows "\<exists>n v. timed_out ctx fn n w v \<and>
    (n < nat (max 1 count) \<and> retry_end ctx fn v r w'
     \<or> n = nat (max 1 count) \<and> v = w'
        \<and> (\<exists>e. r = Inl (Fail (Wrapf ''exchange failed after attempts'' e)) \<and> IsTimeout e))"
  using assms by (rule RetryExchange_outcome)

theorem retry_exchange_outcomes_witness:
  "\<exists>n v. timed_out no_ctx (\<lambda>w. (Inl (Fail ErrTimeout), w)) n sample_world v \<and>
     (n < 2 \<and> retry_end no_ctx (\<lambda>w. (Inl (Fail ErrTimeout), w)) v
        (Inl (Fail (Wrapf ''exchange failed after attempts'' ErrTimeout))) (pause (pause sample_world))
      \<or> n = 2 \<and> v = pause (pause sample_world))"
proof -
  have "RetryExchange no_ctx 2 (\<lambda>w. (Inl (Fail ErrTimeout), w)) sample_world =
      (Inl (Fail (Wrapf ''exchange failed after attempts'' ErrTimeout)), pause (pause sample_world))"
    by (simp add: RetryExchange_def numeral_2_eq_2 ctx_Err_eq ctx_err_at_def ctx_done_def no_ctx_def IsTimeout_def)
  from retry_exchange_outcomes [OF this] show ?thesis
    by auto
qed

text \<open>
  Property C19. An exchange always returns in time: apart from the delays of the scheduler it takes
  at most the receive timeout, whatever the network delivers, and when its context is cancelled or
  expires at \<open>d\<close> it is over by then (at once if \<open>d\<close> has passed).
\<close>

theorem exchange_bounded_and_interruptible:
  "case Exchange t ctx p m w of (r, w') \<Rightarrow>
     now w' + busy w' \<le> now w + busy w + max 0 (timeout t)
     \<and> (case ctx_done ctx of None \<Rightarrow> True | Some d \<Rightarrow> now w' + busy w' \<le> max (now w) d + busy w)"
proof (cases "Exchange t ctx p m w")
  case (Pair r w')
  have "now w' + busy w' \<le> max (now w) d + busy w" if "ctx_done ctx = Some d" for d
    using order_trans [OF due_ge tr.prompt [OF Pair that]] unfolding due_def [of d w] .
  then show ?thesis
    using tr.bounded [OF Pair] Pair by (auto split: option.split)
qed

end
