(* ===== verification/Runner.thy ===== *)
theory Runner
  imports Transport Layout
begin

text \<open>
  \<open>internal/runner/runner.go\<close>: one session with the server. Every method of \<open>Runner\<close> is a
  fallible state-passing function on the world; the session variable is \<open>sess\<close>, the variable
  \<open>response\<close> of \<open>exchange\<close> is \<open>resp\<close>. The facts are proved from the \<open>exchanger\<close> interface.
\<close>

unbundle bit_operations_syntax

section \<open>Runner\<close>

text \<open>
  The fields of \<open>Runner\<close>: the configuration, the exchanger with its \<open>Close\<close> if it has one, and
  the callback. The random source and the atomic state are in the world.
\<close>

record runner =
  rcfg :: config
  rExchange :: exchange_fn
  rClose :: "(world \<Rightarrow> world) option"
  rOnState :: "(State \<Rightarrow> world \<Rightarrow> world) option"

definition New :: "config \<Rightarrow> exchange_fn \<Rightarrow> (world \<Rightarrow> world) option \<Rightarrow> world \<Rightarrow> runner \<times> world" where
  "New cfg ex cl w =
     (\<lparr>rcfg = cfg, rExchange = ex, rClose = cl, rOnState = None\<rparr>,
      emit (EvState StateDisconnected) (w\<lparr>rstate := StateDisconnected\<rparr>))"

definition setState :: "runner \<Rightarrow> State \<Rightarrow> world \<Rightarrow> world" where
  "setState r s w = (
     let w = emit (EvState s) (w\<lparr>rstate := s\<rparr>) in
     case rOnState r of None \<Rightarrow> w | Some f \<Rightarrow> f s w)"

definition runner_Close :: "runner \<Rightarrow> world \<Rightarrow> world" where
  "runner_Close r w = (case rClose r of None \<Rightarrow> w | Some c \<Rightarrow> c w)"

section \<open>exchange\<close>

text \<open>The closure that \<open>exchange\<close> passes to \<open>RetryExchange\<close>.\<close>

definition attempt ::
    "runner \<Rightarrow> ctx_t \<Rightarrow> string \<Rightarrow> bytes \<Rightarrow> matcher \<Rightarrow> world \<Rightarrow> (exc + unit) \<times> world" where
  "attempt r ctx name packet match w =
     (case rExchange r ctx packet (Some match) w of
        (Inl (Panic s), w) \<Rightarrow> (Inl (Panic s), w)
      | (x, w) \<Rightarrow>
          let w = w\<lparr>resp := (case x of Inr b \<Rightarrow> b | Inl _ \<Rightarrow> [])\<rparr>;
              e = (case x of
                     Inl f \<Rightarrow> Inl f
                   | Inr b \<Rightarrow> (case match b of
                       None \<Rightarrow> Inl (Panic ''index out of range'')
                     | Some (Inl matchErr) \<Rightarrow> Inl (Fail matchErr)
                     | Some (Inr ok) \<Rightarrow> if \<not> ok then Inl (Fail (Errorf ''unexpected response'')) else Inr ()))
          in case e of
               Inl (Panic s) \<Rightarrow> (e, w)
             | Inl (Fail err) \<Rightarrow>
                 (e, if DebugHexDump (rcfg r)
                     then emit (LogExchange name (length packet) (length (resp w)) (Some err)) w else w)
             | Inr _ \<Rightarrow>
                 (e, if DebugHexDump (rcfg r)
                     then emit (LogExchange name (length packet) (length (resp w)) None) w else w))"

definition exchange ::
    "runner \<Rightarrow> ctx_t \<Rightarrow> string \<Rightarrow> bytes \<Rightarrow> bool \<Rightarrow> world \<Rightarrow> (exc + bytes) \<times> world" where
  "exchange r ctx name packet allowFile w = (
     let w = w\<lparr>resp := []\<rparr>;
         match = ResponseMatcher packet allowFile
     in case RetryExchange ctx (RetryCount (rcfg r) + 1) (attempt r ctx name packet match) w of
          (Inl (Panic s), w) \<Rightarrow> (Inl (Panic s), w)
        | (Inl (Fail e), w) \<Rightarrow> (Inl (Fail (Wrapf name e)), w)
        | (Inr _, w) \<Rightarrow> (Inr (resp w), w))"

section \<open>Calls into the protocol package\<close>

text \<open>A builder that draws random bytes, and one that does not; \<open>None\<close> is a panic.\<close>

definition with_rng ::
    "(session \<Rightarrow> reader \<Rightarrow> (bytes \<times> reader) option) \<Rightarrow> world \<Rightarrow> (exc + bytes) \<times> world" where
  "with_rng build w =
     (case build (sess w) (rng w) of
        None \<Rightarrow> (Inl (Panic ''crypto/rand read''), w)
      | Some (p, g) \<Rightarrow> (Inr p, w\<lparr>rng := g\<rparr>))"

definition build_with :: "(session \<Rightarrow> bytes option) \<Rightarrow> world \<Rightarrow> (exc + bytes) \<times> world" where
  "build_with build w =
     (case build (sess w) of
        None \<Rightarrow> (Inl (Panic ''index out of range''), w)
      | Some p \<Rightarrow> (Inr p, w))"

text \<open>\<open>BuildLoginPacket(cfg, &s, r.rng)\<close> updates the session.\<close>

definition login_packet :: "pconfig \<Rightarrow> world \<Rightarrow> (exc + bytes) \<times> world" where
  "login_packet cfg w =
     (case BuildLoginPacket cfg (sess w) (rng w) of
        None \<Rightarrow> (Inl (Panic ''index out of range''), w)
      | Some (p, s, g) \<Rightarrow> (Inr p, w\<lparr>sess := s, rng := g\<rparr>))"

text \<open>\<open>s.Salt, err = Parse(p)\<close>: the parser returns the zero salt with an error.\<close>

definition store_salt ::
    "(4 arr \<Rightarrow> session \<Rightarrow> session) \<Rightarrow> (err + 4 arr) option \<Rightarrow> world \<Rightarrow> (exc + unit) \<times> world" where
  "store_salt put res w =
     (case res of
        None \<Rightarrow> (Inl (Panic ''index out of range''), w)
      | Some (Inl e) \<Rightarrow> (Inl (Fail e), w\<lparr>sess := put (arr_of []) (sess w)\<rparr>)
      | Some (Inr salt) \<Rightarrow> (Inr (), w\<lparr>sess := put salt (sess w)\<rparr>))"

text \<open>\<open>Parse(p, &s)\<close>: the session is written on success only.\<close>

definition parse_into ::
    "(session \<Rightarrow> (err + session) option) \<Rightarrow> world \<Rightarrow> (exc + unit) \<times> world" where
  "parse_into parse w =
     (case parse (sess w) of
        None \<Rightarrow> (Inl (Panic ''index out of range''), w)
      | Some (Inl e) \<Rightarrow> (Inl (Fail e), w)
      | Some (Inr s) \<Rightarrow> (Inr (), w\<lparr>sess := s\<rparr>))"

section \<open>Login\<close>

text \<open>Only the error of the login exchange itself is inspected for a rejection.\<close>

definition login_error :: "(exc + 'a) \<times> world \<Rightarrow> (exc + 'a) \<times> world" where
  "login_error x =
     (case x of
        (Inl (Fail e), w) \<Rightarrow>
          if errors_Is e ErrRejected then (Inl (Fail ErrAuthenticationRejected), w) else (Inl (Fail e), w)
      | (Inl (Panic s), w) \<Rightarrow> (Inl (Panic s), w)
      | (Inr a, w) \<Rightarrow> (Inr a, w))"

definition Login :: "runner \<Rightarrow> ctx_t \<Rightarrow> world \<Rightarrow> (exc + unit) \<times> world" where
  "Login r ctx = (
     let cfg = ProtocolConfig (rcfg r) in
     bindE (liftE (\<lambda>w. setState r StateLoginChallenge (w\<lparr>sess := zero_session\<rparr>))) (\<lambda>_.
     bindE (with_rng (\<lambda>_. BuildLoginChallenge (pAuthVersion cfg))) (\<lambda>challenge.
     bindE (exchange r ctx ''login challenge'' challenge False) (\<lambda>p.
     bindE (store_salt (\<lambda>salt s. s\<lparr>LoginSalt := salt\<rparr>) (ParseLoginChallengeResponse p)) (\<lambda>_.
     bindE (liftE (setState r StateLoggingIn)) (\<lambda>_.
     bindE (login_packet cfg) (\<lambda>packet.
     bindE (\<lambda>w. login_error (exchange r ctx ''login'' packet False w)) (\<lambda>p.
     bindE (parse_into (ParseLoginResponse p)) (\<lambda>_.
     liftE (emit LogLogin))))))))))"

section \<open>Logout\<close>

definition Logout :: "runner \<Rightarrow> ctx_t \<Rightarrow> world \<Rightarrow> (exc + unit) \<times> world" where
  "Logout r ctx = (
     let cfg = ProtocolConfig (rcfg r) in
     bindE (liftE (setState r StateLoggingOut)) (\<lambda>_.
     bindE (with_rng (\<lambda>_. BuildLogoutChallenge (pAuthVersion cfg))) (\<lambda>challenge.
     bindE (exchange r ctx ''logout challenge'' challenge False) (\<lambda>p.
     bindE (store_salt (\<lambda>salt s. s\<lparr>LogoutSalt := salt\<rparr>) (ParseLogoutChallengeResponse p)) (\<lambda>_.
     bindE (build_with (BuildLogoutPacket cfg)) (\<lambda>packet.
     bindE (exchange r ctx ''logout'' packet False) (\<lambda>_.
     liftE (\<lambda>w. emit LogLogout (setState r StateStopped w)))))))))"

section \<open>Heartbeats\<close>

definition KeepAliveAuth :: "runner \<Rightarrow> ctx_t \<Rightarrow> int \<Rightarrow> world \<Rightarrow> (exc + unit) \<times> world" where
  "KeepAliveAuth r ctx t =
     bindE (build_with (\<lambda>s. BuildKeepAliveAuth s (t div second))) (\<lambda>packet.
     bindE (exchange r ctx ''keepalive auth'' packet False) (\<lambda>_. retE ()))"

definition bump_count :: "world \<Rightarrow> world" where
  "bump_count w = w\<lparr>sess := (sess w)\<lparr>HeartbeatCount := HeartbeatCount (sess w) + 1\<rparr>\<rparr>"

definition extra_heartbeat :: "runner \<Rightarrow> ctx_t \<Rightarrow> world \<Rightarrow> (exc + unit) \<times> world" where
  "extra_heartbeat r ctx w = (
     let cfg = ProtocolConfig (rcfg r) in
     if HeartbeatCount (sess w) = 0 \<or> HeartbeatCount (sess w) mod 21 = 0
     then bindE (with_rng (\<lambda>s. if HeartbeatCount s = 0 then BuildFirstHeartbeat cfg s else BuildExtraHeartbeat cfg s))
            (\<lambda>packet.
          bindE (exchange r ctx ''first/extra heartbeat'' packet True) (\<lambda>_.
          liftE bump_count)) w
     else (Inr (), w))"

definition HeartbeatOnce :: "runner \<Rightarrow> ctx_t \<Rightarrow> world \<Rightarrow> (exc + unit) \<times> world" where
  "HeartbeatOnce r ctx = (
     let cfg = ProtocolConfig (rcfg r) in
     bindE (\<lambda>w. let w = pause w in KeepAliveAuth r ctx (now w) w) (\<lambda>_.
     bindE (extra_heartbeat r ctx) (\<lambda>_.
     bindE (with_rng (BuildHeartbeatStep1 cfg)) (\<lambda>step1.
     let randomToken = arr_of (take 4 (drop 8 step1)) in
     bindE (exchange r ctx ''heartbeat step1'' step1 False) (\<lambda>p.
     bindE (parse_into (ParseHeartbeatStep1Response p)) (\<lambda>_.
     bindE (liftE bump_count) (\<lambda>_.
     bindE (build_with (\<lambda>s. BuildHeartbeatStep2 cfg s randomToken)) (\<lambda>step2.
     bindE (exchange r ctx ''heartbeat step2'' step2 False) (\<lambda>_.
     liftE (\<lambda>w. let w = bump_count w in emit (LogHeartbeat (HeartbeatCount (sess w))) w))))))))))"

section \<open>Run\<close>

text \<open>
  The heartbeat loop, for a number of rounds: \<open>None\<close> means that it is still running after them.
\<close>

fun heartbeat_loop :: "runner \<Rightarrow> ctx_t \<Rightarrow> nat \<Rightarrow> world \<Rightarrow> ((exc + unit) \<times> world) option" where
  "heartbeat_loop r ctx 0 w = None"
| "heartbeat_loop r ctx (Suc rounds) w =
     (case HeartbeatOnce r ctx w of
        (Inl (Panic s), w) \<Rightarrow> Some (Inl (Panic s), w)
      | (Inl (Fail e), w) \<Rightarrow> Some (Inl (Fail e), setState r StateFailed w)
      | (Inr _, w) \<Rightarrow>
          let w = pause (setState r StateOnline w) in
          (case select_done ctx (now w + HeartbeatInterval (rcfg r)) w of
             (True, w) \<Rightarrow>
               (case ctx_Err ctx w of
                  (Some e, w) \<Rightarrow> Some (Inl (Fail e), w)
                | (None, w) \<Rightarrow> Some (Inr (), w))
           | (False, w) \<Rightarrow> heartbeat_loop r ctx rounds w))"

text \<open>The deferred call: it runs on every way out of the loop, panics included.\<close>

definition deferred_logout :: "runner \<Rightarrow> ctx_t \<Rightarrow> (exc + unit) \<times> world \<Rightarrow> (exc + unit) \<times> world" where
  "deferred_logout r ctx x =
     (case x of (res, w) \<Rightarrow>
        (case ctx_Err ctx w of
           (None, w) \<Rightarrow> (res, w)
         | (Some _, w) \<Rightarrow>
             let w = pause w;
                 logoutCtx = \<lparr>cancel_at = None, ctx_deadline = Some (now w + 1500 * millisecond)\<rparr>
             in case Logout r logoutCtx w of
                  (Inl (Panic s), w) \<Rightarrow> (Inl (Panic s), w)
                | (Inl (Fail e), w) \<Rightarrow> (res, emit (LogLogoutFailed e) w)
                | (Inr _, w) \<Rightarrow> (res, w)))"

definition Run :: "runner \<Rightarrow> ctx_t \<Rightarrow> nat \<Rightarrow> world \<Rightarrow> ((exc + unit) \<times> world) option" where
  "Run r ctx rounds w =
     (if HeartbeatInterval (rcfg r) \<le> 0
      then Some (Inl (Fail (Errorf ''heartbeat interval must be positive'')), w)
      else case Login r ctx w of
        (Inl (Panic s), w) \<Rightarrow> Some (Inl (Panic s), w)
      | (Inl (Fail e), w) \<Rightarrow> Some (Inl (Fail e), setState r StateFailed w)
      | (Inr _, w) \<Rightarrow> map_option (deferred_logout r ctx) (heartbeat_loop r ctx rounds w))"

section \<open>What one run does to the world\<close>

text \<open>
  The events that mark progress: everything but the per-exchange debug line and the callback.
\<close>

fun is_milestone :: "event \<Rightarrow> bool" where
  "is_milestone (LogExchange _ _ _ _) = False"
| "is_milestone (EvNotify _) = False"
| "is_milestone _ = True"

definition milestones :: "event list \<Rightarrow> event list" where
  "milestones es = filter is_milestone es"

lemma milestones_append [simp]: "milestones (xs @ ys) = milestones xs @ milestones ys"
  by (simp add: milestones_def)

text \<open>The random reader is nil or has run dry: the only source of a panic.\<close>

definition dry :: "reader \<Rightarrow> bool" where
  "dry g = (case g of None \<Rightarrow> True | Some bs \<Rightarrow> length bs < 4)"

text \<open>
  \<open>delay_after G es d\<close>: the variable \<open>delay\<close> after the announcements in \<open>es\<close>, when the callback
  applies \<open>G\<close> to it. \<open>went S G c n ms w w'\<close>: from \<open>w\<close> to \<open>w'\<close> the program waited at most \<open>n\<close> nanoseconds, let
  itself be interrupted by \<open>c\<close>, sent packets to \<open>S\<close> only, reached the milestones \<open>ms\<close>, left
  \<open>delay\<close> to the callback, and did not refill the random reader.
\<close>

definition delay_after :: "(State \<Rightarrow> int \<Rightarrow> int) \<Rightarrow> event list \<Rightarrow> int \<Rightarrow> int" where
  "delay_after G es d = fold (\<lambda>e d. case e of EvState s \<Rightarrow> G s d | _ \<Rightarrow> d) es d"

lemma delay_after_simps [simp]:
  "delay_after G [] d = d"
  "delay_after G (e # es) d = delay_after G es (case e of EvState s \<Rightarrow> G s d | _ \<Rightarrow> d)"
  "delay_after G (xs @ ys) d = delay_after G ys (delay_after G xs d)"
  by (simp_all add: delay_after_def)

definition went ::
    "(udp_addr \<Rightarrow> bool) \<Rightarrow> (State \<Rightarrow> int \<Rightarrow> int) \<Rightarrow> ctx_t \<Rightarrow> int \<Rightarrow> event list \<Rightarrow> world \<Rightarrow> world \<Rightarrow> bool" where
  "went S G c n ms w w' \<longleftrightarrow> now w \<le> now w' \<and> now w' + busy w' \<le> now w + busy w + n \<and> busy w' \<le> busy w
     \<and> (\<forall>d. ctx_done c = Some d \<longrightarrow> due d w' \<le> due d w) \<and> net w' = net w
     \<and> (\<exists>new. sent w' = sent w @ new \<and> (\<forall>a \<in> fst ` set new. S a))
     \<and> (\<exists>new. rcvd w' = rcvd w @ new)
     \<and> (\<exists>new. trace w' = trace w @ new \<and> milestones new = ms)
     \<and> (dry (rng w) \<longrightarrow> dry (rng w')) \<and> delay w' = delay_after G ms (delay w)"

lemma went_trans:
  assumes "went S G c m a w w1" and "went S G c n b w1 w2"
  shows "went S G c (m + n) (a @ b) w w2"
proof -
  obtain s1 s2 t1 t2 where s: "sent w1 = sent w @ s1" "\<forall>x \<in> fst ` set s1. S x"
      "sent w2 = sent w1 @ s2" "\<forall>x \<in> fst ` set s2. S x"
    and t: "trace w1 = trace w @ t1" "milestones t1 = a" "trace w2 = trace w1 @ t2" "milestones t2 = b"
    using assms unfolding went_def by blast
  have "sent w2 = sent w @ (s1 @ s2)" "\<forall>x \<in> fst ` set (s1 @ s2). S x"
    "trace w2 = trace w @ (t1 @ t2)" "milestones (t1 @ t2) = a @ b"
    using s t by auto
  moreover have "\<exists>new. rcvd w2 = rcvd w @ new"
    using assms unfolding went_def by (metis append.assoc)
  moreover have "\<forall>d. ctx_done c = Some d \<longrightarrow> due d w2 \<le> due d w"
    using assms unfolding went_def by (meson order_trans)
  moreover have "now w \<le> now w2" "now w2 + busy w2 \<le> now w + busy w + (m + n)" "busy w2 \<le> busy w"
    "net w2 = net w" "dry (rng w) \<longrightarrow> dry (rng w2)"
    "delay w2 = delay_after G (a @ b) (delay w)"
    using assms unfolding went_def by auto
  ultimately show ?thesis
    unfolding went_def by blast
qed

lemma went_mono: "went S G c m ms w w' \<Longrightarrow> m \<le> n \<Longrightarrow> went S G c n ms w w'"
  by (auto simp: went_def)

text \<open>The same without the interruption: what is left when the context is replaced.\<close>

lemma went_any: "went S G c n ms w w' \<Longrightarrow> went S G no_ctx n ms w w'"
  by (simp add: went_def no_ctx_def ctx_done_def)

lemma went_refl: "0 \<le> n \<Longrightarrow> went S G c n [] w w"
  by (simp add: went_def milestones_def)

lemma went_pause: "went S G c 0 [] w (pause w)"
  by (simp add: went_def milestones_def now_pause busy_pause due_pause)

text \<open>Assignments to the program's own variables, and log lines.\<close>

lemma went_upd:
  assumes "now w' = now w" "lags w' = lags w" "net w' = net w" "sent w' = sent w" "rcvd w' = rcvd w"
    "dry (rng w) \<longrightarrow> dry (rng w')" "delay w' = delay_after G (milestones new) (delay w)"
    and "trace w' = trace w @ new"
  shows "went S G c 0 (milestones new) w w'"
  using assms by (simp add: went_def busy_def due_def)

lemma went_upd_nil:
  assumes "now w' = now w" "lags w' = lags w" "net w' = net w" "sent w' = sent w" "rcvd w' = rcvd w"
    "dry (rng w) \<longrightarrow> dry (rng w')" "delay w' = delay w"
    and "trace w' = trace w"
  shows "went S G c 0 [] w w'"
  using went_upd [where w' = w' and w = w and new = "[]"] assms by (simp add: milestones_def)

lemma went_emit: "is_milestone e \<Longrightarrow> (\<forall>s. e \<noteq> EvState s) \<Longrightarrow> went S G c 0 [e] w (emit e w)"
  using went_upd [where w' = "emit e w" and w = w and new = "[e]"]
  by (cases e) (simp_all add: emit_def milestones_def)

lemma errors_Is_timeout:
  "errors_Is e ErrTimeout \<Longrightarrow> \<not> errors_Is e ErrRejected \<and> \<not> errors_Is e ErrAuthenticationRejected"
  by (induction e) auto

text \<open>An attempt after the exchanger has returned without a panic or an unmatched reply.\<close>

definition attempt_log :: "runner \<Rightarrow> string \<Rightarrow> bytes \<Rightarrow> exc + bytes \<Rightarrow> event list" where
  "attempt_log r name p y =
     (if DebugHexDump (rcfg r)
      then [LogExchange name (length p) (case y of Inr b \<Rightarrow> length b | Inl _ \<Rightarrow> 0)
             (case y of Inl (Fail e) \<Rightarrow> Some e | _ \<Rightarrow> None)]
      else [])"

lemma attempt_log_milestones [simp]: "milestones (attempt_log r name p y) = []"
  by (simp add: attempt_log_def milestones_def)

lemma attempt_eq:
  assumes "rExchange r c p (Some match) w = (y, w1)"
    and "\<And>b. y = Inr b \<Longrightarrow> match b = Some (Inr True)"
  shows "attempt r c name p match w =
     (case y of
        Inl (Panic s) \<Rightarrow> (Inl (Panic s), w1)
      | Inl (Fail e) \<Rightarrow> (Inl (Fail e), w1\<lparr>resp := [], trace := trace w1 @ attempt_log r name p y\<rparr>)
      | Inr b \<Rightarrow> (Inr (), w1\<lparr>resp := b, trace := trace w1 @ attempt_log r name p y\<rparr>))"
proof (cases y)
  case (Inl z)
  then show ?thesis
    using assms(1) by (cases z) (simp_all add: attempt_def attempt_log_def emit_def)
next
  case (Inr b)
  then show ?thesis
    using assms(1) assms(2) [OF Inr] by (simp add: attempt_def attempt_log_def emit_def)
qed

section \<open>The client side of the exchanger interface\<close>

locale runner_env = exchanger "rExchange r" T S
  for r :: runner and T :: int and S :: "udp_addr \<Rightarrow> bool" and G :: "State \<Rightarrow> int \<Rightarrow> int" +
  assumes callback: "rOnState r = Some f \<Longrightarrow>
    \<exists>es. f s w = w\<lparr>trace := trace w @ es, delay := G s (delay w)\<rparr> \<and> set es \<subseteq> range EvNotify"
    and no_callback: "rOnState r = None \<Longrightarrow> G s d = d"

context runner_env
begin

lemma setState_vars [simp]:
  "sess (setState r s w) = sess w" "rng (setState r s w) = rng w" "rstate (setState r s w) = s"
  "rcvd (setState r s w) = rcvd w"
proof -
  have "sess (setState r s w) = sess w \<and> rng (setState r s w) = rng w \<and> rstate (setState r s w) = s
    \<and> rcvd (setState r s w) = rcvd w"
  proof (cases "rOnState r")
    case (Some f)
    then show ?thesis
      using callback [OF Some, of s "emit (EvState s) (w\<lparr>rstate := s\<rparr>)"]
      by (auto simp: setState_def Let_def emit_def)
  qed (simp add: setState_def emit_def)
  then show "sess (setState r s w) = sess w" "rng (setState r s w) = rng w" "rstate (setState r s w) = s"
    "rcvd (setState r s w) = rcvd w"
    by simp_all
qed

lemma setState_went: "went S G c 0 [EvState s] w (setState r s w)"
proof (cases "rOnState r")
  case None
  then show ?thesis
    using went_upd [where w' = "setState r s w" and w = w and new = "[EvState s]"]
    by (simp add: setState_def emit_def milestones_def no_callback)
next
  case (Some f)
  define v where "v = emit (EvState s) (w\<lparr>rstate := s\<rparr>)"
  obtain es where f: "f s v = v\<lparr>trace := trace v @ es, delay := G s (delay v)\<rparr>" and es: "set es \<subseteq> range EvNotify"
    using callback [OF Some] by blast
  have "filter is_milestone es = []"
    using es by (induction es) auto
  moreover have "setState r s w = v\<lparr>trace := trace v @ es, delay := G s (delay v)\<rparr>"
    using f by (simp add: setState_def Some v_def)
  ultimately show ?thesis
    using went_upd [where w' = "setState r s w" and w = w and new = "EvState s # es" and G = G]
    by (simp add: v_def emit_def milestones_def)
qed

text \<open>A reply that came from the server between \<open>w\<close> and \<open>w'\<close>.\<close>

definition came :: "bytes \<Rightarrow> world \<Rightarrow> world \<Rightarrow> bool" where
  "came q w w' \<longleftrightarrow> (\<exists>a new. S a \<and> rcvd w' = rcvd w @ new \<and> (a, q) \<in> set new)"

text \<open>The last datagram between \<open>w\<close> and \<open>w'\<close> came from the server and satisfies \<open>P\<close>.\<close>

definition ended_by :: "(bytes \<Rightarrow> bool) \<Rightarrow> world \<Rightarrow> world \<Rightarrow> bool" where
  "ended_by P w w' \<longleftrightarrow> (\<exists>a q new. S a \<and> rcvd w' = rcvd w @ new @ [(a, q)] \<and> P q)"

lemma ended_by_came: "ended_by ((=) q) w w' \<Longrightarrow> came q w w'"
  unfolding ended_by_def came_def by auto

lemma ended_by_frame: "rcvd v = rcvd w \<Longrightarrow> rcvd v' = rcvd w' \<Longrightarrow> ended_by P v v' = ended_by P w w'"
  by (simp add: ended_by_def)

lemma ended_by_snoc: "rcvd w' = rcvd w @ new @ [x] \<Longrightarrow> ended_by P w w' \<longleftrightarrow> S (fst x) \<and> P (snd x)"
  by (cases x) (auto simp: ended_by_def)

lemma ended_by_later:
  assumes "\<exists>n. rcvd w1 = rcvd w @ n" and "\<exists>n. rcvd w2 = rcvd w1 @ n"
  shows "ended_by P w w2 \<longleftrightarrow> ended_by P w1 w2 \<or> rcvd w2 = rcvd w1 \<and> ended_by P w w1"
proof -
  obtain n1 n2 where n: "rcvd w1 = rcvd w @ n1" "rcvd w2 = rcvd w1 @ n2"
    using assms by blast
  show ?thesis
  proof (cases n2 rule: rev_cases)
    case Nil
    then show ?thesis using n by (simp add: ended_by_def)
  next
    case (snoc m x)
    then have "ended_by P w w2 \<longleftrightarrow> S (fst x) \<and> P (snd x)" "ended_by P w1 w2 \<longleftrightarrow> S (fst x) \<and> P (snd x)"
      using n ended_by_snoc [of w2 w "n1 @ m" x] ended_by_snoc [of w2 w1 m x] by simp_all
    then show ?thesis using n snoc by auto
  qed
qed

lemma attempt_spec:
  assumes "attempt r c name p (ResponseMatcher p af) w = (x, w')"
  shows "went S G c T [] w w'" and "sess w' = sess w \<and> rng w' = rng w \<and> rstate w' = rstate w"
    and "case x of Inr _ \<Rightarrow> accepts p af (resp w') \<and> ended_by ((=) (resp w')) w w'
         | Inl (Panic s) \<Rightarrow> False
         | Inl (Fail e) \<Rightarrow> \<not> errors_Is e ErrAuthenticationRejected
               \<and> (errors_Is e ErrRejected \<longleftrightarrow> ended_by (rejects p) w w')"
proof -
  let ?m = "ResponseMatcher p af"
  obtain y w1 where X: "rExchange r c p (Some ?m) w = (y, w1)" by (rule prod.exhaust)
  have np: "y \<noteq> Inl (Panic s)" for s
    using total [OF X [THEN trans]] X by (auto simp: ResponseMatcher_eq)
  have ok: "accepts p af b \<and> ended_by ((=) b) w w1" if "y = Inr b" for b
    using matched [OF X [unfolded that]] by (auto simp: ResponseMatcher_eq ended_by_def split: if_splits)
  have nauth: "\<not> errors_Is e ErrAuthenticationRejected" if "y = Inl (Fail e)" for e
    using rejected [OF X [unfolded that(1)]] by (auto simp: ResponseMatcher_eq split: if_splits)
  have rej: "errors_Is e ErrRejected \<longleftrightarrow> ended_by (rejects p) w w1" if "y = Inl (Fail e)" for e
  proof
    assume "errors_Is e ErrRejected"
    then show "ended_by (rejects p) w w1"
      using rejected [OF X [unfolded that(1)]] by (force simp: ResponseMatcher_eq ended_by_def split: if_splits)
  next
    assume "ended_by (rejects p) w w1"
    then obtain a q new where "S a" "rcvd w1 = rcvd w @ new @ [(a, q)]" "rejects p q"
      unfolding ended_by_def by blast
    then have "y = Inl (Fail ErrRejected)"
      by (intro decided [OF X]) (simp_all add: ResponseMatcher_eq)
    then show "errors_Is e ErrRejected" using that by simp
  qed
  have w1: "went S G c T [] w w1"
    unfolding went_def
  proof (intro conjI allI impI)
    show "due d w1 \<le> due d w" if "ctx_done c = Some d" for d by (rule prompt [OF X that])
    show "\<exists>new. sent w1 = sent w @ new \<and> (\<forall>a \<in> fst ` set new. S a)"
      using one_send [OF X]
    proof
      assume "sent w1 = sent w"
      then show ?thesis by (intro exI [of _ "[]"]) simp
    next
      assume "\<exists>a. S a \<and> sent w1 = sent w @ [(a, p)]"
      then show ?thesis by auto
    qed
    show "\<exists>new. trace w1 = trace w @ new \<and> milestones new = []"
      using frame [OF X] by (simp add: same_local_def milestones_def)
  qed (use frame [OF X] forward [OF X] bounded [OF X] lags_used [OF X] receives [OF X] in
      \<open>simp_all add: same_local_def\<close>)
  have m: "?m b = Some (Inr True)" if "y = Inr b" for b
    using matched [OF X [unfolded that]] by simp
  have upd: "went S G c T [] w w'" "sess w' = sess w \<and> rng w' = rng w \<and> rstate w' = rstate w"
    "ended_by P w w' = ended_by P w w1"
    if "w' = w1\<lparr>resp := rs, trace := trace w1 @ attempt_log r name p y\<rparr>" for rs P
  proof -
    have "went S G c 0 (milestones (attempt_log r name p y)) w1 w'"
      unfolding that by (rule went_upd) simp_all
    from went_trans [OF w1 this] show "went S G c T [] w w'" by simp
    show "sess w' = sess w \<and> rng w' = rng w \<and> rstate w' = rstate w" "ended_by P w w' = ended_by P w w1"
      using frame [OF X] that by (simp_all add: same_local_def ended_by_def)
  qed
  note eq = attempt_eq [of r c p ?m w y w1 name, OF X m, unfolded assms]
  consider e where "y = Inl (Fail e)" | b where "y = Inr b"
    using np by (cases y; cases "projl y") auto
  then have "went S G c T [] w w' \<and> (sess w' = sess w \<and> rng w' = rng w \<and> rstate w' = rstate w)
    \<and> (case x of Inr _ \<Rightarrow> accepts p af (resp w') \<and> ended_by ((=) (resp w')) w w'
         | Inl (Panic s) \<Rightarrow> False
         | Inl (Fail e) \<Rightarrow> \<not> errors_Is e ErrAuthenticationRejected
               \<and> (errors_Is e ErrRejected \<longleftrightarrow> ended_by (rejects p) w w'))"
  proof cases
    case (1 e)
    then have w': "w' = w1\<lparr>resp := [], trace := trace w1 @ attempt_log r name p y\<rparr>" and x: "x = Inl (Fail e)"
      using eq by simp_all
    show ?thesis
      using upd [OF w'] rej [OF 1] nauth [OF 1] x by simp
  next
    case (2 b)
    then have w': "w' = w1\<lparr>resp := b, trace := trace w1 @ attempt_log r name p y\<rparr>" and x: "x = Inr ()"
      using eq by simp_all
    show ?thesis
      using upd [OF w'] ok [OF 2] x w' by simp
  qed
  then show "went S G c T [] w w'" and "sess w' = sess w \<and> rng w' = rng w \<and> rstate w' = rstate w"
    and "case x of Inr _ \<Rightarrow> accepts p af (resp w') \<and> ended_by ((=) (resp w')) w w'
         | Inl (Panic s) \<Rightarrow> False
         | Inl (Fail e) \<Rightarrow> \<not> errors_Is e ErrAuthenticationRejected
               \<and> (errors_Is e ErrRejected \<longleftrightarrow> ended_by (rejects p) w w')"
    by blast+
qed

lemma came_extend: "went S G c n ms w w1 \<Longrightarrow> came q w1 w2 \<Longrightarrow> came q w w2"
  unfolding came_def went_def by (metis Un_iff append.assoc set_append)

lemma went_prefix: "came q w w1 \<Longrightarrow> went S G c n ms w1 w2 \<Longrightarrow> came q w w2"
  unfolding came_def went_def by (metis Un_iff append.assoc set_append)

lemma timed_out_went:
  assumes "timed_out c (attempt r c name p (ResponseMatcher p af)) n w v"
  shows "went S G c (int n * T) [] w v \<and> sess v = sess w \<and> rng v = rng w \<and> rstate v = rstate w"
  using assms
proof (induction rule: timed_out.induct)
  case (timed_out_0 w)
  show ?case by (simp add: went_refl)
next
  case (timed_out_Suc w w1 e w2 n w3)
  have "w1 = pause w"
    using timed_out_Suc.hyps(1) by (simp add: ctx_Err_eq)
  then have "went S G c (0 + (T + int n * T)) ([] @ [] @ []) w w3"
    using went_pause attempt_spec(1) [OF timed_out_Suc.hyps(2)] timed_out_Suc.IH by (blast intro: went_trans)
  moreover have "0 + (T + int n * T) = int (Suc n) * T"
    by (simp add: algebra_simps)
  ultimately show ?case
    using attempt_spec(2) [OF timed_out_Suc.hyps(2)] timed_out_Suc.IH \<open>w1 = pause w\<close> by simp
qed

text \<open>An attempt that timed out did not end with a rejection.\<close>

lemma timed_out_unrefused:
  assumes "timed_out c (attempt r c name p (ResponseMatcher p af)) n w v"
  shows "(\<exists>new. rcvd v = rcvd w @ new) \<and> \<not> ended_by (rejects p) w v"
  using assms
proof (induction rule: timed_out.induct)
  case (timed_out_0 w)
  show ?case by (simp add: ended_by_def)
next
  case (timed_out_Suc w w1 e w2 n w3)
  have w1: "w1 = pause w"
    using timed_out_Suc.hyps(1) by (simp add: ctx_Err_eq)
  note sp = attempt_spec [OF timed_out_Suc.hyps(2)]
  have r2: "\<exists>new. rcvd w2 = rcvd w @ new"
    using sp(1) by (simp add: went_def w1)
  moreover have "\<not> ended_by (rejects p) w w2"
    using sp(3) errors_Is_timeout timed_out_Suc.hyps(3) ended_by_frame [of w1 w w2 w2] by (simp add: w1 IsTimeout_def)
  ultimately show ?case
    using timed_out_Suc.IH ended_by_later [OF r2, of w3 "rejects p"] by auto
qed

text \<open>What the runner may conclude from one of its exchanges.\<close>

definition tries :: nat where
  "tries = nat (max 1 (RetryCount (rcfg r) + 1))"

definition outcome_ok :: "bytes \<Rightarrow> bool \<Rightarrow> exc + bytes \<Rightarrow> world \<Rightarrow> world \<Rightarrow> bool" where
  "outcome_ok p af x w w' \<longleftrightarrow>
     (case x of
        Inr q \<Rightarrow> accepts p af q \<and> ended_by ((=) q) w w'
      | Inl (Panic s) \<Rightarrow> False
      | Inl (Fail e) \<Rightarrow> \<not> errors_Is e ErrAuthenticationRejected
               \<and> (errors_Is e ErrRejected \<longleftrightarrow> ended_by (rejects p) w w'))"

lemma exchange_spec:
  assumes "exchange r c name p af w = (x, w')"
  shows "went S G c (int tries * T) [] w w'" and "sess w' = sess w" and "rng w' = rng w"
    and "rstate w' = rstate w" and "outcome_ok p af x w w'"
proof -
  let ?f = "attempt r c name p (ResponseMatcher p af)"
  let ?w = "w\<lparr>resp := []\<rparr>"
  obtain y v' where R: "RetryExchange c (RetryCount (rcfg r) + 1) ?f ?w = (y, v')" by (rule prod.exhaust)
  have v': "w' = v'" and x: "x = (case y of Inl (Panic s) \<Rightarrow> Inl (Panic s)
      | Inl (Fail e) \<Rightarrow> Inl (Fail (Wrapf name e)) | Inr _ \<Rightarrow> Inr (resp v'))"
    using assms R by (auto simp: exchange_def Let_def split: sum.splits exc.splits)
  have w0: "went S G c 0 [] w ?w" by (rule went_upd_nil) simp_all
  from RetryExchange_outcome [OF R] obtain n v where t: "timed_out c ?f n ?w v"
    and alt: "n < tries \<and> retry_end c ?f v y v' \<or> n = tries \<and> v = v'
        \<and> (\<exists>e. y = Inl (Fail (Wrapf ''exchange failed after attempts'' e)) \<and> IsTimeout e)"
    unfolding tries_def by blast
  have wv: "went S G c (int n * T) [] w v" and vars: "sess v = sess w" "rng v = rng w" "rstate v = rstate w"
    using went_trans [OF w0] timed_out_went [OF t] by fastforce+
  have rv: "\<exists>new. rcvd v = rcvd w @ new" "\<not> ended_by (rejects p) w v"
    using timed_out_unrefused [OF t] ended_by_frame [of ?w w v v] by simp_all
  have fin: "went S G c (int tries * T) [] w w' \<and> sess w' = sess w \<and> rng w' = rng w \<and> rstate w' = rstate w
     \<and> outcome_ok p af x w w'"
    using alt
  proof
    assume A: "n = tries \<and> v = v' \<and> (\<exists>e. y = Inl (Fail (Wrapf ''exchange failed after attempts'' e)) \<and> IsTimeout e)"
    then show ?thesis
      using wv vars v' x errors_Is_timeout rv by (auto simp: outcome_ok_def IsTimeout_def)
  next
    assume A: "n < tries \<and> retry_end c ?f v y v'"
    have le: "int n * T + T \<le> int tries * T"
    proof -
      have "int n * T + T = int (Suc n) * T" by (simp add: algebra_simps)
      also have "\<dots> \<le> int tries * T"
        using A T_nonneg by (intro mult_right_mono) auto
      finally show ?thesis .
    qed
    have wp: "went S G c (int n * T) [] w (pause v)"
      using went_trans [OF wv went_pause] by simp
    have call: "went S G c (int tries * T) [] w w' \<and> sess w' = sess w \<and> rng w' = rng w \<and> rstate w' = rstate w
        \<and> (case z of Inr _ \<Rightarrow> accepts p af (resp w') \<and> ended_by ((=) (resp w')) w w'
             | Inl (Panic s) \<Rightarrow> False
             | Inl (Fail e) \<Rightarrow> \<not> errors_Is e ErrAuthenticationRejected
               \<and> (errors_Is e ErrRejected \<longleftrightarrow> ended_by (rejects p) w w'))"
      if f: "?f (pause v) = (z, v')" for z
    proof -
      note sp = attempt_spec [OF f]
      have "\<exists>n. rcvd v' = rcvd v @ n"
        using sp(1) by (simp add: went_def)
      then have later: "ended_by (rejects p) (pause v) v' = ended_by (rejects p) w v'"
          "ended_by ((=) q) (pause v) v' \<Longrightarrow> ended_by ((=) q) w v'" for q
        using ended_by_later [OF rv(1), of v'] ended_by_frame [of "pause v" v v' v'] rv(2) by auto
      have "went S G c (int tries * T) [] w v'"
        using went_mono [OF went_trans [OF wp sp(1)] le] by simp
      then show ?thesis
        using sp(2) vars v' sp(3) later by (auto split: sum.splits exc.splits)
    qed
    from A have "retry_end c ?f v y v'" ..
    then show ?thesis
    proof cases
      case (cancelled e)
      then have "w' = pause v" "e = ctx_cause c"
        using v' by (auto simp: ctx_Err_eq dest: ctx_err_at_cause)
      moreover have "went S G c (int tries * T) [] w (pause v)"
        by (rule went_mono [OF wp]) (use le T_nonneg in linarith)
      moreover have "\<not> ended_by (rejects p) w (pause v)"
        using rv(2) ended_by_frame [of w w "pause v" v] by simp
      then have "outcome_ok p af (Inl (Fail (Wrapf name (ctx_cause c)))) w (pause v)"
        using ctx_cause_cases [of c] by (auto simp: outcome_ok_def)
      moreover have "x = Inl (Fail (Wrapf name e))" using cancelled x by simp
      ultimately show ?thesis using vars by simp
    next
      case (success w1 u)
      then show ?thesis
        using call x v' by (auto simp: ctx_Err_eq outcome_ok_def)
    next
      case (error w1 e)
      then show ?thesis
        using call x v' by (auto simp: ctx_Err_eq outcome_ok_def)
    next
      case (panic w1 s)
      then show ?thesis
        using call x v' by (auto simp: ctx_Err_eq outcome_ok_def)
    qed
  qed
  then show "went S G c (int tries * T) [] w w'" "sess w' = sess w" "rng w' = rng w" "rstate w' = rstate w"
    "outcome_ok p af x w w'"
    by blast+
qed

end

end
