(* ===== verification/Client.thy ===== *)
theory Client
  imports Runner
begin

text \<open>
  What the operations of \<open>runner.go\<close> guarantee, proved once from the \<open>exchanger\<close> interface (locale
  \<open>runner_env\<close>): the milestones each operation emits, the time it takes, the session it leaves, and
  the reasons for which it fails. The properties at the end are these facts for the runner that
  \<open>New\<close> builds on the UDP transport.
\<close>

unbundle bit_operations_syntax

section \<open>Requests and the random source\<close>

lemma mustReadRandom_None: "mustReadRandom g n = None \<Longrightarrow> n \<le> 4 \<Longrightarrow> dry g"
  by (auto simp: mustReadRandom_def dry_def split: option.splits if_splits)

lemma mustReadRandom_dry: "mustReadRandom g n = Some (bs, g') \<Longrightarrow> dry g \<Longrightarrow> dry g'"
  by (auto simp: mustReadRandom_def dry_def split: option.splits if_splits)

lemma reader_cases:
  assumes "n \<le> 4"
  obtains "mustReadRandom g n = None" "dry g" | bs where "g = Some bs" "n \<le> length bs"
  using assms that by (cases g; cases "n \<le> length (the g)") (auto simp: mustReadRandom_def dry_def)

text \<open>The shape of each request, and a dry reader as the only reason not to get one.\<close>

lemma login_challenge_request:
  "case BuildLoginChallenge av g of
     None \<Rightarrow> dry g
   | Some (p, g') \<Rightarrow> (p \<noteq> [] \<and> p ! 0 = 0x01 \<and> p ! 1 = 0x02) \<and> (dry g \<longrightarrow> dry g')"
  by (rule reader_cases [of 2 g])
    (simp, simp add: BuildLoginChallenge_def, auto simp: BuildLoginChallenge_layout challenge_layout_def dry_def)

lemma logout_challenge_request:
  "case BuildLogoutChallenge av g of
     None \<Rightarrow> dry g
   | Some (p, g') \<Rightarrow> (p \<noteq> [] \<and> p ! 0 = 0x01 \<and> p ! 1 = 0x03) \<and> (dry g \<longrightarrow> dry g')"
  by (rule reader_cases [of 2 g])
    (simp, simp add: BuildLogoutChallenge_def, auto simp: BuildLogoutChallenge_layout challenge_layout_def dry_def)

lemma login_request:
  "case BuildLoginPacket cfg s g of
     None \<Rightarrow> dry g
   | Some (p, s', g') \<Rightarrow> p \<noteq> [] \<and> p ! 0 = 0x03 \<and> s' = s\<lparr>MD5Password := login_md5a cfg s\<rparr>
       \<and> (dry g \<longrightarrow> dry g')"
  by (auto simp: mustReadRandom_dry BuildLoginPacket_layout_aux login_layout_def login_layout_body_def login_layout_head_def Let_def
      nth_append split: option.split dest: mustReadRandom_None)

lemma first_request: "case BuildFirstHeartbeat cfg s g of None \<Rightarrow> dry g | Some (p, g') \<Rightarrow> p ! 0 = 0x07 \<and> (dry g \<longrightarrow> dry g')"
  by (rule reader_cases [of 4 g])
    (simp, simp add: BuildFirstHeartbeat_def buildHeartbeatBase_def,
      simp add: BuildFirstHeartbeat_layout heartbeat_layout_def dry_def)

lemma extra_request: "case BuildExtraHeartbeat cfg s g of None \<Rightarrow> dry g | Some (p, g') \<Rightarrow> p ! 0 = 0x07 \<and> (dry g \<longrightarrow> dry g')"
  by (rule reader_cases [of 4 g])
    (simp, simp add: BuildExtraHeartbeat_def buildHeartbeatBase_def,
      simp add: BuildExtraHeartbeat_layout heartbeat_layout_def dry_def)

lemma step1_request:
  "case BuildHeartbeatStep1 cfg s g of
     None \<Rightarrow> dry g
   | Some (p, g') \<Rightarrow> (p ! 0 = 0x07 \<and> p ! 1 = ucast (HeartbeatCount s) \<and> p ! 5 = 0x01)
       \<and> (dry g \<longrightarrow> dry g')"
  by (rule reader_cases [of 4 g])
    (simp, simp add: BuildHeartbeatStep1_def buildHeartbeatBase_def,
      simp add: BuildHeartbeatStep1_layout heartbeat_layout_def dry_def)

text \<open>Builders as steps of the world.\<close>

lemma with_rng_spec:
  assumes "with_rng build w = (x, w')"
    and "case build (sess w) (rng w) of None \<Rightarrow> dry (rng w) | Some (p, g') \<Rightarrow> P p \<and> (dry (rng w) \<longrightarrow> dry g')"
  shows "went S G c 0 [] w w'" and "sess w' = sess w" and "rstate w' = rstate w"
    and "case x of Inr p \<Rightarrow> P p | Inl (Panic s) \<Rightarrow> dry (rng w') | Inl (Fail e) \<Rightarrow> False"
proof -
  have "w' = w \<and> x = Inl (Panic ''crypto/rand read'') \<and> dry (rng w)
      \<or> (\<exists>p g. x = Inr p \<and> w' = w\<lparr>rng := g\<rparr> \<and> P p \<and> (dry (rng w) \<longrightarrow> dry g))"
    using assms by (auto simp: with_rng_def split: option.splits)
  then show "went S G c 0 [] w w'" "sess w' = sess w" "rstate w' = rstate w"
    "case x of Inr p \<Rightarrow> P p | Inl (Panic s) \<Rightarrow> dry (rng w') | Inl (Fail e) \<Rightarrow> False"
    by (auto intro!: went_upd_nil)
qed

lemma login_packet_spec:
  assumes "login_packet cfg w = (x, w')"
  shows "went S G c 0 [] w w'" and "rstate w' = rstate w" and "rcvd w' = rcvd w"
    and "case x of Inr p \<Rightarrow> p \<noteq> [] \<and> p ! 0 = 0x03 \<and> sess w' = (sess w)\<lparr>MD5Password := login_md5a cfg (sess w)\<rparr>
         | Inl (Panic s) \<Rightarrow> dry (rng w') | Inl (Fail e) \<Rightarrow> False"
proof -
  have "w' = w \<and> x = Inl (Panic ''index out of range'') \<and> dry (rng w)
      \<or> (\<exists>p g. x = Inr p \<and> w' = w\<lparr>sess := (sess w)\<lparr>MD5Password := login_md5a cfg (sess w)\<rparr>, rng := g\<rparr>
            \<and> p \<noteq> [] \<and> p ! 0 = 0x03 \<and> (dry (rng w) \<longrightarrow> dry g))"
    using assms login_request [where cfg = cfg and s = "sess w" and g = "rng w"] by (auto simp: login_packet_def split: option.splits)
  then show "went S G c 0 [] w w'" "rstate w' = rstate w" "rcvd w' = rcvd w"
    "case x of Inr p \<Rightarrow> p \<noteq> [] \<and> p ! 0 = 0x03 \<and> sess w' = (sess w)\<lparr>MD5Password := login_md5a cfg (sess w)\<rparr>
         | Inl (Panic s) \<Rightarrow> dry (rng w') | Inl (Fail e) \<Rightarrow> False"
    by (auto intro!: went_upd_nil)
qed

section \<open>The operations\<close>

text \<open>A heartbeat raises the counter by two, or by three when the first or extra packet is due.\<close>

definition next_count :: "64 word \<Rightarrow> 64 word" where
  "next_count c = (if c = 0 \<or> c mod 21 = 0 then c + 3 else c + 2)"

context runner_env
begin

text \<open>The failures of an operation: never a panic unless the reader is dry, never a rejection of its own.\<close>

definition failure_ok :: "exc \<Rightarrow> world \<Rightarrow> bool" where
  "failure_ok x w' \<longleftrightarrow>
     (case x of Panic s \<Rightarrow> dry (rng w') | Fail e \<Rightarrow> \<not> errors_Is e ErrAuthenticationRejected)"

lemma exchange_failure:
  assumes "exchange r c name p af w = (Inl z, w')"
  shows "failure_ok z w'" and "z \<noteq> Panic s"
  using exchange_spec(5) [OF assms] by (auto simp: outcome_ok_def failure_ok_def split: exc.splits)

lemma exchange_reply:
  assumes "exchange r c name p af w = (Inr q, w')"
  shows "accepts p af q" and "came q w w'"
  using exchange_spec(5) [OF assms] ended_by_came by (simp_all add: outcome_ok_def)

abbreviation exchange_time :: int where
  "exchange_time \<equiv> int tries * T"

lemma exchange_time_nonneg: "0 \<le> exchange_time"
  using T_nonneg by simp

text \<open>
  \<open>triple c n m w Q F\<close>: run in \<open>w\<close> under the context \<open>c\<close>, the step \<open>m\<close> waits at most \<open>n\<close> and ends
  in \<open>Q\<close> with a value or in \<open>F\<close> with a failure; both see the milestones reached so far.
\<close>

definition triple ::
    "ctx_t \<Rightarrow> int \<Rightarrow> (world \<Rightarrow> (exc + 'a) \<times> world) \<Rightarrow> world
      \<Rightarrow> ('a \<Rightarrow> event list \<Rightarrow> world \<Rightarrow> bool) \<Rightarrow> (exc \<Rightarrow> event list \<Rightarrow> world \<Rightarrow> bool) \<Rightarrow> bool" where
  "triple c n m w Q F \<longleftrightarrow>
     (case m w of (x, w') \<Rightarrow>
        \<exists>ms. went S G c n ms w w' \<and> (case x of Inr a \<Rightarrow> Q a ms w' | Inl z \<Rightarrow> F z ms w'))"

lemma triple_bind:
  assumes "triple c n1 m w Q1 F1" and "0 \<le> n2" and "n = n1 + n2"
    and "\<And>z ms w1. went S G c n1 ms w w1 \<Longrightarrow> F1 z ms w1 \<Longrightarrow> F z ms w1"
    and "\<And>a ms w1. went S G c n1 ms w w1 \<Longrightarrow> Q1 a ms w1 \<Longrightarrow>
           triple c n2 (f a) w1 (\<lambda>b ms'. Q b (ms @ ms')) (\<lambda>z ms'. F z (ms @ ms'))"
  shows "triple c n (bindE m f) w Q F"
proof -
  obtain x w1 ms where m: "m w = (x, w1)" and went: "went S G c n1 ms w w1"
    and x: "case x of Inr a \<Rightarrow> Q1 a ms w1 | Inl z \<Rightarrow> F1 z ms w1"
    using assms(1) by (auto simp: triple_def split: prod.splits)
  show ?thesis
  proof (cases x)
    case (Inl z)
    then show ?thesis
      using m x assms(4) [OF went] went_mono [OF went, of n] assms(2,3) by (auto simp: triple_def)
  next
    case (Inr a)
    have "triple c n2 (f a) w1 (\<lambda>b ms'. Q b (ms @ ms')) (\<lambda>z ms'. F z (ms @ ms'))"
      using x Inr by (intro assms(5) [OF went]) simp
    then obtain y w2 ms' where "f a w1 = (y, w2)" "went S G c n2 ms' w1 w2"
      "case y of Inr b \<Rightarrow> Q b (ms @ ms') w2 | Inl z \<Rightarrow> F z (ms @ ms') w2"
      by (auto simp: triple_def split: prod.splits)
    then show ?thesis
      using m Inr went_trans [OF went] assms(3) by (fastforce simp: triple_def)
  qed
qed

lemma triple_conseq:
  assumes "triple c n m w Q1 F1" and "n \<le> n'"
    and "\<And>a ms w'. went S G c n ms w w' \<Longrightarrow> Q1 a ms w' \<Longrightarrow> Q a ms w'"
    and "\<And>z ms w'. went S G c n ms w w' \<Longrightarrow> F1 z ms w' \<Longrightarrow> F z ms w'"
  shows "triple c n' m w Q F"
proof -
  obtain x w' ms where m: "m w = (x, w')" and went: "went S G c n ms w w'"
    and x: "case x of Inr a \<Rightarrow> Q1 a ms w' | Inl z \<Rightarrow> F1 z ms w'"
    using assms(1) by (auto simp: triple_def split: prod.splits)
  then show ?thesis
    using went_mono [OF went assms(2)] assms(3,4) [OF went] by (auto simp: triple_def split: sum.splits)
qed

text \<open>The elementary steps.\<close>

lemma triple_lift:
  assumes "went S G c 0 ms w (g w)"
  shows "triple c 0 (liftE g) w (\<lambda>_ ms' w'. ms' = ms \<and> w' = g w) F"
  using assms by (auto simp: triple_def)

lemma triple_liftI:
  assumes "went S G c 0 ms w (g w)" and "Q () ms (g w)"
  shows "triple c 0 (liftE g) w Q F"
  using assms by (auto simp: triple_def)

lemma triple_exchange_last:
  "triple c exchange_time (exchange r c name p af) w
     (\<lambda>q ms w'. ms = [] \<and> accepts p af q \<and> ended_by ((=) q) w w' \<and> sess w' = sess w)
     (\<lambda>z ms w'. ms = [] \<and> failure_ok z w' \<and> sess w' = sess w
        \<and> (case z of Fail e \<Rightarrow> errors_Is e ErrRejected \<longleftrightarrow> ended_by (rejects p) w w' | Panic s \<Rightarrow> False))"
proof (cases "exchange r c name p af w")
  case (Pair x w')
  note sp = exchange_spec [OF Pair]
  show ?thesis
    unfolding triple_def Pair prod.case
    by (rule exI [of _ "[]"])
      (use sp in \<open>auto simp: outcome_ok_def failure_ok_def split: sum.splits exc.splits\<close>)
qed

lemma triple_exchange:
  "triple c exchange_time (exchange r c name p af) w
     (\<lambda>q ms w'. ms = [] \<and> accepts p af q \<and> came q w w' \<and> sess w' = sess w)
     (\<lambda>z ms w'. ms = [] \<and> failure_ok z w' \<and> sess w' = sess w)"
  by (rule triple_conseq [OF triple_exchange_last order_refl]) (simp_all add: ended_by_came)

lemma triple_with_rng:
  assumes "case build (sess w) (rng w) of None \<Rightarrow> dry (rng w) | Some (p, g') \<Rightarrow> P p \<and> (dry (rng w) \<longrightarrow> dry g')"
  shows "triple c 0 (with_rng build) w (\<lambda>p ms w'. ms = [] \<and> P p \<and> sess w' = sess w)
     (\<lambda>z ms w'. ms = [] \<and> failure_ok z w' \<and> (\<exists>s. z = Panic s))"
proof (cases "with_rng build w")
  case (Pair x w')
  note sp = with_rng_spec(1) [where S = S and G = G and c = c, OF Pair assms] with_rng_spec(2-) [OF Pair assms]
  show ?thesis
    unfolding triple_def Pair prod.case
    by (rule exI [of _ "[]"]) (use sp in \<open>auto simp: failure_ok_def split: sum.splits exc.splits\<close>)
qed

lemma triple_login_packet:
  "triple c 0 (login_packet cfg) w
     (\<lambda>p ms w'. ms = [] \<and> p \<noteq> [] \<and> p ! 0 = 0x03 \<and> sess w' = (sess w)\<lparr>MD5Password := login_md5a cfg (sess w)\<rparr>
        \<and> rcvd w' = rcvd w)
     (\<lambda>z ms w'. ms = [] \<and> failure_ok z w' \<and> rcvd w' = rcvd w)"
proof (cases "login_packet cfg w")
  case (Pair x w')
  note sp = login_packet_spec(1) [where S = S and G = G and c = c, OF Pair] login_packet_spec(2-) [OF Pair]
  show ?thesis
    unfolding triple_def Pair prod.case
    by (rule exI [of _ "[]"]) (use sp in \<open>auto simp: failure_ok_def split: sum.splits exc.splits\<close>)
qed

lemma triple_build:
  assumes "build (sess w) = Some p"
  shows "triple c 0 (build_with build) w (\<lambda>p' ms w'. ms = [] \<and> p' = p \<and> w' = w) F"
  using assms by (simp add: triple_def build_with_def went_refl)

lemma triple_salt:
  assumes "res = Some (Inr salt)"
  shows "triple c 0 (store_salt put res) w (\<lambda>_ ms w'. ms = [] \<and> w' = w\<lparr>sess := put salt (sess w)\<rparr>) F"
  using assms by (auto simp: triple_def store_salt_def intro!: exI [of _ "[]"] went_upd_nil)

lemma triple_parse:
  assumes "parse (sess w) = Some (Inr s)"
  shows "triple c 0 (parse_into parse) w (\<lambda>_ ms w'. ms = [] \<and> w' = w\<lparr>sess := s\<rparr>) F"
  using assms by (auto simp: triple_def parse_into_def intro!: exI [of _ "[]"] went_upd_nil)

lemma went_bump: "went S G c 0 [] w (bump_count w)"
  by (rule went_upd_nil) (simp_all add: bump_count_def)

lemma triple_KeepAliveAuth:
  "triple c exchange_time (KeepAliveAuth r c t) w
     (\<lambda>_ ms w'. ms = [] \<and> sess w' = sess w) (\<lambda>z ms w'. ms = [] \<and> failure_ok z w')"
  unfolding KeepAliveAuth_def
  by (rule triple_bind [OF triple_build [OF BuildKeepAliveAuth_layout]],
      rule exchange_time_nonneg, simp, assumption,
      rule triple_bind [OF triple_exchange])
    (auto simp: triple_def intro!: exI [of _ "[]"] went_refl)

lemma triple_extra_heartbeat:
  "triple c exchange_time (extra_heartbeat r c) w
     (\<lambda>_ ms w'. ms = [] \<and> sess w' =
        (if HeartbeatCount (sess w) = 0 \<or> HeartbeatCount (sess w) mod 21 = 0
         then (sess w)\<lparr>HeartbeatCount := HeartbeatCount (sess w) + 1\<rparr> else sess w))
     (\<lambda>z ms w'. ms = [] \<and> failure_ok z w')"
proof (cases "HeartbeatCount (sess w) = 0 \<or> HeartbeatCount (sess w) mod 21 = 0")
  case False
  then show ?thesis
    using exchange_time_nonneg by (auto simp: extra_heartbeat_def triple_def intro!: exI [of _ "[]"] went_refl)
next
  case True
  let ?cfg = "ProtocolConfig (rcfg r)"
  let ?build = "\<lambda>s. if HeartbeatCount s = 0 then BuildFirstHeartbeat ?cfg s else BuildExtraHeartbeat ?cfg s"
  have req: "case ?build (sess w) (rng w) of None \<Rightarrow> dry (rng w) | Some (p, g') \<Rightarrow> True \<and> (dry (rng w) \<longrightarrow> dry g')"
    using first_request [where cfg = ?cfg and s = "sess w" and g = "rng w"]
      extra_request [where cfg = ?cfg and s = "sess w" and g = "rng w"]
    by (auto split: option.splits)
  have "triple c exchange_time
      (bindE (with_rng ?build) (\<lambda>p. bindE (exchange r c ''first/extra heartbeat'' p True) (\<lambda>_. liftE bump_count)))
      w (\<lambda>_ ms w'. ms = [] \<and> sess w' = (sess w)\<lparr>HeartbeatCount := HeartbeatCount (sess w) + 1\<rparr>)
      (\<lambda>z ms w'. ms = [] \<and> failure_ok z w')"
  proof (rule triple_bind [OF triple_with_rng [where build = ?build and P = "\<lambda>_. True", OF req] exchange_time_nonneg])
    fix p :: bytes and ms :: "event list" and w1 :: world
    assume 1: "ms = [] \<and> True \<and> sess w1 = sess w"
    show "triple c exchange_time (bindE (exchange r c ''first/extra heartbeat'' p True) (\<lambda>_. liftE bump_count)) w1
        (\<lambda>_ ms' w'. ms @ ms' = [] \<and> sess w' = (sess w)\<lparr>HeartbeatCount := HeartbeatCount (sess w) + 1\<rparr>)
        (\<lambda>z ms' w'. ms @ ms' = [] \<and> failure_ok z w')"
      by (rule triple_bind [OF triple_exchange, of 0])
        (use 1 in \<open>auto intro!: triple_liftI [OF went_bump] simp: bump_count_def\<close>)
  qed simp_all
  then show ?thesis
    using True by (simp add: extra_heartbeat_def triple_def Let_def)
qed

lemma triple_keepalive_now:
  "triple c exchange_time (\<lambda>w. let w = pause w in KeepAliveAuth r c (now w) w) w
     (\<lambda>_ ms w'. ms = [] \<and> sess w' = sess w) (\<lambda>z ms w'. ms = [] \<and> failure_ok z w')"
proof (cases "KeepAliveAuth r c (now (pause w)) (pause w)")
  case (Pair x w')
  from triple_KeepAliveAuth [where c = c and t = "now (pause w)" and w = "pause w"]
  obtain ms where ms: "went S G c exchange_time ms (pause w) w'"
    and x: "case x of Inr a \<Rightarrow> ms = [] \<and> sess w' = sess (pause w) | Inl z \<Rightarrow> ms = [] \<and> failure_ok z w'"
    unfolding triple_def Pair prod.case by blast
  have "went S G c exchange_time ms w w'"
    using went_trans [OF went_pause ms] by simp
  then show ?thesis
    using Pair x by (auto simp: triple_def split: sum.splits)
qed

text \<open>The two heartbeat steps, from the end.\<close>

lemma triple_step2:
  "triple c exchange_time
     (bindE (build_with (\<lambda>s. BuildHeartbeatStep2 cfg s tok)) (\<lambda>step2.
      bindE (exchange r c ''heartbeat step2'' step2 False) (\<lambda>_.
      liftE (\<lambda>w. let w = bump_count w in emit (LogHeartbeat (HeartbeatCount (sess w))) w)))) w
     (\<lambda>_ ms w'. ms = [LogHeartbeat (HeartbeatCount (sess w) + 1)]
        \<and> sess w' = (sess w)\<lparr>HeartbeatCount := HeartbeatCount (sess w) + 1\<rparr>)
     (\<lambda>z ms w'. ms = [] \<and> failure_ok z w')"
proof (rule triple_bind [OF triple_build [OF BuildHeartbeatStep2_layout] exchange_time_nonneg])
  fix p :: bytes and ms :: "event list" and w1 :: world
  let ?log = "\<lambda>w. let w = bump_count w in emit (LogHeartbeat (HeartbeatCount (sess w))) w"
  have log: "went S G c 0 [LogHeartbeat (HeartbeatCount (sess v) + 1)] v (?log v)" for v
    using went_trans [OF went_bump [where w = v] went_emit [where e = "LogHeartbeat (HeartbeatCount (sess v) + 1)"]]
    by (simp add: bump_count_def Let_def)
  assume 1: "ms = [] \<and> p = heartbeat_layout (sess w) 0x03 (pKeepAliveVersion cfg) (arr_bytes tok)
     (arr_bytes (HeartbeatToken (sess w)))
     (arr_bytes (CRC (step2_prefix cfg (sess w) tok @ arr_bytes (pIP cfg))) @ arr_bytes (pIP cfg) @ zeros 8) \<and> w1 = w"
  show "triple c exchange_time (bindE (exchange r c ''heartbeat step2'' p False) (\<lambda>_. liftE ?log)) w1
     (\<lambda>_ ms' w'. ms @ ms' = [LogHeartbeat (HeartbeatCount (sess w) + 1)]
        \<and> sess w' = (sess w)\<lparr>HeartbeatCount := HeartbeatCount (sess w) + 1\<rparr>)
     (\<lambda>z ms' w'. ms @ ms' = [] \<and> failure_ok z w')"
  proof (rule triple_bind [OF triple_exchange, of 0])
    fix q :: bytes and ms1 :: "event list" and w2 :: world
    assume "ms1 = [] \<and> accepts p False q \<and> came q w1 w2 \<and> sess w2 = sess w1"
    with 1 show "triple c 0 (liftE ?log) w2
       (\<lambda>_ ms' w'. ms @ ms1 @ ms' = [LogHeartbeat (HeartbeatCount (sess w) + 1)]
          \<and> sess w' = (sess w)\<lparr>HeartbeatCount := HeartbeatCount (sess w) + 1\<rparr>)
       (\<lambda>z ms' w'. ms @ ms1 @ ms' = [] \<and> failure_ok z w')"
      by (intro triple_liftI [OF log]) (simp_all add: bump_count_def emit_def Let_def)
  qed (use 1 in simp_all)
qed simp_all

lemma triple_step1_build:
  "triple c 0 (with_rng (BuildHeartbeatStep1 cfg)) w
     (\<lambda>p ms w'. ms = [] \<and> (p ! 0 = 0x07 \<and> p ! 1 = ucast (HeartbeatCount (sess w)) \<and> p ! 5 = 0x01)
        \<and> sess w' = sess w)
     (\<lambda>z ms w'. ms = [] \<and> failure_ok z w' \<and> (\<exists>s. z = Panic s))"
  by (rule triple_with_rng) (rule step1_request)

lemma triple_steps:
  "triple c (2 * exchange_time)
     (bindE (with_rng (BuildHeartbeatStep1 cfg)) (\<lambda>step1.
      let randomToken = arr_of (take 4 (drop 8 step1)) in
      bindE (exchange r c ''heartbeat step1'' step1 False) (\<lambda>p.
      bindE (parse_into (ParseHeartbeatStep1Response p)) (\<lambda>_.
      bindE (liftE bump_count) (\<lambda>_.
      bindE (build_with (\<lambda>s. BuildHeartbeatStep2 cfg s randomToken)) (\<lambda>step2.
      bindE (exchange r c ''heartbeat step2'' step2 False) (\<lambda>_.
      liftE (\<lambda>w. let w = bump_count w in emit (LogHeartbeat (HeartbeatCount (sess w))) w)))))))) w
     (\<lambda>_ ms w'. ms = [LogHeartbeat (HeartbeatCount (sess w) + 2)]
        \<and> (\<exists>q. came q w w' \<and> sess w' = (sess w)\<lparr>HeartbeatToken := arr_of (take 4 (drop 16 q)),
             HeartbeatCount := HeartbeatCount (sess w) + 2\<rparr>))
     (\<lambda>z ms w'. ms = [] \<and> failure_ok z w')"
  (is "triple c _ (bindE _ ?rest) w ?Q ?F")
proof (rule triple_bind [OF triple_step1_build])
  let ?s = "sess w"
  fix p :: bytes and ms :: "event list" and w1 :: world
  assume "went S G c 0 ms w w1"
    and 1: "ms = [] \<and> (p ! 0 = 0x07 \<and> p ! 1 = ucast (HeartbeatCount ?s) \<and> p ! 5 = 0x01) \<and> sess w1 = ?s"
  then have w1: "went S G c 0 [] w w1" by simp
  show "triple c (2 * exchange_time) (?rest p) w1 (\<lambda>b ms'. ?Q b (ms @ ms')) (\<lambda>z ms'. ?F z (ms @ ms'))"
    unfolding Let_def
  proof (rule triple_bind [OF triple_exchange exchange_time_nonneg])
    fix q :: bytes and ms1 :: "event list" and w2 :: world
    assume "went S G c exchange_time ms1 w1 w2"
      and 2: "ms1 = [] \<and> accepts p False q \<and> came q w1 w2 \<and> sess w2 = sess w1"
    then have w2: "went S G c exchange_time [] w1 w2" by simp
    let ?s2 = "?s\<lparr>HeartbeatToken := arr_of (take 4 (drop 16 q))\<rparr>"
    have parse: "ParseHeartbeatStep1Response q (sess w2) = Some (Inr ?s2)"
      using accepts_step1 [of p q "sess w2"] 1 2 by simp
    have came: "came q w w2"
      using came_extend [OF w1] 2 by simp
    show "triple c exchange_time
       (bindE (parse_into (ParseHeartbeatStep1Response q)) (\<lambda>_.
        bindE (liftE bump_count) (\<lambda>_.
        bindE (build_with (\<lambda>s. BuildHeartbeatStep2 cfg s (arr_of (take 4 (drop 8 p))))) (\<lambda>step2.
        bindE (exchange r c ''heartbeat step2'' step2 False) (\<lambda>_.
        liftE (\<lambda>w. emit (LogHeartbeat (HeartbeatCount (sess (bump_count w)))) (bump_count w))))))) w2
       (\<lambda>b ms'. ?Q b (ms @ ms1 @ ms')) (\<lambda>z ms'. ?F z (ms @ ms1 @ ms'))"
    proof (rule triple_bind [OF triple_parse [where parse = "ParseHeartbeatStep1Response q", OF parse] exchange_time_nonneg])
      fix ms2 :: "event list" and w3 :: world
      assume 3: "ms2 = [] \<and> w3 = w2\<lparr>sess := ?s2\<rparr>" and w3: "went S G c 0 ms2 w2 w3"
      show "triple c exchange_time
         (bindE (liftE bump_count) (\<lambda>_.
          bindE (build_with (\<lambda>s. BuildHeartbeatStep2 cfg s (arr_of (take 4 (drop 8 p))))) (\<lambda>step2.
          bindE (exchange r c ''heartbeat step2'' step2 False) (\<lambda>_.
          liftE (\<lambda>w. emit (LogHeartbeat (HeartbeatCount (sess (bump_count w)))) (bump_count w)))))) w3
         (\<lambda>b ms'. ?Q b (ms @ ms1 @ ms2 @ ms')) (\<lambda>z ms'. ?F z (ms @ ms1 @ ms2 @ ms'))"
      proof (rule triple_bind [OF triple_lift [OF went_bump] exchange_time_nonneg])
        fix ms3 :: "event list" and w4 :: world
        assume 4: "ms3 = [] \<and> w4 = bump_count w3" and w4: "went S G c 0 ms3 w3 w4"
        have cw4: "came q w w4"
          using went_prefix [OF went_prefix [OF came w3] w4] .
        have cnt: "HeartbeatCount (sess w4) + 1 = HeartbeatCount ?s + 2"
          and s4: "sess w4\<lparr>HeartbeatCount := HeartbeatCount ?s + 2\<rparr>
            = ?s\<lparr>HeartbeatToken := arr_of (take 4 (drop 16 q)), HeartbeatCount := HeartbeatCount ?s + 2\<rparr>"
          using 3 4 by (simp_all add: bump_count_def)
        have nil: "ms = []" "ms1 = []" "ms2 = []" "ms3 = []"
          using 1 2 3 4 by simp_all
        note step2 = triple_step2 [where c = c and cfg = cfg and tok = "arr_of (take 4 (drop 8 p))" and w = w4,
          unfolded Let_def cnt s4]
        show "triple c exchange_time
         (bindE (build_with (\<lambda>s. BuildHeartbeatStep2 cfg s (arr_of (take 4 (drop 8 p))))) (\<lambda>step2.
          bindE (exchange r c ''heartbeat step2'' step2 False) (\<lambda>_.
          liftE (\<lambda>w. emit (LogHeartbeat (HeartbeatCount (sess (bump_count w)))) (bump_count w))))) w4
         (\<lambda>b ms'. ?Q b (ms @ ms1 @ ms2 @ ms3 @ ms')) (\<lambda>z ms'. ?F z (ms @ ms1 @ ms2 @ ms3 @ ms'))"
          unfolding nil append_Nil
          by (rule triple_conseq [OF step2 order_refl]) (use went_prefix [OF cw4] in blast)+
      qed simp_all
    qed simp_all
  qed (use 1 in auto)
qed (use exchange_time_nonneg in auto)

lemma triple_HeartbeatOnce:
  "triple c (4 * exchange_time) (HeartbeatOnce r c) w
     (\<lambda>_ ms w'. ms = [LogHeartbeat (next_count (HeartbeatCount (sess w)))]
        \<and> (\<exists>q. came q w w' \<and> sess w' = (sess w)\<lparr>HeartbeatToken := arr_of (take 4 (drop 16 q)),
             HeartbeatCount := next_count (HeartbeatCount (sess w))\<rparr>))
     (\<lambda>z ms w'. ms = [] \<and> failure_ok z w')"
  (is "triple c _ _ w ?Q ?F")
  unfolding HeartbeatOnce_def Let_def [of "ProtocolConfig (rcfg r)"]
proof (rule triple_bind [OF triple_keepalive_now, of "3 * exchange_time"])
  fix ms :: "event list" and w1 :: world
  assume w1: "went S G c exchange_time ms w w1" and 1: "ms = [] \<and> sess w1 = sess w"
  let ?steps = "bindE (with_rng (BuildHeartbeatStep1 (ProtocolConfig (rcfg r)))) (\<lambda>step1.
      let randomToken = arr_of (take 4 (drop 8 step1)) in
      bindE (exchange r c ''heartbeat step1'' step1 False) (\<lambda>p.
      bindE (parse_into (ParseHeartbeatStep1Response p)) (\<lambda>_.
      bindE (liftE bump_count) (\<lambda>_.
      bindE (build_with (\<lambda>s. BuildHeartbeatStep2 (ProtocolConfig (rcfg r)) s randomToken)) (\<lambda>step2.
      bindE (exchange r c ''heartbeat step2'' step2 False) (\<lambda>_.
      liftE (\<lambda>w. let w = bump_count w in emit (LogHeartbeat (HeartbeatCount (sess w))) w)))))))"
  show "triple c (3 * exchange_time) (bindE (extra_heartbeat r c) (\<lambda>_. ?steps)) w1
     (\<lambda>b ms'. ?Q b (ms @ ms')) (\<lambda>z ms'. ?F z (ms @ ms'))"
  proof (rule triple_bind [OF triple_extra_heartbeat, of "2 * exchange_time"])
    fix ms1 :: "event list" and w2 :: world
    assume w2: "went S G c exchange_time ms1 w1 w2"
      and 2: "ms1 = [] \<and> sess w2 =
        (if HeartbeatCount (sess w1) = 0 \<or> HeartbeatCount (sess w1) mod 21 = 0
         then (sess w1)\<lparr>HeartbeatCount := HeartbeatCount (sess w1) + 1\<rparr> else sess w1)"
    have nil: "ms = []" "ms1 = []" using 1 2 by simp_all
    have cnt: "HeartbeatCount (sess w2) + 2 = next_count (HeartbeatCount (sess w))"
      and s2: "(sess w2)\<lparr>HeartbeatToken := t, HeartbeatCount := n\<rparr> = (sess w)\<lparr>HeartbeatToken := t, HeartbeatCount := n\<rparr>"
      for t n
      using 1 2 by (auto simp: next_count_def)
    show "triple c (2 * exchange_time) ?steps w2 (\<lambda>b ms'. ?Q b (ms @ ms1 @ ms')) (\<lambda>z ms'. ?F z (ms @ ms1 @ ms'))"
      unfolding nil append_Nil
      by (rule triple_conseq [OF triple_steps [where c = c and w = w2, unfolded cnt s2] order_refl])
        (use came_extend [OF w1] came_extend [OF w2] in blast)+
  qed (use 1 exchange_time_nonneg in auto)
qed (use exchange_time_nonneg in auto)

text \<open>
  Login, from the login packet on. \<open>refused_last\<close>: the last datagram is a refusal of the server. The error is then
  the rejection of the credentials, and only then.
\<close>

definition rejected_by_server :: "exc \<Rightarrow> world \<Rightarrow> world \<Rightarrow> bool" where
  "rejected_by_server z w w' \<longleftrightarrow> z = Fail ErrAuthenticationRejected \<and> (\<exists>q. came q w w' \<and> q \<noteq> [] \<and> q ! 0 = 0x05)"

definition refused_last :: "world \<Rightarrow> world \<Rightarrow> bool" where
  "refused_last w w' \<longleftrightarrow> ended_by (\<lambda>q. q \<noteq> [] \<and> q ! 0 = 0x05) w w'"

definition login_failure :: "exc \<Rightarrow> world \<Rightarrow> world \<Rightarrow> bool" where
  "login_failure z w w' \<longleftrightarrow> (if refused_last w w' then z = Fail ErrAuthenticationRejected else failure_ok z w')"

lemma login_failure_cases: "login_failure z w w' \<Longrightarrow> failure_ok z w' \<or> rejected_by_server z w w'"
  unfolding login_failure_def rejected_by_server_def refused_last_def ended_by_def came_def by (fastforce split: if_splits)

lemma login_failure_frame: "rcvd v = rcvd w \<Longrightarrow> login_failure z v w' = login_failure z w w'"
  by (simp add: login_failure_def refused_last_def ended_by_def)

lemma triple_login_exchange:
  assumes "p \<noteq> []"
  shows "triple c exchange_time (\<lambda>w. login_error (exchange r c ''login'' p False w)) w
     (\<lambda>q ms w'. ms = [] \<and> accepts p False q \<and> came q w w' \<and> sess w' = sess w)
     (\<lambda>z ms w'. ms = [] \<and> login_failure z w w')"
proof (cases "exchange r c ''login'' p False w")
  case (Pair x w')
  have rl: "ended_by (rejects p) w w' = refused_last w w'"
    using assms by (simp add: refused_last_def ended_by_def rejects_def)
  from triple_exchange_last [where c = c and name = "''login''" and p = p and af = False and w = w]
  obtain ms where ms: "went S G c exchange_time ms w w'"
    and x: "case x of Inr q \<Rightarrow> ms = [] \<and> accepts p False q \<and> ended_by ((=) q) w w' \<and> sess w' = sess w
        | Inl z \<Rightarrow> ms = [] \<and> failure_ok z w' \<and> sess w' = sess w
        \<and> (case z of Fail e \<Rightarrow> errors_Is e ErrRejected \<longleftrightarrow> refused_last w w' | Panic s \<Rightarrow> False)"
    unfolding triple_def Pair prod.case rl by blast
  show ?thesis
    unfolding triple_def Pair
    by (cases x; cases "projl x")
      (use ms x ended_by_came in \<open>auto simp: login_error_def login_failure_def split: if_splits\<close>)
qed

definition login_session :: "bytes \<Rightarrow> bytes \<Rightarrow> session" where
  "login_session q1 q2 = zero_session
     \<lparr>LoginSalt := arr_of (take 4 (drop 4 q1)),
      MD5Password := MD5 ([0x03, 0x01] @ arr_bytes (arr_of (take 4 (drop 4 q1)) :: 4 arr)
        @ bytes_of (Password (rcfg r))),
      ServerDrcomIndicator := arr_of (take 16 (drop 23 q2))\<rparr>"

lemma triple_login_rest:
  assumes "sess w = zero_session\<lparr>LoginSalt := arr_of (take 4 (drop 4 q1))\<rparr>"
  shows "triple c exchange_time
     (bindE (login_packet (ProtocolConfig (rcfg r))) (\<lambda>packet.
      bindE (\<lambda>w. login_error (exchange r c ''login'' packet False w)) (\<lambda>p.
      bindE (parse_into (ParseLoginResponse p)) (\<lambda>_.
      liftE (emit LogLogin))))) w
     (\<lambda>_ ms w'. ms = [LogLogin] \<and> (\<exists>q2. came q2 w w' \<and> sess w' = login_session q1 q2))
     (\<lambda>z ms w'. ms = [] \<and> login_failure z w w')"
  (is "triple c _ (bindE _ ?rest) w ?Q ?F")
proof (rule triple_bind [OF triple_login_packet exchange_time_nonneg])
  fix p :: bytes and ms :: "event list" and w1 :: world
  assume w1: "went S G c 0 ms w w1" and 1: "ms = [] \<and> p \<noteq> [] \<and> p ! 0 = 0x03
    \<and> sess w1 = (sess w)\<lparr>MD5Password := login_md5a (ProtocolConfig (rcfg r)) (sess w)\<rparr> \<and> rcvd w1 = rcvd w"
  show "triple c exchange_time (?rest p) w1 (\<lambda>b ms'. ?Q b (ms @ ms')) (\<lambda>z ms'. ?F z (ms @ ms'))"
  proof (rule triple_bind [OF triple_login_exchange, of p 0])
    fix q :: bytes and ms1 :: "event list" and w2 :: world
    assume w2: "went S G c exchange_time ms1 w1 w2"
      and 2: "ms1 = [] \<and> accepts p False q \<and> came q w1 w2 \<and> sess w2 = sess w1"
    have parse: "ParseLoginResponse q (sess w2) =
        Some (Inr ((sess w2)\<lparr>ServerDrcomIndicator := arr_of (take 16 (drop 23 q))\<rparr>))"
      using accepts_login [of p False q] 1 2 by simp
    have sess: "(sess w2)\<lparr>ServerDrcomIndicator := arr_of (take 16 (drop 23 q))\<rparr> = login_session q1 q"
      using 1 2 assms by (simp add: login_session_def login_md5a_def ProtocolConfig_def)
    have came: "came q w w2"
      using came_extend [OF w1] 2 by simp
    show "triple c 0 (bindE (parse_into (ParseLoginResponse q)) (\<lambda>_. liftE (emit LogLogin))) w2
        (\<lambda>b ms'. ?Q b (ms @ ms1 @ ms')) (\<lambda>z ms'. ?F z (ms @ ms1 @ ms'))"
    proof (rule triple_bind [OF triple_parse [where parse = "ParseLoginResponse q", OF parse], of 0])
      fix ms2 :: "event list" and w3 :: world
      assume w3: "went S G c 0 ms2 w2 w3"
        and 3: "ms2 = [] \<and> w3 = w2\<lparr>sess := (sess w2)\<lparr>ServerDrcomIndicator := arr_of (take 16 (drop 23 q))\<rparr>\<rparr>"
      have em: "went S G c 0 [LogLogin] w3 (emit LogLogin w3)"
        by (rule went_emit) simp_all
      show "triple c 0 (liftE (emit LogLogin)) w3
        (\<lambda>b ms'. ?Q b (ms @ ms1 @ ms2 @ ms')) (\<lambda>z ms'. ?F z (ms @ ms1 @ ms2 @ ms'))"
        by (rule triple_liftI [where g = "emit LogLogin" and w = w3, OF em])
          (use 1 2 3 sess went_prefix [OF went_prefix [OF came w3] em] in \<open>auto simp: emit_def\<close>)
    qed simp_all
  qed (use 1 login_failure_frame [of w1 w] in auto)
qed (use exchange_time_nonneg in \<open>auto simp: login_failure_def refused_last_def ended_by_def\<close>)

lemma triple_Login:
  "triple c (2 * exchange_time) (Login r c) w
     (\<lambda>_ ms w'. ms = [EvState StateLoginChallenge, EvState StateLoggingIn, LogLogin]
        \<and> (\<exists>q1 q2. came q1 w w' \<and> came q2 w w' \<and> sess w' = login_session q1 q2))
     (\<lambda>z ms w'. ms = [EvState StateLoginChallenge] \<and> failure_ok z w'
        \<or> ms = [EvState StateLoginChallenge, EvState StateLoggingIn] \<and> login_failure z w w')"
  (is "triple c _ _ w ?Q ?F")
  unfolding Login_def Let_def
proof (rule triple_bind [where ?n1.0 = 0 and ?n2.0 = "2 * exchange_time"])
  let ?set = "\<lambda>w. setState r StateLoginChallenge (w\<lparr>sess := zero_session\<rparr>)"
  have set1: "went S G c 0 [EvState StateLoginChallenge] w (?set w)"
    using went_trans [OF went_upd_nil setState_went, where w = w and ?w1.0 = "w\<lparr>sess := zero_session\<rparr>" and c = c] by simp
  show "triple c 0 (liftE ?set) w
     (\<lambda>_ ms w'. ms = [EvState StateLoginChallenge] \<and> sess w' = zero_session) (\<lambda>_ _ _. False)"
    by (rule triple_liftI [where g = ?set and w = w, OF set1]) simp
  fix a :: unit and ms :: "event list" and w1 :: world
  assume w1: "went S G c 0 ms w w1" and 1: "ms = [EvState StateLoginChallenge] \<and> sess w1 = zero_session"
  let ?cfg = "ProtocolConfig (rcfg r)"
  let ?rest = "\<lambda>_. bindE (login_packet ?cfg) (\<lambda>packet.
      bindE (\<lambda>w. login_error (exchange r c ''login'' packet False w)) (\<lambda>p.
      bindE (parse_into (ParseLoginResponse p)) (\<lambda>_.
      liftE (emit LogLogin))))"
  let ?salt = "\<lambda>p. bindE (store_salt (\<lambda>salt s. s\<lparr>LoginSalt := salt\<rparr>) (ParseLoginChallengeResponse p)) (\<lambda>_.
      bindE (liftE (setState r StateLoggingIn)) ?rest)"
  show "triple c (2 * exchange_time)
     (bindE (with_rng (\<lambda>_. BuildLoginChallenge (pAuthVersion ?cfg))) (\<lambda>challenge.
      bindE (exchange r c ''login challenge'' challenge False) ?salt)) w1
     (\<lambda>b ms'. ?Q b (ms @ ms')) (\<lambda>z ms'. ?F z (ms @ ms'))"
  proof (rule triple_bind [where ?n1.0 = 0 and ?n2.0 = "2 * exchange_time"])
    show "triple c 0 (with_rng (\<lambda>_. BuildLoginChallenge (pAuthVersion ?cfg))) w1
       (\<lambda>p ms w'. ms = [] \<and> (p \<noteq> [] \<and> p ! 0 = 0x01 \<and> p ! 1 = 0x02) \<and> sess w' = sess w1)
       (\<lambda>z ms w'. ms = [] \<and> failure_ok z w' \<and> (\<exists>s. z = Panic s))"
      by (rule triple_with_rng) (rule login_challenge_request)
    fix p :: bytes and ms1 :: "event list" and w2 :: world
    assume w2: "went S G c 0 ms1 w1 w2"
      and 2: "ms1 = [] \<and> (p \<noteq> [] \<and> p ! 0 = 0x01 \<and> p ! 1 = 0x02) \<and> sess w2 = sess w1"
    show "triple c (2 * exchange_time) (bindE (exchange r c ''login challenge'' p False) ?salt) w2
       (\<lambda>b ms'. ?Q b (ms @ ms1 @ ms')) (\<lambda>z ms'. ?F z (ms @ ms1 @ ms'))"
    proof (rule triple_bind [OF triple_exchange_last exchange_time_nonneg])
      fix q :: bytes and ms2 :: "event list" and w3 :: world
      assume w3: "went S G c exchange_time ms2 w2 w3"
        and 3: "ms2 = [] \<and> accepts p False q \<and> ended_by ((=) q) w2 w3 \<and> sess w3 = sess w2"
      have salt: "ParseLoginChallengeResponse q = Some (Inr (arr_of (take 4 (drop 4 q))))"
        using accepts_challenge [of p False q] 2 3 by (simp add: ParseLoginChallengeResponse_def)
      have came: "came q w w3"
        using came_extend [OF w1] came_extend [OF w2] ended_by_came 3 by blast
      have grows: "\<exists>n. rcvd w2 = rcvd w @ n" "\<exists>n. rcvd w3 = rcvd w2 @ n"
        using went_trans [OF w1 w2] w3 by (simp_all add: went_def)
      have "ended_by ((=) q) w w3"
        using ended_by_later [OF grows] 3 by simp
      then have unrefused: "\<not> refused_last w w3"
        using 3 by (auto simp: refused_last_def ended_by_def accepts_def)
      show "triple c exchange_time (?salt q) w3
         (\<lambda>b ms'. ?Q b (ms @ ms1 @ ms2 @ ms')) (\<lambda>z ms'. ?F z (ms @ ms1 @ ms2 @ ms'))"
      proof (rule triple_bind [OF triple_salt [OF salt] exchange_time_nonneg])
        fix ms3 :: "event list" and w4 :: world
        assume w4: "went S G c 0 ms3 w3 w4"
          and 4: "ms3 = [] \<and> w4 = w3\<lparr>sess := (sess w3)\<lparr>LoginSalt := arr_of (take 4 (drop 4 q))\<rparr>\<rparr>"
        show "triple c exchange_time (bindE (liftE (setState r StateLoggingIn)) ?rest) w4
           (\<lambda>b ms'. ?Q b (ms @ ms1 @ ms2 @ ms3 @ ms')) (\<lambda>z ms'. ?F z (ms @ ms1 @ ms2 @ ms3 @ ms'))"
        proof (rule triple_bind [OF triple_lift [OF setState_went] exchange_time_nonneg])
          fix ms4 :: "event list" and w5 :: world
          assume w5: "went S G c 0 ms4 w4 w5" and 5: "ms4 = [EvState StateLoggingIn] \<and> w5 = setState r StateLoggingIn w4"
          have s5: "sess w5 = zero_session\<lparr>LoginSalt := arr_of (take 4 (drop 4 q))\<rparr>"
            using 1 2 3 4 5 by simp
          have ms: "ms @ ms1 @ ms2 @ ms3 @ ms4 @ ms' = [EvState StateLoginChallenge, EvState StateLoggingIn] @ ms'" for ms'
            using 1 2 3 4 5 by simp
          have cw5: "came q w w5"
            using went_prefix [OF went_prefix [OF came w4] w5] .
          have ext: "came q' w5 w' \<Longrightarrow> came q' w w'" for q' w'
            using came_extend [OF w1] came_extend [OF w2] came_extend [OF w3] came_extend [OF w4] came_extend [OF w5]
            by blast
          show "triple c exchange_time (?rest ()) w5
             (\<lambda>b ms'. ?Q b (ms @ ms1 @ ms2 @ ms3 @ ms4 @ ms')) (\<lambda>z ms'. ?F z (ms @ ms1 @ ms2 @ ms3 @ ms4 @ ms'))"
            unfolding ms
          proof (rule triple_conseq [OF triple_login_rest [where c = c, OF s5] order_refl])
            fix b ms' w' assume "went S G c exchange_time ms' w5 w'"
              and "ms' = [LogLogin] \<and> (\<exists>q2. came q2 w5 w' \<and> sess w' = login_session q q2)"
            then show "?Q b ([EvState StateLoginChallenge, EvState StateLoggingIn] @ ms') w'"
              using went_prefix [OF cw5] ext by fastforce
          next
            fix z w' and ms' :: "event list"
            assume "went S G c exchange_time ms' w5 w'" and f: "ms' = [] \<and> login_failure z w5 w'"
            then have g: "\<exists>n. rcvd w' = rcvd w5 @ n" by (simp add: went_def)
            have r5: "rcvd w5 = rcvd w3" using 4 5 by simp
            then have "\<exists>n. rcvd w5 = rcvd w @ n" using grows by auto
            from ended_by_later [OF this g] have "refused_last w w' = refused_last w5 w'"
              using unrefused ended_by_frame [of w w w5 w3] r5 by (auto simp: refused_last_def)
            then show "?F z ([EvState StateLoginChallenge, EvState StateLoggingIn] @ ms') w'"
              using f by (simp add: login_failure_def)
          qed
        qed simp_all
      qed simp_all
    qed (use 1 2 in auto)
  qed (use 1 exchange_time_nonneg in auto)
qed (use exchange_time_nonneg in simp_all)

lemma triple_Logout:
  "triple c (2 * exchange_time) (Logout r c) w
     (\<lambda>_ ms w'. ms = [EvState StateLoggingOut, EvState StateStopped, LogLogout])
     (\<lambda>z ms w'. ms = [EvState StateLoggingOut] \<and> failure_ok z w')"
  (is "triple c _ _ w ?Q ?F")
  unfolding Logout_def Let_def
proof (rule triple_bind [OF triple_lift [OF setState_went], where ?n2.0 = "2 * exchange_time"])
  let ?cfg = "ProtocolConfig (rcfg r)"
  let ?finish = "\<lambda>_. liftE (\<lambda>w. emit LogLogout (setState r StateStopped w))"
  let ?packet = "\<lambda>_. bindE (build_with (BuildLogoutPacket ?cfg)) (\<lambda>packet.
      bindE (exchange r c ''logout'' packet False) ?finish)"
  let ?salt = "\<lambda>p. bindE (store_salt (\<lambda>salt s. s\<lparr>LogoutSalt := salt\<rparr>) (ParseLogoutChallengeResponse p)) ?packet"
  fix a :: unit and ms :: "event list" and w1 :: world
  assume 1: "ms = [EvState StateLoggingOut] \<and> w1 = setState r StateLoggingOut w"
  show "triple c (2 * exchange_time)
     (bindE (with_rng (\<lambda>_. BuildLogoutChallenge (pAuthVersion ?cfg))) (\<lambda>challenge.
      bindE (exchange r c ''logout challenge'' challenge False) ?salt)) w1
     (\<lambda>b ms'. ?Q b (ms @ ms')) (\<lambda>z ms'. ?F z (ms @ ms'))"
  proof (rule triple_bind [where ?n1.0 = 0 and ?n2.0 = "2 * exchange_time"])
    show "triple c 0 (with_rng (\<lambda>_. BuildLogoutChallenge (pAuthVersion ?cfg))) w1
       (\<lambda>p ms w'. ms = [] \<and> (p \<noteq> [] \<and> p ! 0 = 0x01 \<and> p ! 1 = 0x03) \<and> sess w' = sess w1)
       (\<lambda>z ms w'. ms = [] \<and> failure_ok z w' \<and> (\<exists>s. z = Panic s))"
      by (rule triple_with_rng) (rule logout_challenge_request)
    fix p :: bytes and ms1 :: "event list" and w2 :: world
    assume 2: "ms1 = [] \<and> (p \<noteq> [] \<and> p ! 0 = 0x01 \<and> p ! 1 = 0x03) \<and> sess w2 = sess w1"
    show "triple c (2 * exchange_time) (bindE (exchange r c ''logout challenge'' p False) ?salt) w2
       (\<lambda>b ms'. ?Q b (ms @ ms1 @ ms')) (\<lambda>z ms'. ?F z (ms @ ms1 @ ms'))"
    proof (rule triple_bind [OF triple_exchange exchange_time_nonneg])
      fix q :: bytes and ms2 :: "event list" and w3 :: world
      assume 3: "ms2 = [] \<and> accepts p False q \<and> came q w2 w3 \<and> sess w3 = sess w2"
      have salt: "ParseLogoutChallengeResponse q = Some (Inr (arr_of (take 4 (drop 4 q))))"
        using accepts_challenge [of p False q] 2 3 by (simp add: ParseLogoutChallengeResponse_def)
      show "triple c exchange_time (?salt q) w3
         (\<lambda>b ms'. ?Q b (ms @ ms1 @ ms2 @ ms')) (\<lambda>z ms'. ?F z (ms @ ms1 @ ms2 @ ms'))"
      proof (rule triple_bind [OF triple_salt [OF salt] exchange_time_nonneg])
        fix ms3 :: "event list" and w4 :: world
        assume 4: "ms3 = [] \<and> w4 = w3\<lparr>sess := (sess w3)\<lparr>LogoutSalt := arr_of (take 4 (drop 4 q))\<rparr>\<rparr>"
        show "triple c exchange_time (?packet ()) w4
           (\<lambda>b ms'. ?Q b (ms @ ms1 @ ms2 @ ms3 @ ms')) (\<lambda>z ms'. ?F z (ms @ ms1 @ ms2 @ ms3 @ ms'))"
        proof (rule triple_bind [OF triple_build [OF BuildLogoutPacket_layout] exchange_time_nonneg])
          fix p2 :: bytes and ms4 :: "event list" and w5 :: world
          assume 5: "ms4 = [] \<and> p2 = logout_layout ?cfg (sess w4) \<and> w5 = w4"
          show "triple c exchange_time (bindE (exchange r c ''logout'' p2 False) ?finish) w5
            (\<lambda>b ms'. ?Q b (ms @ ms1 @ ms2 @ ms3 @ ms4 @ ms')) (\<lambda>z ms'. ?F z (ms @ ms1 @ ms2 @ ms3 @ ms4 @ ms'))"
          proof (rule triple_bind [OF triple_exchange, of 0])
            fix q2 :: bytes and ms5 :: "event list" and w6 :: world
            assume 6: "ms5 = [] \<and> accepts p2 False q2 \<and> came q2 w5 w6 \<and> sess w6 = sess w5"
            have fin: "went S G c 0 [EvState StateStopped, LogLogout] v (emit LogLogout (setState r StateStopped v))" for v
              using went_trans [OF setState_went went_emit [where e = LogLogout]] by simp
            show "triple c 0 (?finish q2) w6 (\<lambda>b ms'. ?Q b (ms @ ms1 @ ms2 @ ms3 @ ms4 @ ms5 @ ms'))
              (\<lambda>z ms'. ?F z (ms @ ms1 @ ms2 @ ms3 @ ms4 @ ms5 @ ms'))"
              by (rule triple_liftI [where w = w6 and g = "\<lambda>w. emit LogLogout (setState r StateStopped w)", OF fin]) (use 1 2 3 4 5 6 in simp)
          qed (use 1 2 3 4 5 in auto)
        qed (use 1 2 3 4 in simp_all)
      qed (use 1 2 3 in simp_all)
    qed (use 1 2 in auto)
  qed (use 1 exchange_time_nonneg in auto)
qed (use exchange_time_nonneg in simp_all)

end

section \<open>The heartbeat loop\<close>

text \<open>The milestones of \<open>k\<close> successful rounds from counter \<open>c\<close>.\<close>

fun beats :: "nat \<Rightarrow> 64 word \<Rightarrow> event list" where
  "beats 0 c = []"
| "beats (Suc k) c = LogHeartbeat (next_count c) # EvState StateOnline # beats k (next_count c)"

text \<open>
  How the loop ends: a failed heartbeat (\<open>Failed\<close> is the last state), a panic, or the end of the context, for
  the \<open>cause\<close> that it gives; \<open>over\<close> says whether the context is done by then.
\<close>

definition loop_end :: "err \<Rightarrow> bool \<Rightarrow> exc + unit \<Rightarrow> event list \<Rightarrow> bool" where
  "loop_end cause over x ms \<longleftrightarrow>
     (case x of
        Inl (Fail e) \<Rightarrow> ms = [EvState StateFailed] \<and> \<not> errors_Is e ErrAuthenticationRejected
          \<or> ms = [] \<and> e = cause \<and> over
      | Inl (Panic s) \<Rightarrow> ms = []
      | Inr _ \<Rightarrow> False)"

context runner_env
begin

text \<open>The time of one round, waiting included.\<close>

abbreviation round_time :: int where
  "round_time \<equiv> 4 * exchange_time + max 0 (HeartbeatInterval (rcfg r))"

lemma round_went:
  assumes "HeartbeatOnce r c w = (Inr u, w1)"
    and "select_done c (now (pause (setState r StateOnline w1)) + HeartbeatInterval (rcfg r))
           (pause (setState r StateOnline w1)) = (b, w2)"
  shows "went S G c round_time [LogHeartbeat (next_count (HeartbeatCount (sess w))), EvState StateOnline] w w2"
    and "HeartbeatCount (sess w2) = next_count (HeartbeatCount (sess w))"
proof -
  let ?v = "pause (setState r StateOnline w1)"
  obtain ms where "went S G c (4 * exchange_time) ms w w1"
    and "ms = [LogHeartbeat (next_count (HeartbeatCount (sess w)))]"
    and cnt: "HeartbeatCount (sess w1) = next_count (HeartbeatCount (sess w))"
    using triple_HeartbeatOnce [where c = c and w = w] unfolding triple_def assms(1) by auto
  then have "went S G c (4 * exchange_time + (0 + 0))
      ([LogHeartbeat (next_count (HeartbeatCount (sess w)))] @ [EvState StateOnline] @ []) w ?v"
    by (blast intro: went_trans setState_went went_pause)
  moreover have "went S G c (max 0 (HeartbeatInterval (rcfg r))) [] ?v w2"
  proof -
    have "now w2 + busy w2 \<le> now ?v + busy ?v + max 0 (HeartbeatInterval (rcfg r))"
      using select_done_busy(2) [OF assms(2)] by (auto simp: max_def simp del: pause_account split: if_splits)
    then show ?thesis
      using select_done_frame [OF assms(2)] select_done_busy(1,3) [OF assms(2)]
      unfolding went_def same_local_def by (simp add: milestones_def)
  qed
  ultimately show "went S G c round_time [LogHeartbeat (next_count (HeartbeatCount (sess w))), EvState StateOnline] w w2"
    using went_trans by fastforce
  show "HeartbeatCount (sess w2) = next_count (HeartbeatCount (sess w))"
    using select_done_frame [OF assms(2)] cnt by (simp add: same_local_def)
qed

lemma heartbeat_loop_spec:
  assumes "heartbeat_loop r c n w = Some (x, w')"
  shows "\<exists>k ms. k \<le> n \<and> loop_end (ctx_cause c) (ctx_err_at c (now w') \<noteq> None) x ms
     \<and> went S G c (int n * round_time) (beats k (HeartbeatCount (sess w)) @ ms) w w'
     \<and> (\<forall>s. x = Inl (Panic s) \<longrightarrow> dry (rng w'))"
  using assms
proof (induction n arbitrary: w)
  case 0
  then show ?case by simp
next
  case (Suc n)
  have rt: "0 \<le> round_time" "4 * exchange_time \<le> round_time"
    using exchange_time_nonneg by auto
  have one: "4 * exchange_time \<le> int (Suc n) * round_time" "round_time \<le> int (Suc n) * round_time"
  proof -
    have "1 * round_time \<le> int (Suc n) * round_time" using rt by (intro mult_right_mono) auto
    then show "round_time \<le> int (Suc n) * round_time" by simp
    with rt show "4 * exchange_time \<le> int (Suc n) * round_time" by linarith
  qed
  obtain y w1 where H: "HeartbeatOnce r c w = (y, w1)" by (rule prod.exhaust)
  show ?case
  proof (cases y)
    case (Inl z)
    have fail: "went S G c (4 * exchange_time) [] w w1" "failure_ok z w1"
      using triple_HeartbeatOnce [where c = c and w = w] unfolding triple_def H Inl by auto
    show ?thesis
    proof (cases z)
      case (Fail e)
      have "went S G c (int (Suc n) * round_time) [EvState StateFailed] w (setState r StateFailed w1)"
        using went_mono [OF went_trans [OF fail(1) setState_went]] one(1) by fastforce
      then show ?thesis
        using Suc.prems H Inl Fail fail(2)
        by (intro exI [of _ 0] exI [of _ "[EvState StateFailed]"]) (auto simp: loop_end_def failure_ok_def)
    next
      case (Panic s)
      then show ?thesis
        using Suc.prems H Inl fail went_mono [OF fail(1) one(1)]
        by (intro exI [of _ 0] exI [of _ "[]"]) (auto simp: loop_end_def failure_ok_def)
    qed
  next
    case (Inr u)
    let ?v = "pause (setState r StateOnline w1)"
    obtain b w2 where sel: "select_done c (now ?v + HeartbeatInterval (rcfg r)) ?v = (b, w2)"
      by (rule prod.exhaust)
    note rnd = round_went [OF H [unfolded Inr] sel]
    show ?thesis
    proof (cases b)
      case True
      have "ctx_err_at c (now w2) \<noteq> None"
        using select_done_True sel True by simp
      then have over: "ctx_err_at c (now (pause w2)) = Some (ctx_cause c)"
        using ctx_err_at_mono [OF _ now_pause] ctx_err_at_cause by (metis option.exhaust)
      then have "x = Inl (Fail (ctx_cause c))" "w' = pause w2"
        using Suc.prems H Inr sel True over by (auto simp: Let_def ctx_Err_eq)
      moreover have "went S G c (int (Suc n) * round_time) (beats 1 (HeartbeatCount (sess w)) @ []) w (pause w2)"
        using went_mono [OF went_trans [OF rnd(1) went_pause]] one(2) by fastforce
      ultimately show ?thesis
        using over by (intro exI [of _ 1] exI [of _ "[]"]) (auto simp: loop_end_def)
    next
      case False
      then have "heartbeat_loop r c n w2 = Some (x, w')"
        using Suc.prems H Inr sel by (simp add: Let_def)
      from Suc.IH [OF this] obtain k ms where k: "k \<le> n" "loop_end (ctx_cause c) (ctx_err_at c (now w') \<noteq> None) x ms"
        and w: "went S G c (int n * round_time) (beats k (HeartbeatCount (sess w2)) @ ms) w2 w'"
        and d: "\<forall>s. x = Inl (Panic s) \<longrightarrow> dry (rng w')"
        by blast
      have "went S G c (int (Suc n) * round_time) (beats (Suc k) (HeartbeatCount (sess w)) @ ms) w w'"
        using went_trans [OF rnd(1) w] by (simp add: rnd(2) algebra_simps)
      then show ?thesis
        using k d by (intro exI [of _ "Suc k"] exI [of _ ms]) auto
    qed
  qed
qed

text \<open>A loop that is still running after \<open>n\<close> rounds has used \<open>n\<close> intervals.\<close>

lemma heartbeat_loop_running:
  assumes "heartbeat_loop r c n w = None" and "ctx_done c = Some d"
  shows "now w + int n * HeartbeatInterval (rcfg r) \<le> due d w"
  using assms(1)
proof (induction n arbitrary: w)
  case 0
  have "0 \<le> busy w" by (simp add: busy_def)
  then show ?case by (simp add: due_def)
next
  case (Suc n)
  obtain y w1 where H: "HeartbeatOnce r c w = (y, w1)" by (rule prod.exhaust)
  then obtain u where u: "y = Inr u"
    using Suc.prems by (cases y; cases "projl y") auto
  let ?v = "pause (setState r StateOnline w1)"
  obtain b w2 where sel: "select_done c (now ?v + HeartbeatInterval (rcfg r)) ?v = (b, w2)"
    by (rule prod.exhaust)
  note rnd = round_went(1) [OF H [unfolded u] sel]
  have b: "\<not> b" "heartbeat_loop r c n w2 = None"
    using Suc.prems H u sel by (auto simp: Let_def split: if_splits option.splits prod.splits bool.splits)
  then have "now ?v + HeartbeatInterval (rcfg r) \<le> now w2"
    using select_done_False sel by auto
  moreover have "now w \<le> now ?v"
  proof -
    obtain ms where "went S G c (4 * exchange_time) ms w w1"
      using triple_HeartbeatOnce [where c = c and w = w] unfolding triple_def H u by auto
    from went_trans [OF this went_trans [OF setState_went [where c = c and s = StateOnline and w = w1] went_pause]]
    show ?thesis by (simp add: went_def)
  qed
  moreover have "due d w2 \<le> due d w"
    using rnd assms(2) by (simp add: went_def)
  ultimately show ?case
    using Suc.IH [OF b(2)] by (simp add: algebra_simps)
qed

end

section \<open>A whole run\<close>

text \<open>
  What the deferred logout adds to a run that ended with \<open>y\<close>, and what the run then returns: nothing unless the context
  is done, and then always an attempt to log out, which succeeds, fails with an error that is only logged, or panics.
\<close>

definition logout_part :: "bool \<Rightarrow> exc + unit \<Rightarrow> exc + unit \<Rightarrow> event list \<Rightarrow> bool" where
  "logout_part over y x ms \<longleftrightarrow>
     (if over
      then x = y \<and> (ms = [EvState StateLoggingOut, EvState StateStopped, LogLogout]
             \<or> (\<exists>e. ms = [EvState StateLoggingOut, LogLogoutFailed e]))
        \<or> (\<exists>s. x = Inl (Panic s)) \<and> ms = [EvState StateLoggingOut]
      else x = y \<and> ms = [])"

text \<open>
  The history of a run, given whether its context is done when it returns: it fails before the session is up; or it logs in,
  completes \<open>k\<close> heartbeat rounds (each announces \<open>Online\<close>), ends for one of the reasons of \<open>loop_end\<close>, and logs
  out if, and only if, the context is done.
\<close>

inductive run_history :: "err \<Rightarrow> bool \<Rightarrow> exc + unit \<Rightarrow> event list \<Rightarrow> bool" for cause over where
  no_challenge: "\<not> errors_Is e ErrAuthenticationRejected \<Longrightarrow>
     run_history cause over (Inl (Fail e)) [EvState StateLoginChallenge, EvState StateFailed]"
| no_login: "run_history cause over (Inl (Fail e))
     [EvState StateLoginChallenge, EvState StateLoggingIn, EvState StateFailed]"
| login_panic: "run_history cause over (Inl (Panic s)) [EvState StateLoginChallenge]"
| login_panic2: "run_history cause over (Inl (Panic s)) [EvState StateLoginChallenge, EvState StateLoggingIn]"
| session: "loop_end cause over y me \<Longrightarrow> logout_part over y x ml \<Longrightarrow>
     run_history cause over x ([EvState StateLoginChallenge, EvState StateLoggingIn, LogLogin] @ beats k 0 @ me @ ml)"

context runner_env
begin

lemma deferred_logout_spec:
  assumes "deferred_logout r c (y, w) = (x, w')"
  shows "\<exists>ml. logout_part (ctx_err_at c (now w') \<noteq> None) y x ml \<and> went S G no_ctx (2 * exchange_time) ml w w'
     \<and> now w' + busy w' \<le> now w + busy w + 1500 * millisecond
     \<and> (\<forall>d. due d w' \<le> due d w + 1500 * millisecond)
     \<and> (x = y \<or> (\<exists>s. x = Inl (Panic s) \<and> dry (rng w')))"
proof (cases "ctx_err_at c (now (pause w))")
  case None
  then have "x = y" "w' = pause w"
    using assms by (auto simp: deferred_logout_def ctx_Err_eq)
  moreover have "went S G no_ctx (2 * exchange_time) [] w (pause w)"
    by (rule went_mono [OF went_pause]) (use exchange_time_nonneg in simp)
  moreover have "due d (pause w) \<le> due d w + 1500 * millisecond" for d
    using due_pause [of d w] by (simp add: millisecond_def)
  ultimately show ?thesis
    using None by (intro exI [of _ "[]"]) (simp add: logout_part_def millisecond_def)
next
  case (Some e)
  let ?v = "pause (pause w)"
  let ?D = "now ?v + 1500 * millisecond"
  let ?lc = "\<lparr>cancel_at = None, ctx_deadline = Some ?D\<rparr>"
  obtain z w1 where L: "Logout r ?lc ?v = (z, w1)" by (rule prod.exhaust)
  from triple_Logout [where c = ?lc and w = ?v] obtain ms where w1: "went S G ?lc (2 * exchange_time) ms ?v w1"
    and z: "case z of Inr _ \<Rightarrow> ms = [EvState StateLoggingOut, EvState StateStopped, LogLogout]
      | Inl z \<Rightarrow> ms = [EvState StateLoggingOut] \<and> failure_ok z w1"
    unfolding triple_def L by auto
  have fin: "x = (case z of Inl (Panic s) \<Rightarrow> Inl (Panic s) | _ \<Rightarrow> y)
      \<and> w' = (case z of Inl (Fail e) \<Rightarrow> emit (LogLogoutFailed e) w1 | _ \<Rightarrow> w1)"
    using assms Some L by (auto simp: deferred_logout_def ctx_Err_eq Let_def split: sum.splits exc.splits)
  define ml where "ml = ms @ (case z of Inl (Fail e) \<Rightarrow> [LogLogoutFailed e] | _ \<Rightarrow> [])"
  have time: "now w1 + busy w1 \<le> ?D + busy ?v" "busy w1 \<le> busy ?v"
  proof -
    have "due ?D w1 \<le> due ?D ?v" "busy w1 \<le> busy ?v"
      using w1 by (simp_all add: went_def ctx_done_def)
    then show "now w1 + busy w1 \<le> ?D + busy ?v" "busy w1 \<le> busy ?v"
      using due_ge [of w1 ?D] by (simp_all add: due_def millisecond_def)
  qed
  have w': "went S G ?lc (2 * exchange_time) ml ?v w'"
    using fin w1 went_trans [OF w1 went_emit] unfolding ml_def
    by (auto split: sum.splits exc.splits)
  have same: "now w' = now w1" "busy w' = busy w1" "rng w' = rng w1"
    using fin by (auto simp: emit_def busy_def split: sum.splits exc.splits)
  have acc: "now ?v + busy ?v = now w + busy w" by simp
  have total: "now w' + busy w' \<le> now w + busy w + 1500 * millisecond"
    using time same acc by linarith
  have "went S G no_ctx (2 * exchange_time) ml w w'"
    using went_trans [OF went_trans [OF went_pause went_pause] went_any [OF w']] by simp
  moreover have "due d w' \<le> due d w + 1500 * millisecond" for d
    using total same time(2) busy_pause [of w] busy_pause [of "pause w"]
    unfolding due_def by (auto simp: max_def millisecond_def)
  moreover have "ctx_err_at c (now w') \<noteq> None"
  proof -
    have "now (pause w) \<le> now w'"
      using w' now_pause [of "pause w"] by (simp add: went_def)
    then show ?thesis using ctx_err_at_mono [OF Some] by simp
  qed
  then have "logout_part (ctx_err_at c (now w') \<noteq> None) y x ml"
    using z fin unfolding ml_def by (auto simp: logout_part_def split: sum.splits exc.splits)
  moreover have "x = y \<or> (\<exists>s. x = Inl (Panic s) \<and> dry (rng w'))"
    using fin z same by (auto simp: failure_ok_def split: sum.splits exc.splits)
  ultimately show ?thesis
    using total by blast
qed

text \<open>The bound on one run of \<open>n\<close> rounds.\<close>

abbreviation run_time :: "nat \<Rightarrow> int" where
  "run_time n \<equiv> 4 * exchange_time + int n * round_time"

lemma Run_spec:
  assumes "Run r c n w = Some (x, w')" and "0 < HeartbeatInterval (rcfg r)"
  shows "\<exists>ms. run_history (ctx_cause c) (ctx_err_at c (now w') \<noteq> None) x ms \<and> went S G no_ctx (run_time n) ms w w'
     \<and> (\<forall>d. ctx_done c = Some d \<longrightarrow> due d w' \<le> due d w + 1500 * millisecond)
     \<and> (\<forall>s. x = Inl (Panic s) \<longrightarrow> dry (rng w'))
     \<and> (\<forall>e. x = Inl (Fail e) \<longrightarrow> errors_Is e ErrAuthenticationRejected \<longrightarrow>
          ms = [EvState StateLoginChallenge, EvState StateLoggingIn, EvState StateFailed]
          \<and> rejected_by_server (Fail e) w w')"
proof -
  have rt: "0 \<le> int n * round_time" "0 \<le> exchange_time"
    using exchange_time_nonneg by simp_all
  have bound: "2 * exchange_time \<le> run_time n"
    using rt by linarith
  have slack: "due d v \<le> due d w + 1500 * millisecond" if "went S G c m ms w v" "ctx_done c = Some d" for m ms v d
    using that by (auto simp: went_def millisecond_def)
  obtain y w1 where L: "Login r c w = (y, w1)" by (rule prod.exhaust)
  from triple_Login [where c = c and w = w] obtain ms where w1: "went S G c (2 * exchange_time) ms w w1"
    and y: "case y of Inr _ \<Rightarrow> ms = [EvState StateLoginChallenge, EvState StateLoggingIn, LogLogin]
          \<and> (\<exists>q1 q2. came q1 w w1 \<and> came q2 w w1 \<and> sess w1 = login_session q1 q2)
      | Inl z \<Rightarrow> ms = [EvState StateLoginChallenge] \<and> failure_ok z w1
        \<or> ms = [EvState StateLoginChallenge, EvState StateLoggingIn]
          \<and> (failure_ok z w1 \<or> rejected_by_server z w w1)"
    using login_failure_cases unfolding triple_def L by (fastforce split: sum.splits)
  show ?thesis
  proof (cases y)
    case (Inl z)
    show ?thesis
    proof (cases z)
      case (Panic s)
      then have xw: "x = Inl (Panic s)" "w' = w1"
        using assms L Inl by (auto simp: Run_def)
      have "dry (rng w1)" "run_history (ctx_cause c) (ctx_err_at c (now w') \<noteq> None) x ms"
        using y Inl Panic xw by (auto simp: failure_ok_def rejected_by_server_def intro: run_history.intros)
      then show ?thesis
        using xw slack [OF w1] went_mono [OF went_any [OF w1] bound] by blast
    next
      case (Fail e)
      then have xw: "x = Inl (Fail e)" "w' = setState r StateFailed w1"
        using assms L Inl by (auto simp: Run_def)
      have w': "went S G c (2 * exchange_time) (ms @ [EvState StateFailed]) w w'"
        using went_trans [OF w1 setState_went] by (simp add: xw)
      have hist: "run_history (ctx_cause c) over x (ms @ [EvState StateFailed])" for over
        using y Inl Fail xw by (auto simp: failure_ok_def intro: run_history.intros)
      have rej: "ms @ [EvState StateFailed] = [EvState StateLoginChallenge, EvState StateLoggingIn, EvState StateFailed]
          \<and> rejected_by_server (Fail e) w w'" if "errors_Is e ErrAuthenticationRejected"
        using y Inl Fail that went_prefix [OF _ setState_went] xw
        by (fastforce simp: failure_ok_def rejected_by_server_def)
      show ?thesis
        using hist went_mono [OF went_any [OF w'] bound] slack [OF w'] rej xw
        by (intro exI [of _ "ms @ [EvState StateFailed]"]) simp
    qed
  next
    case (Inr u)
    then obtain y2 w2 where H: "heartbeat_loop r c n w1 = Some (y2, w2)"
      and D: "deferred_logout r c (y2, w2) = (x, w')"
      using assms L by (auto simp: Run_def)
    from heartbeat_loop_spec [OF H] obtain k me where le2: "loop_end (ctx_cause c) (ctx_err_at c (now w2) \<noteq> None) y2 me"
      and w2: "went S G c (int n * round_time) (beats k (HeartbeatCount (sess w1)) @ me) w1 w2"
      and dry: "\<forall>s. y2 = Inl (Panic s) \<longrightarrow> dry (rng w2)"
      by blast
    from deferred_logout_spec [OF D] obtain ml where ml: "logout_part (ctx_err_at c (now w') \<noteq> None) y2 x ml"
      and w3: "went S G no_ctx (2 * exchange_time) ml w2 w'" "\<forall>d. due d w' \<le> due d w2 + 1500 * millisecond"
      and x: "x = y2 \<or> (\<exists>s. x = Inl (Panic s) \<and> dry (rng w'))"
      by blast
    have "now w2 \<le> now w'" using w3(1) by (simp add: went_def)
    then have le: "loop_end (ctx_cause c) (ctx_err_at c (now w') \<noteq> None) y2 me"
      using le2 ctx_err_at_None [of c "now w'" "now w2"] by (cases "ctx_err_at c (now w') = None") (auto simp: loop_end_def split: sum.splits exc.splits)
    have cnt: "HeartbeatCount (sess w1) = 0"
      using y Inr by (auto simp: login_session_def zero_session_def)
    have ms: "ms = [EvState StateLoginChallenge, EvState StateLoggingIn, LogLogin]"
      using y Inr by simp
    have w12: "went S G c (2 * exchange_time + int n * round_time) (ms @ beats k 0 @ me) w w2"
      using went_trans [OF w1 w2] by (simp add: cnt)
    have "went S G no_ctx (2 * exchange_time + int n * round_time + 2 * exchange_time) (ms @ beats k 0 @ me @ ml) w w'"
      using went_trans [OF went_any [OF w12] w3(1)] by simp
    then have "went S G no_ctx (run_time n) (ms @ beats k 0 @ me @ ml) w w'"
      by (rule went_mono) linarith
    moreover have "run_history (ctx_cause c) (ctx_err_at c (now w') \<noteq> None) x (ms @ beats k 0 @ me @ ml)"
      unfolding ms by (rule run_history.session [OF le ml])
    moreover have "due d w' \<le> due d w + 1500 * millisecond" if "ctx_done c = Some d" for d
    proof -
      have "due d w2 \<le> due d w"
        using w12 that by (simp add: went_def)
      moreover have "due d w' \<le> due d w2 + 1500 * millisecond"
        using w3(2) ..
      ultimately show ?thesis by linarith
    qed
    moreover have "\<not> errors_Is e ErrAuthenticationRejected" if "x = Inl (Fail e)" for e
      using x le that ctx_cause_cases [of c] by (auto simp: loop_end_def)
    moreover have "dry (rng w')" if "x = Inl (Panic s)" for s
      using x dry w3(1) that by (auto simp: went_def)
    ultimately show ?thesis
      by blast
  qed
qed

end

context runner_env
begin

text \<open>Enough rounds to cover the time until the context is done.\<close>

lemma Run_returns:
  assumes "ctx_done c = Some d" and "HeartbeatInterval (rcfg r) \<le> 0 \<or> due d w < now w + int n * HeartbeatInterval (rcfg r)"
  shows "Run r c n w \<noteq> None"
proof (cases "HeartbeatInterval (rcfg r) \<le> 0")
  case False
  obtain y w1 where L: "Login r c w = (y, w1)" by (rule prod.exhaust)
  obtain ms where w1: "went S G c (2 * exchange_time) ms w w1"
    using triple_Login [where c = c and w = w] unfolding triple_def L by auto
  have "heartbeat_loop r c n w1 \<noteq> None"
  proof
    assume "heartbeat_loop r c n w1 = None"
    from heartbeat_loop_running [OF this assms(1)] w1 assms False
    show False by (auto simp: went_def)
  qed
  then show ?thesis
    using False L by (cases y; cases "projl y") (auto simp: Run_def)
qed (simp add: Run_def)

end

section \<open>The runner on the UDP transport\<close>

text \<open>What \<open>New\<close> builds from a transport, with no callback set.\<close>

definition plain_runner :: "config \<Rightarrow> transport \<Rightarrow> runner" where
  "plain_runner cfg t = \<lparr>rcfg = cfg, rExchange = Exchange t, rClose = Some Close, rOnState = None\<rparr>"

lemma New_plain: "fst (New cfg (Exchange t) (Some Close) w) = plain_runner cfg t"
  by (simp add: New_def plain_runner_def)

lemma plain_runner_simps [simp]:
  "rcfg (plain_runner cfg t) = cfg" "rExchange (plain_runner cfg t) = Exchange t"
  "rOnState (plain_runner cfg t) = None"
  by (simp_all add: plain_runner_def)

interpretation cl: runner_env "plain_runner cfg t" "max 0 (timeout t)" "\<lambda>a. sameUDPAddr (Some a) (Some (server t))"
  "\<lambda>_ d. d" for cfg t
  by (rule runner_env.intro) (simp_all add: tr.exchanger_axioms runner_env_axioms_def)

text \<open>The facts of the interpretation over top-level vocabulary.\<close>

definition received_from :: "transport \<Rightarrow> bytes \<Rightarrow> world \<Rightarrow> world \<Rightarrow> bool" where
  "received_from t q w w' \<longleftrightarrow>
     (\<exists>a new. sameUDPAddr (Some a) (Some (server t)) \<and> rcvd w' = rcvd w @ new \<and> (a, q) \<in> set new)"

definition sent_only_to :: "transport \<Rightarrow> world \<Rightarrow> world \<Rightarrow> bool" where
  "sent_only_to t w w' \<longleftrightarrow>
     (\<exists>new. sent w' = sent w @ new \<and> list_all (\<lambda>(a, _). sameUDPAddr (Some a) (Some (server t))) new)"

definition new_milestones :: "world \<Rightarrow> world \<Rightarrow> event list" where
  "new_milestones w w' = milestones (drop (length (trace w)) (trace w'))"

text \<open>The last datagram received came from the server and starts with \<open>05\<close>.\<close>

definition refused_at_end :: "transport \<Rightarrow> world \<Rightarrow> world \<Rightarrow> bool" where
  "refused_at_end t w w' \<longleftrightarrow>
     (\<exists>a q new. sameUDPAddr (Some a) (Some (server t)) \<and> rcvd w' = rcvd w @ new @ [(a, q)] \<and> q \<noteq> [] \<and> q ! 0 = 0x05)"

text \<open>The longest wait of one exchange with its retries.\<close>

definition exchange_bound :: "config \<Rightarrow> transport \<Rightarrow> int" where
  "exchange_bound cfg t = max 1 (RetryCount cfg + 1) * max 0 (timeout t)"

definition session_after_login :: "config \<Rightarrow> bytes \<Rightarrow> bytes \<Rightarrow> session" where
  "session_after_login cfg q1 q2 =
     (let salt = arr_of (take 4 (drop 4 q1)) in
      \<lparr>LoginSalt = salt, LogoutSalt = arr_of [],
       MD5Password = MD5 ([0x03, 0x01] @ arr_bytes salt @ bytes_of (Password cfg)),
       ServerDrcomIndicator = arr_of (take 16 (drop 23 q2)), HeartbeatToken = arr_of [], HeartbeatCount = 0\<rparr>)"

lemma cl_came: "cl.came t q w w' = received_from t q w w'"
  by (simp add: cl.came_def received_from_def)

lemma cl_refused_last: "cl.refused_last t w w' = refused_at_end t w w'"
  by (simp add: cl.refused_last_def cl.ended_by_def refused_at_end_def)

lemma cl_exchange_time: "int (cl.tries cfg t) * max 0 (timeout t) = exchange_bound cfg t"
  by (simp add: cl.tries_def exchange_bound_def)

lemma cl_login_session: "cl.login_session cfg t q1 q2 = session_after_login cfg q1 q2"
  by (simp add: cl.login_session_def session_after_login_def Let_def zero_session_def)

lemma went_facts:
  assumes "went (\<lambda>a. sameUDPAddr (Some a) (Some (server t))) (\<lambda>_ d. d) c n ms w w'"
  shows "new_milestones w w' = ms" and "sent_only_to t w w'" and "now w' + busy w' \<le> now w + busy w + n"
  using assms by (fastforce simp: went_def new_milestones_def sent_only_to_def list_all_iff)+

text \<open>A concrete configuration.\<close>

definition sample_config :: config where
  "sample_config =
     \<lparr>Username = ''u'', Password = ''p'', IP = arr_of [10, 1, 2, 3], MAC = arr_of [2, 0, 0, 0, 0, 1],
      HostName = ''pc'', OSInfo = ''Windows'', ServerIP = arr_of [10, 100, 61, 3], ServerPort = 61440,
      BindIP = arr_of [10, 1, 2, 3], BindPort = 61440, AuthVersion = arr_of [0x68, 0],
      KeepAliveVersion = arr_of [0xdc, 2], FirstHeartbeatVersion = arr_of [0x0f, 0x27],
      ExtraHeartbeatVersion = arr_of [0xdb, 2], PrimaryDNS = arr_of [10, 10, 10, 10],
      DHCPServer = arr_of [0, 0, 0, 0], DebugHexDump = False, ReceiveTimeout = 2000 * millisecond,
      RetryCount = 3, HeartbeatInterval = 20 * second, ReceiveTimeoutMillis = 2000,
      HeartbeatIntervalSecs = 20, AdapterHint = [],
      AutoNetwork = \<lparr>InterfaceName = [], NIP = arr_of [], NMAC = arr_of []\<rparr>\<rparr>"

section \<open>The counter\<close>

text \<open>The counter before round \<open>k\<close>, as a natural number.\<close>

definition count_at :: "nat \<Rightarrow> nat" where
  "count_at k = 21 * (k div 10) + (if k mod 10 = 0 then 0 else 2 * (k mod 10) + 1)"

lemma count_at_due: "count_at k mod 21 = 0 \<longleftrightarrow> k mod 10 = 0"
proof -
  have "2 * (k mod 10) + 1 < 21" by (simp add: mod_less_divisor)
  then show ?thesis by (simp add: count_at_def mod_mult_self3)
qed

lemma count_at_Suc: "count_at (Suc k) = count_at k + (if k mod 10 = 0 then 3 else 2)"
proof -
  obtain q r where k: "k = 10 * q + r" "r < 10"
    by (metis div_mod_decomp mult.commute mod_less_divisor zero_less_numeral)
  show ?thesis
  proof (cases "r = 9")
    case True
    then have "Suc k = 10 * Suc q" using k by simp
    then show ?thesis unfolding count_at_def by (simp add: k(1) True)
  next
    case False
    then have "Suc k = 10 * q + Suc r" "Suc r < 10" using k by auto
    then have "Suc k div 10 = q" "Suc k mod 10 = Suc r" by (simp_all del: mult_Suc_right)
    moreover have "k div 10 = q" "k mod 10 = r" using k by simp_all
    ultimately show ?thesis unfolding count_at_def by auto
  qed
qed

lemma count_at_bound: "count_at k \<le> 3 * k"
proof (induction k)
  case (Suc k)
  then show ?case by (simp add: count_at_Suc)
qed (simp add: count_at_def)

lemma next_count_power:
  "k < 2 ^ 60 \<Longrightarrow> (next_count ^^ k) 0 = of_nat (count_at k)"
proof (induction k)
  case 0
  show ?case by (simp add: count_at_def)
next
  case (Suc k)
  have small: "count_at k < 2 ^ 64"
    using count_at_bound [of k] Suc.prems by simp
  have u: "unat (of_nat (count_at k) :: 64 word) = count_at k"
    using small by (simp add: unat_of_nat take_bit_nat_eq_self)
  have "(of_nat (count_at k) :: 64 word) mod 21 = 0 \<longleftrightarrow> count_at k mod 21 = 0"
    by (simp add: word_unat_eq_iff unat_mod_distrib u)
  moreover have "(of_nat (count_at k) :: 64 word) = 0 \<longleftrightarrow> count_at k = 0"
    by (simp add: word_unat_eq_iff u)
  ultimately have "next_count (of_nat (count_at k)) = of_nat (count_at (Suc k))"
    using count_at_due [of k] unfolding next_count_def count_at_Suc by (auto simp: mod_0_imp_dvd)
  then show ?case
    using Suc by simp
qed

text \<open>\<open>k\<close> heartbeat rounds in a row, if all succeed.\<close>

fun heartbeat_rounds :: "runner \<Rightarrow> ctx_t \<Rightarrow> nat \<Rightarrow> world \<Rightarrow> world option" where
  "heartbeat_rounds r c 0 w = Some w"
| "heartbeat_rounds r c (Suc k) w =
     (case HeartbeatOnce r c w of (Inl _, _) \<Rightarrow> None | (Inr _, w) \<Rightarrow> heartbeat_rounds r c k w)"

lemma heartbeat_rounds_count:
  "heartbeat_rounds (plain_runner cfg t) c k w = Some w' \<Longrightarrow>
     HeartbeatCount (sess w') = (next_count ^^ k) (HeartbeatCount (sess w))"
proof (induction k arbitrary: w)
  case (Suc k)
  obtain x w1 where H: "HeartbeatOnce (plain_runner cfg t) c w = (x, w1)" by (rule prod.exhaust)
  with Suc.prems obtain u where u: "x = Inr u" by (cases x) auto
  have "HeartbeatCount (sess w1) = next_count (HeartbeatCount (sess w))"
    using cl.triple_HeartbeatOnce [where cfg = cfg and t = t and c = c and w = w]
    unfolding cl.triple_def H u by auto
  then show ?case
    using Suc.IH Suc.prems H u by (simp add: funpow_swap1)
qed simp

section \<open>Properties\<close>

text \<open>
  Property C11. Login, on every branch. On success the session holds the salt and the indicator
  that the server sent in answer to this login, the digest of the password under that salt, and a
  zero counter, and the login was announced and logged in order. A login that fails stops after \<open>LoginChallenge\<close> or after
  \<open>LoggingIn\<close> and logs nothing; its error is \<open>ErrAuthenticationRejected\<close> exactly when it was logging in and the last
  datagram received is one of the server that starts with \<open>05\<close> (a refused challenge or any other failure is not a
  rejection of the credentials). A panic means that the random source
  failed. In every case packets go to the server only and two exchanges bound the time.
\<close>

theorem login_outcomes:
  "case Login (plain_runner cfg t) c w of (x, w') \<Rightarrow>
     sent_only_to t w w' \<and> now w' + busy w' \<le> now w + busy w + 2 * exchange_bound cfg t \<and>
     (case x of
        Inr _ \<Rightarrow>
          new_milestones w w' = [EvState StateLoginChallenge, EvState StateLoggingIn, LogLogin]
          \<and> (\<exists>q1 q2. received_from t q1 w w' \<and> received_from t q2 w w'
                \<and> sess w' = session_after_login cfg q1 q2)
      | Inl z \<Rightarrow>
          new_milestones w w' \<in> {[EvState StateLoginChallenge], [EvState StateLoginChallenge, EvState StateLoggingIn]}
          \<and> (if new_milestones w w' = [EvState StateLoginChallenge, EvState StateLoggingIn] \<and> refused_at_end t w w'
             then z = Fail ErrAuthenticationRejected
             else (case z of Fail e \<Rightarrow> \<not> errors_Is e ErrAuthenticationRejected | Panic s \<Rightarrow> dry (rng w'))))"
proof (cases "Login (plain_runner cfg t) c w")
  case (Pair x w')
  note T = cl.triple_Login [where cfg = cfg and t = t and c = c and w = w, unfolded cl.triple_def Pair prod.case cl_exchange_time cl_came cl_login_session
      cl.login_failure_def cl_refused_last]
  then obtain ms where ms: "went (\<lambda>a. sameUDPAddr (Some a) (Some (server t))) (\<lambda>_ d. d) c (2 * exchange_bound cfg t) ms w w'"
    and x: "case x of Inr _ \<Rightarrow> ms = [EvState StateLoginChallenge, EvState StateLoggingIn, LogLogin]
          \<and> (\<exists>q1 q2. received_from t q1 w w' \<and> received_from t q2 w w' \<and> sess w' = session_after_login cfg q1 q2)
      | Inl z \<Rightarrow> ms = [EvState StateLoginChallenge] \<and> cl.failure_ok z w'
        \<or> ms = [EvState StateLoginChallenge, EvState StateLoggingIn]
          \<and> (if refused_at_end t w w' then z = Fail ErrAuthenticationRejected else cl.failure_ok z w')"
    by blast
  note facts = went_facts [OF ms]
  show ?thesis
    using x facts(2,3) unfolding Pair prod.case facts(1)
    by (cases x) (auto simp: cl.failure_ok_def split: exc.splits)
qed

text \<open>
  Property C12. One heartbeat round, on every branch. On success the token is the one the server
  sent in this round, the counter advances by two, or by three when the first or extra packet was
  due, nothing else of the session changes, and the round is logged with the new counter; a failed
  round logs nothing and is never reported as a rejection. Four exchanges bound the time.
\<close>

theorem heartbeat_round_outcomes:
  "case HeartbeatOnce (plain_runner cfg t) c w of (x, w') \<Rightarrow>
     sent_only_to t w w' \<and> now w' + busy w' \<le> now w + busy w + 4 * exchange_bound cfg t \<and>
     (case x of
        Inr _ \<Rightarrow>
          new_milestones w w' = [LogHeartbeat (next_count (HeartbeatCount (sess w)))]
          \<and> (\<exists>q. received_from t q w w' \<and> sess w' = (sess w)
               \<lparr>HeartbeatToken := arr_of (take 4 (drop 16 q)),
                HeartbeatCount := next_count (HeartbeatCount (sess w))\<rparr>)
      | Inl (Fail e) \<Rightarrow> new_milestones w w' = [] \<and> \<not> errors_Is e ErrAuthenticationRejected
      | Inl (Panic s) \<Rightarrow> new_milestones w w' = [] \<and> dry (rng w'))"
proof (cases "HeartbeatOnce (plain_runner cfg t) c w")
  case (Pair x w')
  note T = cl.triple_HeartbeatOnce [where cfg = cfg and t = t and c = c and w = w, unfolded cl.triple_def Pair prod.case cl_exchange_time cl_came]
  show ?thesis
    using T unfolding Pair prod.case
    by (cases x; cases "projl x") (auto simp: cl.failure_ok_def dest: went_facts)
qed

text \<open>
  Property C1. The history of a run. Whatever the network, the scheduler and the cancellation do, the states announced and
  the progress logged by \<open>Run\<close> form a word of \<open>run_history\<close>, for the context as it is when \<open>Run\<close> returns: \<open>Online\<close> is
  announced once per completed heartbeat round and never otherwise; a run whose context is not done ends in \<open>Failed\<close>, with
  the error of the login or heartbeat that failed, and never logs out; after a login that succeeded, a run
  whose context is done always attempts the logout and announces \<open>Stopped\<close> exactly if it succeeds, and without a
  failed heartbeat its error is the cause of the context. A panic means that the random source failed. \<open>Run\<close> never returns a nil
  error, and packets go to the server only.
\<close>

theorem run_follows_history:
  "case Run (plain_runner cfg t) c n w of
     None \<Rightarrow> True
   | Some (x, w') \<Rightarrow>
       if HeartbeatInterval cfg \<le> 0 then w' = w \<and> x = Inl (Fail (Errorf ''heartbeat interval must be positive''))
       else run_history (ctx_cause c) (ctx_err_at c (now w') \<noteq> None) x (new_milestones w w') \<and> sent_only_to t w w'
         \<and> (case x of Inl (Fail e) \<Rightarrow> True | Inl (Panic s) \<Rightarrow> dry (rng w') | Inr _ \<Rightarrow> False)"
proof (cases "Run (plain_runner cfg t) c n w")
  case (Some a)
  obtain x w' where a: "a = (x, w')" by (cases a)
  show ?thesis
  proof (cases "HeartbeatInterval cfg \<le> 0")
    case False
    from cl.Run_spec [OF Some [unfolded a]] False obtain ms
      where h: "run_history (ctx_cause c) (ctx_err_at c (now w') \<noteq> None) x ms" and d: "\<forall>s. x = Inl (Panic s) \<longrightarrow> dry (rng w')"
        and w: "went (\<lambda>a. sameUDPAddr (Some a) (Some (server t))) (\<lambda>_ d. d) no_ctx (cl.run_time cfg t n) ms w w'"
      by auto
    have "x \<noteq> Inr ()"
      using h by cases (auto simp: loop_end_def logout_part_def split: if_splits)
    then show ?thesis
      using Some a False h d went_facts [OF w] by (auto split: sum.split exc.split)
  qed (use Some a in \<open>simp add: Run_def\<close>)
qed simp

text \<open>
  Property C6. Stopping works. When the context is cancelled (or expires) at \<open>d\<close>, \<open>Run\<close>
  returns: as soon as the rounds provided cover the time up to \<open>d\<close>, the loop does not use them
  up, and, delays of the scheduler apart, \<open>Run\<close> is over 1.5 seconds after \<open>d\<close> (after the start,
  if \<open>d\<close> has passed), deferred logout included.
\<close>

theorem run_stops_after_cancellation:
  assumes "ctx_done c = Some d" and "0 < HeartbeatInterval cfg"
    and "max (now w) d + busy w < now w + int n * HeartbeatInterval cfg"
  shows "\<exists>x w'. Run (plain_runner cfg t) c n w = Some (x, w')
     \<and> now w' + busy w' \<le> max (now w) d + busy w + 1500 * millisecond"
proof -
  have "Run (plain_runner cfg t) c n w \<noteq> None"
    by (rule cl.Run_returns [OF assms(1)]) (use assms(3) in \<open>simp add: due_def\<close>)
  then obtain x w' where R: "Run (plain_runner cfg t) c n w = Some (x, w')" by auto
  have "due d w' \<le> due d w + 1500 * millisecond"
    using cl.Run_spec [OF R] assms(1,2) by auto
  then have "now w' + busy w' \<le> max (now w) d + busy w + 1500 * millisecond"
    using due_ge [of w' d] unfolding due_def [of d w] by linarith
  with R show ?thesis by blast
qed

theorem run_stops_after_cancellation_witness:
  "\<exists>x w'. Run (plain_runner sample_config sample_transport) \<lparr>cancel_at = Some 0, ctx_deadline = None\<rparr> 1 sample_world
        = Some (x, w')
     \<and> now w' + busy w' \<le> 12 + 1500 * millisecond"
proof -
  have b: "busy sample_world = 12" "now sample_world = 0" by (simp_all add: busy_def sample_world_def)
  show ?thesis
    using run_stops_after_cancellation [of "\<lparr>cancel_at = Some 0, ctx_deadline = None\<rparr>" 0 sample_config sample_world 1
        sample_transport]
    by (simp add: b ctx_done_def sample_config_def second_def)
qed

text \<open>
  Property C23. The heartbeat schedule. After \<open>k\<close> successful rounds from a fresh login the counter
  is \<open>21 * (k div 10)\<close> plus \<open>0, 3, 5, ..., 19\<close>, so the first packet is sent in round 0, the extra
  packet is due in every tenth round after it and in no other, and no wrap-around disturbs this for
  \<open>2 ^ 60\<close> rounds.
\<close>

theorem heartbeat_schedule:
  "case heartbeat_rounds (plain_runner cfg t) c k (w\<lparr>sess := (sess w)\<lparr>HeartbeatCount := 0\<rparr>\<rparr>) of
     None \<Rightarrow> True
   | Some w' \<Rightarrow>
       if k < 2 ^ 60
       then unat (HeartbeatCount (sess w')) = 21 * (k div 10) + (if k mod 10 = 0 then 0 else 2 * (k mod 10) + 1)
         \<and> (HeartbeatCount (sess w') = 0 \<or> HeartbeatCount (sess w') mod 21 = 0) = (10 dvd k)
       else True"
proof (cases "heartbeat_rounds (plain_runner cfg t) c k (w\<lparr>sess := (sess w)\<lparr>HeartbeatCount := 0\<rparr>\<rparr>)")
  case (Some w')
  show ?thesis
  proof (cases "k < 2 ^ 60")
    case True
    have small: "count_at k < 2 ^ 64"
      using count_at_bound [of k] True by simp
    have c: "HeartbeatCount (sess w') = of_nat (count_at k)"
      using heartbeat_rounds_count [OF Some] next_count_power [OF True] by simp
    have u: "unat (HeartbeatCount (sess w')) = count_at k"
      using small by (simp add: c unat_of_nat take_bit_nat_eq_self)
    have "(HeartbeatCount (sess w') = 0 \<or> HeartbeatCount (sess w') mod 21 = 0) = (count_at k mod 21 = 0)"
      by (auto simp: word_unat_eq_iff unat_mod_distrib u)
    then show ?thesis
      using Some True u by (simp add: count_at_due count_at_def mod_eq_0_iff_dvd)
  qed (use Some in simp)
qed simp

end
