(* ===== verification/Progress.thy ===== *)
theory Progress
  imports Client
begin

text \<open>
  Progress: what the session achieves when the server answers. The other theories show that nothing
  bad is concluded from any network; this one shows that a network that answers the requests of a session within a bound,
  as the documented server does, brings the session online and keeps it online, and that one that answers those of a
  logout lets it log out. The assumption on the exchanger is the
  locale \<open>answering_exchanger\<close>, an extension of the interface \<open>exchanger\<close>; it holds of \<open>Exchange\<close> over such a network.
\<close>

section \<open>Requests and answers\<close>

text \<open>A request that has an answer: the first byte selects the kind, and the fields the matcher reads are there.\<close>

definition is_request :: "bytes \<Rightarrow> bool" where
  "is_request p \<longleftrightarrow> p \<noteq> [] \<and> p ! 0 \<in> {0x01, 0x03, 0x06, 0x07, 0xff}
     \<and> (p ! 0 = 0x01 \<longrightarrow> 2 \<le> length p) \<and> (p ! 0 = 0x07 \<longrightarrow> 8 \<le> length p)"

text \<open>
  The requests of a session and those of a logout. A file request is the first or an extra heartbeat, told from step 1 by
  its version: \<open>DEVELOPMENT.md\<close> gives for it a reply of 272 bytes with phase \<open>06\<close>, but permits phase \<open>02\<close>.
\<close>

definition session_request :: "bytes \<Rightarrow> bool" where
  "session_request p \<longleftrightarrow> p ! 0 = 0x01 \<and> p ! 1 = 0x02 \<or> p ! 0 \<in> {0x03, 0x07, 0xff}"

definition logout_request :: "bytes \<Rightarrow> bool" where
  "logout_request p \<longleftrightarrow> p ! 0 = 0x01 \<and> p ! 1 = 0x03 \<or> p ! 0 = 0x06"

definition file_request :: "config \<Rightarrow> bytes \<Rightarrow> bool" where
  "file_request cfg p \<longleftrightarrow> p ! 0 = 0x07 \<and> p ! 5 = 0x01
     \<and> take 2 (drop 6 p) \<in> {arr_bytes (FirstHeartbeatVersion cfg), arr_bytes (ExtraHeartbeatVersion cfg)}"

definition versions_differ :: "config \<Rightarrow> bool" where
  "versions_differ cfg \<longleftrightarrow> KeepAliveVersion cfg \<noteq> FirstHeartbeatVersion cfg \<and> KeepAliveVersion cfg \<noteq> ExtraHeartbeatVersion cfg"

text \<open>
  \<open>answers A F D srv N h\<close>: once the packets \<open>h\<close> have been sent, the network \<open>N\<close> delivers for every request in \<open>A\<close>
  that follows, as long as only requests in \<open>A\<close> are sent, one datagram of the server within \<open>D\<close> nanoseconds, an answer to
  that request; for those in \<open>F\<close> it may be the file of the server.
\<close>

definition answers ::
    "(bytes \<Rightarrow> bool) \<Rightarrow> (bytes \<Rightarrow> bool) \<Rightarrow> nat \<Rightarrow> udp_addr \<Rightarrow> (bytes list \<Rightarrow> bytes \<Rightarrow> string + (nat \<times> arrival) list)
      \<Rightarrow> bytes list \<Rightarrow> bool" where
  "answers A F D srv N h \<longleftrightarrow>
     (\<forall>h' p. list_all A h' \<and> is_request p \<and> A p \<longrightarrow>
        (\<exists>k a q. N (h @ h') p = Inr [(k, Datagram a q)] \<and> k \<le> D \<and> sameUDPAddr (Some a) (Some srv)
           \<and> length q \<le> defaultReceiveBufferSize \<and> accepts p (F p) q))"

lemma answers_now:
  "answers A F D srv N h \<Longrightarrow> is_request p \<Longrightarrow> A p \<Longrightarrow> \<exists>k a q. N h p = Inr [(k, Datagram a q)] \<and> k \<le> D
     \<and> sameUDPAddr (Some a) (Some srv) \<and> length q \<le> defaultReceiveBufferSize \<and> accepts p (F p) q"
  by (auto simp: answers_def dest: spec [where x = "[]"])

lemma answers_later:
  assumes "answers A F D srv N h" and "A p"
  shows "answers A F D srv N (h @ [p])"
  unfolding answers_def
proof (intro allI impI)
  fix h' p' assume "list_all A h' \<and> is_request p' \<and> A p'"
  then show "\<exists>k a q. N ((h @ [p]) @ h') p' = Inr [(k, Datagram a q)] \<and> k \<le> D \<and> sameUDPAddr (Some a) (Some srv)
      \<and> length q \<le> defaultReceiveBufferSize \<and> accepts p' (F p') q"
    using assms(1) [unfolded answers_def, rule_format, of "p # h'" p'] assms(2) by simp
qed

lemma accepts_more: "accepts p f q \<Longrightarrow> (f \<Longrightarrow> af) \<Longrightarrow> accepts p af q"
  by (auto simp: accepts_def split: if_splits)

text \<open>Every packet of the client is one.\<close>

lemma is_request_layouts [simp]:
  "is_request (challenge_layout sub rand av)" "is_request (heartbeat_layout s phase version rand token tail)"
  "is_request (logout_layout config s)" "is_request (0xff # xs)"
  by (simp_all add: is_request_def challenge_layout_def heartbeat_layout_def logout_layout_def Let_def)

lemma layout_kinds [simp]:
  "challenge_layout sub rand av ! 0 = 0x01" "heartbeat_layout s phase version rand token tail ! 0 = 0x07"
  "logout_layout config s ! 0 = 0x06" "take 2 (drop 6 (heartbeat_layout s phase version rand token tail)) = arr_bytes version"
  "heartbeat_layout s phase version rand token tail ! Suc 0 = ucast (HeartbeatCount s)"
  "heartbeat_layout s phase version rand token tail ! 5 = phase"
  by (simp_all add: challenge_layout_def heartbeat_layout_def logout_layout_def Let_def)

lemma is_request_login [simp]: "is_request (login_layout config s rand)"
  by (simp add: is_request_def login_layout_def login_layout_body_def login_layout_head_def Let_def nth_append)

section \<open>The interface\<close>

text \<open>
  \<open>calm\<close> holds while the exchanger can rely on its network for the requests in \<open>A\<close>; \<open>in_time\<close> says that a context does not end for \<open>n\<close>
  exchanges of at most \<open>D\<close> nanoseconds, delays of the scheduler included.
\<close>

definition in_time :: "ctx_t \<Rightarrow> int \<Rightarrow> world \<Rightarrow> bool" where
  "in_time c n w \<longleftrightarrow> (case ctx_done c of None \<Rightarrow> True | Some d \<Rightarrow> now w + busy w + n < d)"

locale answering_exchanger = exchanger X T S for X :: exchange_fn and T :: int and S :: "udp_addr \<Rightarrow> bool" +
  fixes A F :: "bytes \<Rightarrow> bool" and D :: int and calm :: "world \<Rightarrow> bool"
  assumes D_nonneg: "0 \<le> D"
    and calm_frame: "calm w \<Longrightarrow> net w' = net w \<Longrightarrow> inbox w' = inbox w \<Longrightarrow> sock_open w' = sock_open w \<Longrightarrow>
          sent w' = sent w \<Longrightarrow> busy w' \<le> busy w \<Longrightarrow> calm w'"
    and answered: "calm w \<Longrightarrow> in_time c D w \<Longrightarrow> is_request p \<Longrightarrow> A p \<Longrightarrow> (F p \<Longrightarrow> af) \<Longrightarrow>
          \<exists>q w'. X c p (Some (ResponseMatcher p af)) w = (Inr q, w') \<and> calm w'
            \<and> now w' + busy w' \<le> now w + busy w + D"

section \<open>Exchange provides it\<close>

text \<open>The network is answering, the socket is open, nothing else is on its way, and the scheduler leaves time for an answer.\<close>

definition quiet :: "(bytes \<Rightarrow> bool) \<Rightarrow> (bytes \<Rightarrow> bool) \<Rightarrow> nat \<Rightarrow> transport \<Rightarrow> world \<Rightarrow> bool" where
  "quiet A F D t w \<longleftrightarrow> answers A F D (server t) (net w) (map snd (sent w)) \<and> inbox w = [] \<and> sock_open w \<and> int D + busy w < timeout t"

lemma in_time_err: "in_time c n w \<Longrightarrow> 0 \<le> n \<Longrightarrow> now w' \<le> now w + busy w \<Longrightarrow> ctx_err_at c (now w') = None"
  by (auto simp: in_time_def ctx_err_at_def split: option.splits)

lemma in_time_shift: "in_time c n w \<Longrightarrow> now w' + busy w' + m \<le> now w + busy w + n \<Longrightarrow> in_time c m w'"
  by (auto simp: in_time_def split: option.splits)

lemma busy_nonneg [simp]: "0 \<le> busy w"
  by (simp add: busy_def)

lemma pause_inbox: "inbox (pause w) = inbox w"
  by simp

text \<open>The exchange step by step: armed, sent at \<open>w3\<close>, answered \<open>k\<close> nanoseconds later.\<close>

lemma recv_answer:
  assumes "now w + int k < dl" and "sameUDPAddr (Some a) (Some (server t))" and "accepts p af q"
    and "length q \<le> defaultReceiveBufferSize"
  shows "recv_loop t c (Some (ResponseMatcher p af)) dl [(now w + int k, Datagram a q)] w
    = (Inr q, w\<lparr>now := now w + int k, inbox := [], rcvd := rcvd w @ [(a, q)]\<rparr>)"
proof -
  have "\<not> rejects p q" using assms(3) by (auto simp: accepts_def rejects_def)
  then show ?thesis
    using assms by (simp add: ResponseMatcher_eq Let_def max_def)
qed

lemma disarm_before:
  "(case ctx_done c of None \<Rightarrow> True | Some d \<Rightarrow> now w < d) \<Longrightarrow> disarm c wake w = w\<lparr>sock_deadline := None\<rparr>"
  by (auto simp: disarm_def Let_def split: option.splits)

lemma Exchange_answered:
  assumes q: "quiet A F D t w" and i: "in_time c (int D) w" and p: "is_request p" "A p" "F p \<Longrightarrow> af"
  shows "\<exists>b w'. Exchange t c p (Some (ResponseMatcher p af)) w = (Inr b, w') \<and> quiet A F D t w'
    \<and> now w' + busy w' \<le> now w + busy w + int D"
proof -
  let ?w1 = "pause w" and ?w2 = "pause (pause w)"
  have acc: "now ?w2 + busy ?w2 = now w + busy w" and le: "busy ?w2 \<le> busy w" "now w \<le> now ?w2"
    using busy_pause [of w] busy_pause [of "pause w"] now_pause [of w] now_pause [of "pause w"] by simp_all
  have n2: "now ?w2 \<le> now w + busy w" and n1: "now ?w1 \<le> now w + busy w"
    using acc busy_nonneg [of ?w2] pause_account [of w] busy_nonneg [of "pause w"] by linarith+
  define dl0 where "dl0 = (case ctx_deadline c of None \<Rightarrow> now ?w2 + timeout t
    | Some d \<Rightarrow> if d < now ?w2 + timeout t then d else now ?w2 + timeout t)"
  obtain wake w3 where A: "arm c (?w2\<lparr>sock_deadline := Some dl0\<rparr>) = (wake, w3)" by (rule prod.exhaust)
  have b2: "busy (?w2\<lparr>sock_deadline := Some dl0\<rparr>) = busy ?w2" by (simp add: busy_def)
  note f = arm_frame [OF A, unfolded b2]
  have w3: "now w3 = now ?w2" "busy w3 \<le> busy ?w2" "inbox w3 = []" "sock_open w3" "net w3 = net w"
    using f q by (simp_all add: quiet_def same_local_def)
  define dl where "dl = (case wake of None \<Rightarrow> dl0 | Some k \<Rightarrow> min dl0 k)"
  from q p obtain k a b where N: "net w (map snd (sent w3)) p = Inr [(k, Datagram a b)]" and k: "k \<le> D"
    and s: "sameUDPAddr (Some a) (Some (server t))" "length b \<le> defaultReceiveBufferSize" "accepts p af b"
  proof -
    have "map snd (sent w3) = map snd (sent w) @ []" using f by simp
    then have h: "map snd (sent w3) = map snd (sent w)" by simp
    from q have "answers A F D (server t) (net w) (map snd (sent w))" by (simp add: quiet_def)
    from answers_now [OF this p(1,2)] that accepts_more [of p "F p" _ af] p(3) show thesis
      unfolding h by blast
  qed
  have dctx: "now w + busy w + int D < d" if "ctx_done c = Some d" for d
    using i that by (simp add: in_time_def)
  have dead: "now w + busy w + int D < d" if "ctx_deadline c = Some d" for d
    using i that by (auto simp: in_time_def ctx_done_def split: option.splits)
  have wk: "now w + busy w + int D < k'" if "wake = Some k'" for k'
    using A that dctx by (auto simp: arm_def split: list.splits)
  have "now ?w2 + int D < now ?w2 + timeout t" using q busy_nonneg [of w] unfolding quiet_def by linarith
  then have "now ?w2 + int D < dl0"
    using dead n2 by (auto simp: dl0_def split: option.split)
  then have kdl: "now w3 + int k < dl"
    using wk n2 k w3(1) by (fastforce simp: dl_def split: option.split)
  define w4 where "w4 = w3\<lparr>sent := sent w3 @ [(server t, p)], inbox := [(now w3 + int k, Datagram a b)]\<rparr>"
  have W: "write_udp (server t) p dl w3 = (Inr (), w4)"
    using kdl N w3 by (simp add: write_udp_def w4_def enqueue_def)
  define w5 where "w5 = w4\<lparr>now := now w3 + int k, inbox := [], rcvd := rcvd w4 @ [(a, b)]\<rparr>"
  have R: "recv_loop t c (Some (ResponseMatcher p af)) dl (inbox w4) w4 = (Inr b, w5)"
    using recv_answer [of w4 k dl a t p af b c] kdl s by (simp add: w4_def w5_def)
  have C: "ctx_Err c w = (None, ?w1)"
    using in_time_err [OF i _ n1] by (simp add: ctx_Err_eq)
  have D5: "disarm c wake w5 = w5\<lparr>sock_deadline := None\<rparr>"
    by (rule disarm_before) (use dctx n2 k w3(1) in \<open>fastforce simp: w5_def w4_def split: option.split\<close>)
  have o: "sock_open ?w2" using q by (simp add: quiet_def)
  have E: "Exchange t c p (Some (ResponseMatcher p af)) w = (Inr b, w5\<lparr>sock_deadline := None\<rparr>)"
    unfolding Exchange_def C prod.case option.case Let_def dl0_def [symmetric]
    using o A W R D5 by (simp add: dl_def [symmetric])
  have b5: "busy (w5\<lparr>sock_deadline := None\<rparr>) = busy w3" by (simp add: busy_def w5_def w4_def)
  have "quiet A F D t (w5\<lparr>sock_deadline := None\<rparr>)"
    using q w3 le(1) f p(2) answers_later [of A F D "server t" "net w" "map snd (sent w)" p]
    unfolding quiet_def b5 by (simp add: w5_def w4_def)
  moreover have "now (w5\<lparr>sock_deadline := None\<rparr>) + busy (w5\<lparr>sock_deadline := None\<rparr>) \<le> now w + busy w + int D"
  proof -
    have "now (w5\<lparr>sock_deadline := None\<rparr>) = now w3 + int k" by (simp add: w5_def w4_def)
    then show ?thesis unfolding b5 using acc w3(1,2) k by linarith
  qed
  ultimately show ?thesis using E by blast
qed

interpretation an: answering_exchanger "Exchange t" "max 0 (timeout t)" "\<lambda>a. sameUDPAddr (Some a) (Some (server t))"
  A F "int D" "quiet A F D t" for t A F D
proof
  fix w w' :: world
  assume "quiet A F D t w" "net w' = net w" "inbox w' = inbox w" "sock_open w' = sock_open w" "sent w' = sent w" "busy w' \<le> busy w"
  then show "quiet A F D t w'" by (simp add: quiet_def)
qed (simp_all add: Exchange_answered)

section \<open>The client\<close>

locale answering_runner = runner_env r T S G + answering_exchanger "rExchange r" T S A F D calm
  for r :: runner and T :: int and S :: "udp_addr \<Rightarrow> bool" and G :: "State \<Rightarrow> int \<Rightarrow> int"
    and A F :: "bytes \<Rightarrow> bool" and D :: int and calm :: "world \<Rightarrow> bool"
begin

text \<open>
  A request that is answered when it is exchanged with the flag \<open>af\<close>; what the server has to answer for the session of this
  runner, and for its logout.
\<close>

definition askable :: "bytes \<Rightarrow> bool \<Rightarrow> bool" where
  "askable p af \<longleftrightarrow> is_request p \<and> A p \<and> (F p \<longrightarrow> af)"

definition serves_session :: bool where
  "serves_session \<longleftrightarrow> (\<forall>p. session_request p \<longrightarrow> A p) \<and> (\<forall>p. F p \<longrightarrow> file_request (rcfg r) p) \<and> versions_differ (rcfg r)"

definition serves_logout :: bool where
  "serves_logout \<longleftrightarrow> (\<forall>p. logout_request p \<longrightarrow> A p) \<and> (\<forall>p. F p \<longrightarrow> p ! 0 = 0x07)"

lemma askable_session:
  assumes "serves_session" and "is_request p"
  shows "p ! 0 = 0x01 \<Longrightarrow> p ! 1 = 0x02 \<Longrightarrow> askable p af" and "p ! 0 = 0x03 \<Longrightarrow> askable p af" and "p ! 0 = 0xff \<Longrightarrow> askable p af"
    and "p ! 0 = 0x07 \<Longrightarrow> askable p True"
    and "p ! 0 = 0x07 \<Longrightarrow> take 2 (drop 6 p) = arr_bytes (KeepAliveVersion (rcfg r)) \<Longrightarrow> askable p af"
  using assms by (auto simp: askable_def serves_session_def session_request_def file_request_def versions_differ_def arr_eq_iff)

lemma askable_logout:
  assumes "serves_logout" and "is_request p"
  shows "p ! 0 = 0x01 \<Longrightarrow> p ! 1 = 0x03 \<Longrightarrow> askable p af" and "p ! 0 = 0x06 \<Longrightarrow> askable p af"
  using assms by (auto simp: askable_def serves_logout_def logout_request_def)

text \<open>
  \<open>fit c n k w\<close>: the state is good for \<open>n\<close> more exchanges under \<open>c\<close> and \<open>k\<close> random bytes. \<open>succeeds c n k m w Q\<close>: from
  any such state and more, \<open>m\<close> has a value, uses up no more than that, and ends in \<open>Q\<close>.
\<close>

definition fit :: "ctx_t \<Rightarrow> nat \<Rightarrow> nat \<Rightarrow> world \<Rightarrow> bool" where
  "fit c n k w \<longleftrightarrow> calm w \<and> in_time c (int n * D) w \<and> (\<exists>bs. rng w = Some bs \<and> k \<le> length bs)"

definition succeeds ::
    "ctx_t \<Rightarrow> nat \<Rightarrow> nat \<Rightarrow> (world \<Rightarrow> (exc + 'a) \<times> world) \<Rightarrow> world \<Rightarrow> ('a \<Rightarrow> world \<Rightarrow> bool) \<Rightarrow> bool" where
  "succeeds c n k m w Q \<longleftrightarrow>
     (\<forall>n' k'. fit c (n + n') (k + k') w \<longrightarrow>
        (\<exists>a w'. m w = (Inr a, w') \<and> fit c n' k' w' \<and> now w' + busy w' \<le> now w + busy w + int n * D \<and> Q a w'))"

lemma succeeds_bind:
  assumes "succeeds c n1 k1 m w Q1" and "n = n1 + n2" and "k = k1 + k2"
    and "\<And>a w1. Q1 a w1 \<Longrightarrow> succeeds c n2 k2 (f a) w1 Q"
  shows "succeeds c n k (bindE m f) w Q"
  unfolding succeeds_def
proof (intro allI impI)
  fix n' k' assume "fit c (n + n') (k + k') w"
  then have "fit c (n1 + (n2 + n')) (k1 + (k2 + k')) w" by (simp add: assms(2,3) add.assoc)
  with assms(1) obtain a w1 where m: "m w = (Inr a, w1)" and f1: "fit c (n2 + n') (k2 + k') w1"
    and t1: "now w1 + busy w1 \<le> now w + busy w + int n1 * D" and "Q1 a w1"
    unfolding succeeds_def by blast
  from assms(4) [OF \<open>Q1 a w1\<close>] f1 obtain b w2 where f2: "f a w1 = (Inr b, w2)" "fit c n' k' w2"
    "now w2 + busy w2 \<le> now w1 + busy w1 + int n2 * D" "Q b w2"
    unfolding succeeds_def by blast
  have "now w2 + busy w2 \<le> now w + busy w + int n * D"
    using t1 f2(3) by (simp add: assms(2) distrib_right)
  then show "\<exists>b w'. bindE m f w = (Inr b, w') \<and> fit c n' k' w' \<and> now w' + busy w' \<le> now w + busy w + int n * D \<and> Q b w'"
    using m f2 by auto
qed

lemma succeeds_conseq: "succeeds c n k m w P \<Longrightarrow> (\<And>a w'. P a w' \<Longrightarrow> Q a w') \<Longrightarrow> succeeds c n k m w Q"
  unfolding succeeds_def by blast

lemma fit_less: "fit c n k w \<Longrightarrow> n' \<le> n \<Longrightarrow> k' \<le> k \<Longrightarrow> fit c n' k' w"
  using D_nonneg mult_right_mono [of "int n'" "int n" D] by (auto simp: fit_def in_time_def split: option.splits)

text \<open>What is not needed is left over.\<close>

lemma succeeds_more:
  assumes "succeeds c n k m w Q" and "n \<le> n'" and "k \<le> k'"
  shows "succeeds c n' k' m w Q"
  unfolding succeeds_def
proof (intro allI impI)
  fix a b assume "fit c (n' + a) (k' + b) w"
  then have "fit c (n + a) (k + b) w" by (rule fit_less) (use assms in simp_all)
  moreover have "int n * D \<le> int n' * D" using assms(2) D_nonneg by (simp add: mult_right_mono)
  ultimately show "\<exists>x w'. m w = (Inr x, w') \<and> fit c a b w' \<and> now w' + busy w' \<le> now w + busy w + int n' * D \<and> Q x w'"
    using assms(1) unfolding succeeds_def by (meson add_left_mono order_trans)
qed

text \<open>The elementary steps.\<close>

lemma fit_frame:
  assumes "fit c n k w" and "now w' = now w" "lags w' = lags w" "net w' = net w" "inbox w' = inbox w"
    "sock_open w' = sock_open w" "sent w' = sent w" "rng w' = rng w"
  shows "fit c n k w'"
  using assms calm_frame [of w w'] in_time_shift [of c "int n * D" w w' "int n * D"] by (simp add: fit_def busy_def)

lemma succeeds_lift:
  assumes "now (g w) = now w" "lags (g w) = lags w" "net (g w) = net w" "inbox (g w) = inbox w"
    "sock_open (g w) = sock_open w" "sent (g w) = sent w" "rng (g w) = rng w" "Q () (g w)"
  shows "succeeds c 0 0 (liftE g) w Q"
  using assms fit_frame [of c _ _ w "g w"] by (auto simp: succeeds_def busy_def)

lemma succeeds_ret: "Q a w \<Longrightarrow> succeeds c 0 0 (retE a) w Q"
  by (simp add: succeeds_def)

lemma setState_frame:
  "now (setState r s w) = now w" "lags (setState r s w) = lags w" "net (setState r s w) = net w"
  "inbox (setState r s w) = inbox w" "sock_open (setState r s w) = sock_open w" "sent (setState r s w) = sent w"
proof -
  have "now (setState r s w) = now w \<and> lags (setState r s w) = lags w \<and> net (setState r s w) = net w
    \<and> inbox (setState r s w) = inbox w \<and> sock_open (setState r s w) = sock_open w \<and> sent (setState r s w) = sent w"
  proof (cases "rOnState r")
    case (Some f)
    then show ?thesis
      using callback [OF Some, of s "emit (EvState s) (w\<lparr>rstate := s\<rparr>)"]
      by (auto simp: setState_def Let_def emit_def)
  qed (simp add: setState_def emit_def)
  then show "now (setState r s w) = now w" "lags (setState r s w) = lags w" "net (setState r s w) = net w"
    "inbox (setState r s w) = inbox w" "sock_open (setState r s w) = sock_open w" "sent (setState r s w) = sent w"
    by simp_all
qed

lemma fit_pause: "fit c n k w \<Longrightarrow> fit c n k (pause w)"
  using calm_frame [of w "pause w"] busy_pause [of w] in_time_shift [of c "int n * D" w "pause w" "int n * D"]
  by (simp add: fit_def)

lemma succeeds_build: "build (sess w) = Some p \<Longrightarrow> Q p w \<Longrightarrow> succeeds c 0 0 (build_with build) w Q"
  by (simp add: succeeds_def build_with_def)

lemma succeeds_salt:
  "res = Some (Inr salt) \<Longrightarrow> Q () (w\<lparr>sess := put salt (sess w)\<rparr>) \<Longrightarrow> succeeds c 0 0 (store_salt put res) w Q"
  using fit_frame [of c _ _ w "w\<lparr>sess := put salt (sess w)\<rparr>"] by (simp add: succeeds_def store_salt_def busy_def)

lemma succeeds_parse:
  "parse (sess w) = Some (Inr s) \<Longrightarrow> Q () (w\<lparr>sess := s\<rparr>) \<Longrightarrow> succeeds c 0 0 (parse_into parse) w Q"
  using fit_frame [of c _ _ w "w\<lparr>sess := s\<rparr>"] by (simp add: succeeds_def parse_into_def busy_def)

text \<open>A builder that draws \<open>k\<close> random bytes: a request of its shape, and the reader advanced.\<close>

lemma succeeds_with_rng:
  assumes "\<And>bs. k \<le> length bs \<Longrightarrow> \<exists>p. build (sess w) (Some bs) = Some (p, Some (drop k bs)) \<and> P p"
    and "\<And>p g. P p \<Longrightarrow> Q p (w\<lparr>rng := g\<rparr>)"
  shows "succeeds c 0 k (with_rng build) w Q"
  unfolding succeeds_def
proof (intro allI impI)
  fix n' k' assume f: "fit c (0 + n') (k + k') w"
  then obtain bs where bs: "rng w = Some bs" "k + k' \<le> length bs" by (auto simp: fit_def)
  then obtain p where p: "build (sess w) (Some bs) = Some (p, Some (drop k bs))" "P p"
    using assms(1) [of bs] by auto
  let ?w = "w\<lparr>rng := Some (drop k bs)\<rparr>"
  have "fit c n' k' ?w"
    using f bs calm_frame [of w ?w] in_time_shift [of c "int n' * D" w ?w "int n' * D"] by (simp add: fit_def busy_def)
  then show "\<exists>a w'. with_rng build w = (Inr a, w') \<and> fit c n' k' w'
      \<and> now w' + busy w' \<le> now w + busy w + int 0 * D \<and> Q a w'"
    using bs(1) p assms(2) by (simp add: with_rng_def busy_def)
qed

lemma exchange_answered:
  assumes "calm w" and "in_time c D w" and "askable p af"
  shows "\<exists>q w'. exchange r c name p af w = (Inr q, w') \<and> calm w' \<and> now w' + busy w' \<le> now w + busy w + D"
proof -
  let ?w = "pause (w\<lparr>resp := []\<rparr>)"
  have b: "busy (w\<lparr>resp := []\<rparr>) = busy w" by (simp add: busy_def)
  have acc: "now ?w + busy ?w = now w + busy w" using b by simp
  have "calm ?w"
    by (rule calm_frame [OF assms(1)]) (use busy_pause [of "w\<lparr>resp := []\<rparr>"] b in simp_all)
  moreover have it: "in_time c D ?w" by (rule in_time_shift [OF assms(2)]) (use acc in linarith)
  ultimately obtain q w1 where X: "rExchange r c p (Some (ResponseMatcher p af)) ?w = (Inr q, w1)" and w1: "calm w1"
    "now w1 + busy w1 \<le> now ?w + busy ?w + D"
    using answered assms(3) unfolding askable_def by blast
  define w2 where "w2 = w1\<lparr>resp := q, trace := trace w1 @ attempt_log r name p (Inr q)\<rparr>"
  have m: "ResponseMatcher p af q = Some (Inr True)" using matched [OF X] by simp
  have A: "attempt r c name p (ResponseMatcher p af) ?w = (Inr (), w2)"
    using attempt_eq [OF X] m by (simp add: w2_def)
  have C: "ctx_Err c (w\<lparr>resp := []\<rparr>) = (None, ?w)"
    using in_time_err [OF assms(2) D_nonneg, of ?w] acc busy_nonneg [of ?w] unfolding ctx_Err_eq by simp
  have "0 < nat (if RetryCount (rcfg r) + 1 < 1 then 1 else RetryCount (rcfg r) + 1)" by simp
  then obtain l where l: "nat (if RetryCount (rcfg r) + 1 < 1 then 1 else RetryCount (rcfg r) + 1) = Suc l"
    unfolding gr0_conv_Suc by blast
  have "exchange r c name p af w = (Inr q, w2)"
    unfolding exchange_def RetryExchange_def Let_def l retry_loop.simps(2) C prod.case option.case A
    by (simp add: w2_def)
  moreover have "calm w2" "now w2 + busy w2 \<le> now w + busy w + D"
    using w1 acc calm_frame [of w1 w2] by (simp_all add: w2_def busy_def)
  ultimately show ?thesis by blast
qed

lemma succeeds_exchange:
  assumes "askable p af" and "\<And>q w'. accepts p af q \<Longrightarrow> came q w w' \<Longrightarrow> sess w' = sess w \<Longrightarrow> Q q w'"
  shows "succeeds c 1 0 (exchange r c name p af) w Q"
  unfolding succeeds_def
proof (intro allI impI)
  fix n' k' assume f: "fit c (1 + n') (0 + k') w"
  then have c: "calm w" and it: "in_time c ((1 + int n') * D) w" by (simp_all add: fit_def)
  have "0 \<le> int n' * D" using D_nonneg by simp
  then have "in_time c D w" by (intro in_time_shift [OF it]) (simp add: distrib_right)
  from exchange_answered [OF c this assms(1)] obtain q w' where E: "exchange r c name p af w = (Inr q, w')"
    and w': "calm w'" "now w' + busy w' \<le> now w + busy w + D" by blast
  have "in_time c (int n' * D) w'" using w'(2) by (intro in_time_shift [OF it]) (simp add: distrib_right)
  then have "fit c n' k' w'" using f w' exchange_spec(3) [OF E] by (simp add: fit_def)
  then show "\<exists>a w'. exchange r c name p af w = (Inr a, w') \<and> fit c n' k' w'
      \<and> now w' + busy w' \<le> now w + busy w + int 1 * D \<and> Q a w'"
    using E w' exchange_spec(2) [OF E] exchange_reply [OF E] assms(2) by auto
qed

text \<open>The operations of the session.\<close>

lemma succeeds_KeepAliveAuth:
  assumes "serves_session" and "\<And>w'. sess w' = sess w \<Longrightarrow> Q () w'"
  shows "succeeds c 1 0 (KeepAliveAuth r c t) w Q"
  unfolding KeepAliveAuth_def
  by (rule succeeds_bind [where ?n1.0 = 0 and ?k1.0 = 0 and ?Q1.0 = "\<lambda>p w'. w' = w \<and> askable p False"],
      rule succeeds_build [OF BuildKeepAliveAuth_layout])
    (auto intro!: succeeds_bind [where ?n2.0 = 0 and ?k2.0 = 0 and ?Q1.0 = "\<lambda>_ w'. sess w' = sess w"]
      succeeds_exchange succeeds_ret assms askable_session(3))

lemma succeeds_keepalive_now:
  assumes "serves_session" and "\<And>w'. sess w' = sess w \<Longrightarrow> Q () w'"
  shows "succeeds c 1 0 (\<lambda>w. let w = pause w in KeepAliveAuth r c (now w) w) w Q"
proof -
  have "succeeds c 1 0 (KeepAliveAuth r c (now (pause w))) (pause w) Q"
    by (rule succeeds_KeepAliveAuth [OF assms(1)]) (simp add: assms(2))
  then show ?thesis
    using fit_pause unfolding succeeds_def by (fastforce simp: Let_def)
qed

lemma succeeds_extra_heartbeat:
  assumes "serves_session" and "\<And>w'. HeartbeatToken (sess w') = HeartbeatToken (sess w) \<Longrightarrow> Q () w'"
  shows "succeeds c 1 4 (extra_heartbeat r c) w Q"
proof (cases "HeartbeatCount (sess w) = 0 \<or> HeartbeatCount (sess w) mod 21 = 0")
  case True
  let ?cfg = "ProtocolConfig (rcfg r)"
  let ?build = "\<lambda>s. if HeartbeatCount s = 0 then BuildFirstHeartbeat ?cfg s else BuildExtraHeartbeat ?cfg s"
  have "succeeds c 1 4 (bindE (with_rng ?build) (\<lambda>p.
      bindE (exchange r c ''first/extra heartbeat'' p True) (\<lambda>_. liftE bump_count))) w Q"
    by (rule succeeds_bind [where ?n1.0 = 0 and ?k1.0 = 4 and ?n2.0 = 1 and ?k2.0 = 0 and ?Q1.0 = "\<lambda>p w'. askable p True \<and> sess w' = sess w"],
        rule succeeds_with_rng [where P = "\<lambda>p. askable p True"])
      (auto simp: BuildFirstHeartbeat_layout BuildExtraHeartbeat_layout bump_count_def assms layout_kinds
        intro!: askable_session(4) [OF assms(1)]
        intro!: succeeds_bind [where ?n1.0 = 1 and ?k1.0 = 0 and ?n2.0 = 0 and ?k2.0 = 0 and ?Q1.0 = "\<lambda>_ w'. sess w' = sess w"]
          succeeds_exchange succeeds_lift)
  then show ?thesis
    using True by (simp add: succeeds_def extra_heartbeat_def Let_def)
next
  case False
  have "succeeds c 0 0 (retE ()) w Q" by (rule succeeds_ret) (simp add: assms)
  then show ?thesis
    using False succeeds_more [of c 0 0 "retE ()" w Q 1 4] by (simp add: succeeds_def extra_heartbeat_def)
qed

lemma succeeds_step2:
  assumes "serves_session" and "pKeepAliveVersion cfg = KeepAliveVersion (rcfg r)"
  shows "succeeds c 1 0
     (bindE (build_with (\<lambda>s. BuildHeartbeatStep2 cfg s tok)) (\<lambda>step2.
      bindE (exchange r c ''heartbeat step2'' step2 False) (\<lambda>_.
      liftE (\<lambda>w. let w = bump_count w in emit (LogHeartbeat (HeartbeatCount (sess w))) w)))) w (\<lambda>_ _. True)"
  by (rule succeeds_bind [where ?n1.0 = 0 and ?k1.0 = 0 and ?Q1.0 = "\<lambda>p w'. askable p False"],
      rule succeeds_build [OF BuildHeartbeatStep2_layout])
    (auto simp: bump_count_def emit_def Let_def assms(2) intro!: askable_session(5) [OF assms(1)]
      intro!: succeeds_bind [where ?n1.0 = 1 and ?k1.0 = 0 and ?n2.0 = 0 and ?k2.0 = 0 and ?Q1.0 = "\<lambda>_ _. True"] succeeds_exchange succeeds_lift)

lemma succeeds_bump_step2:
  assumes "serves_session" and "pKeepAliveVersion cfg = KeepAliveVersion (rcfg r)"
  shows "succeeds c 1 0
     (bindE (liftE bump_count) (\<lambda>_.
      bindE (build_with (\<lambda>s. BuildHeartbeatStep2 cfg s tok)) (\<lambda>step2.
      bindE (exchange r c ''heartbeat step2'' step2 False) (\<lambda>_.
      liftE (\<lambda>w. let w = bump_count w in emit (LogHeartbeat (HeartbeatCount (sess w))) w))))) w (\<lambda>_ _. True)"
  by (rule succeeds_bind [where ?n1.0 = 0 and ?k1.0 = 0 and ?n2.0 = 1 and ?k2.0 = 0 and ?Q1.0 = "\<lambda>_ _. True"],
      rule succeeds_lift) (rule succeeds_step2 [OF assms] | simp add: bump_count_def)+

lemma succeeds_steps:
  assumes "serves_session" and "pKeepAliveVersion cfg = KeepAliveVersion (rcfg r)"
  shows "succeeds c 2 4
     (bindE (with_rng (BuildHeartbeatStep1 cfg)) (\<lambda>step1.
      let randomToken = arr_of (take 4 (drop 8 step1)) in
      bindE (exchange r c ''heartbeat step1'' step1 False) (\<lambda>p.
      bindE (parse_into (ParseHeartbeatStep1Response p)) (\<lambda>_.
      bindE (liftE bump_count) (\<lambda>_.
      bindE (build_with (\<lambda>s. BuildHeartbeatStep2 cfg s randomToken)) (\<lambda>step2.
      bindE (exchange r c ''heartbeat step2'' step2 False) (\<lambda>_.
      liftE (\<lambda>w. let w = bump_count w in emit (LogHeartbeat (HeartbeatCount (sess w))) w)))))))) w (\<lambda>_ _. True)"
  unfolding Let_def
proof (rule succeeds_bind [where ?n1.0 = 0 and ?k1.0 = 4 and ?n2.0 = 2 and ?k2.0 = 0])
  let ?P = "\<lambda>p. askable p False \<and> p ! 0 = 0x07 \<and> p ! 1 = ucast (HeartbeatCount (sess w)) \<and> p ! 5 \<noteq> 0x03"
  show "succeeds c 0 4 (with_rng (BuildHeartbeatStep1 cfg)) w (\<lambda>p w'. ?P p \<and> sess w' = sess w)"
    by (rule succeeds_with_rng [where P = ?P])
      (auto simp: BuildHeartbeatStep1_layout assms(2) intro!: askable_session(5) [OF assms(1)])
  fix p :: bytes and w1 :: world
  assume 1: "?P p \<and> sess w1 = sess w"
  show "succeeds c 2 0 (bindE (exchange r c ''heartbeat step1'' p False) (\<lambda>q.
      bindE (parse_into (ParseHeartbeatStep1Response q)) (\<lambda>_.
      bindE (liftE bump_count) (\<lambda>_.
      bindE (build_with (\<lambda>s. BuildHeartbeatStep2 cfg s (arr_of (take 4 (drop 8 p))))) (\<lambda>step2.
      bindE (exchange r c ''heartbeat step2'' step2 False) (\<lambda>_.
      liftE (\<lambda>w. emit (LogHeartbeat (HeartbeatCount (sess (bump_count w)))) (bump_count w)))))))) w1 (\<lambda>_ _. True)"
  proof (rule succeeds_bind [where ?n1.0 = 1 and ?k1.0 = 0 and ?n2.0 = 1 and ?k2.0 = 0])
    show "succeeds c 1 0 (exchange r c ''heartbeat step1'' p False) w1 (\<lambda>q w'. accepts p False q \<and> sess w' = sess w1)"
      by (rule succeeds_exchange) (use 1 in simp_all)
    fix q :: bytes and w2 :: world
    assume 2: "accepts p False q \<and> sess w2 = sess w1"
    have parse: "ParseHeartbeatStep1Response q (sess w2)
        = Some (Inr ((sess w2)\<lparr>HeartbeatToken := arr_of (take 4 (drop 16 q))\<rparr>))"
      using accepts_step1 [of p q "sess w2"] 1 2 by simp
    show "succeeds c 1 0 (bindE (parse_into (ParseHeartbeatStep1Response q)) (\<lambda>_.
      bindE (liftE bump_count) (\<lambda>_.
      bindE (build_with (\<lambda>s. BuildHeartbeatStep2 cfg s (arr_of (take 4 (drop 8 p))))) (\<lambda>step2.
      bindE (exchange r c ''heartbeat step2'' step2 False) (\<lambda>_.
      liftE (\<lambda>w. emit (LogHeartbeat (HeartbeatCount (sess (bump_count w)))) (bump_count w))))))) w2 (\<lambda>_ _. True)"
      by (rule succeeds_bind [where ?n1.0 = 0 and ?k1.0 = 0 and ?n2.0 = 1 and ?k2.0 = 0 and ?Q1.0 = "\<lambda>_ _. True"],
          rule succeeds_parse [where parse = "ParseHeartbeatStep1Response q", OF parse])
        (rule refl TrueI succeeds_bump_step2 [OF assms, unfolded Let_def] | simp)+
  qed simp_all
qed simp_all

lemma succeeds_HeartbeatOnce:
  assumes "serves_session"
  shows "succeeds c 4 8 (HeartbeatOnce r c) w (\<lambda>_ _. True)"
  unfolding HeartbeatOnce_def Let_def [of "ProtocolConfig (rcfg r)"]
proof (rule succeeds_bind [where ?n1.0 = 1 and ?k1.0 = 0 and ?n2.0 = 3 and ?k2.0 = 8])
  show "succeeds c 1 0 (\<lambda>w. let w = pause w in KeepAliveAuth r c (now w) w) w (\<lambda>_ _. True)"
    by (rule succeeds_keepalive_now [OF assms]) simp
  fix w1 :: world
  show "succeeds c 3 8 (bindE (extra_heartbeat r c) (\<lambda>_.
     bindE (with_rng (BuildHeartbeatStep1 (ProtocolConfig (rcfg r)))) (\<lambda>step1.
      let randomToken = arr_of (take 4 (drop 8 step1)) in
      bindE (exchange r c ''heartbeat step1'' step1 False) (\<lambda>p.
      bindE (parse_into (ParseHeartbeatStep1Response p)) (\<lambda>_.
      bindE (liftE bump_count) (\<lambda>_.
      bindE (build_with (\<lambda>s. BuildHeartbeatStep2 (ProtocolConfig (rcfg r)) s randomToken)) (\<lambda>step2.
      bindE (exchange r c ''heartbeat step2'' step2 False) (\<lambda>_.
      liftE (\<lambda>w. let w = bump_count w in emit (LogHeartbeat (HeartbeatCount (sess w))) w))))))))) w1 (\<lambda>_ _. True)"
    by (rule succeeds_bind [where ?n1.0 = 1 and ?k1.0 = 4 and ?n2.0 = 2 and ?k2.0 = 4 and ?Q1.0 = "\<lambda>_ _. True"],
        rule succeeds_extra_heartbeat [OF assms]) (rule succeeds_steps [OF assms] | simp add: ProtocolConfig_def)+
qed simp_all

lemma succeeds_setState:
  "Q () (setState r s w) \<Longrightarrow> succeeds c 0 0 (liftE (setState r s)) w Q"
  by (rule succeeds_lift) (simp_all add: setState_frame)

lemma succeeds_login_exchange:
  assumes "succeeds c 1 0 (exchange r c name p af) w Q"
  shows "succeeds c 1 0 (\<lambda>w. login_error (exchange r c name p af w)) w Q"
  using assms unfolding succeeds_def by (fastforce simp: login_error_def)

lemma succeeds_login_packet:
  "succeeds c 0 2 (login_packet cfg) w (\<lambda>p _. is_request p \<and> p ! 0 = 0x03)"
  unfolding succeeds_def
proof (intro allI impI)
  fix n' k' assume f: "fit c (0 + n') (2 + k') w"
  then obtain bs where bs: "rng w = Some bs" "2 + k' \<le> length bs" by (auto simp: fit_def)
  let ?w = "w\<lparr>sess := (sess w)\<lparr>MD5Password := login_md5a cfg (sess w)\<rparr>, rng := Some (drop 2 bs)\<rparr>"
  have p: "login_packet cfg w = (Inr (login_layout cfg (sess w) (take 2 bs)), ?w)"
    using bs by (simp add: login_packet_def BuildLoginPacket_layout_aux mustReadRandom_def)
  have "fit c n' k' ?w"
    using f bs calm_frame [of w ?w] in_time_shift [of c "int n' * D" w ?w "int n' * D"] by (simp add: fit_def busy_def)
  moreover have "login_layout cfg (sess w) (take 2 bs) ! 0 = 0x03"
    by (simp add: login_layout_def login_layout_body_def login_layout_head_def Let_def nth_append)
  ultimately show "\<exists>a w'. login_packet cfg w = (Inr a, w') \<and> fit c n' k' w'
      \<and> now w' + busy w' \<le> now w + busy w + int 0 * D \<and> is_request a \<and> a ! 0 = 0x03"
    using p by (simp add: busy_def)
qed

text \<open>A challenge exchange: the builder draws two bytes, and the reply carries a salt.\<close>

lemma succeeds_challenge:
  assumes "\<And>bs. 2 \<le> length bs \<Longrightarrow> build (Some bs) = Some (challenge_layout sub (take 2 bs) av, Some (drop 2 bs))"
    and "\<And>q. parse q = parseChallengeResponse q sub"
    and "\<And>p. is_request p \<Longrightarrow> p ! 0 = 0x01 \<Longrightarrow> p ! 1 = sub \<Longrightarrow> askable p False"
    and "\<And>u w'. succeeds c n k (f u) w' Q"
  shows "succeeds c (1 + n) (2 + k)
     (bindE (with_rng (\<lambda>_. build)) (\<lambda>challenge.
      bindE (exchange r c name challenge False) (\<lambda>p.
      bindE (store_salt put (parse p)) f))) w Q"
proof (rule succeeds_bind [where ?n1.0 = 0 and ?k1.0 = 2 and ?n2.0 = "1 + n" and ?k2.0 = k])
  let ?P = "\<lambda>p. askable p False \<and> p ! 0 = 0x01 \<and> p ! 1 = sub"
  show "succeeds c 0 2 (with_rng (\<lambda>_. build)) w (\<lambda>p w'. ?P p)"
  proof (rule succeeds_with_rng [where P = ?P])
    show "\<exists>p. build (Some bs) = Some (p, Some (drop 2 bs)) \<and> ?P p" if "2 \<le> length bs" for bs
    proof -
      have "challenge_layout sub (take 2 bs) av ! 1 = sub" by (simp add: challenge_layout_def)
      then show ?thesis using assms(1) [OF that] assms(3) by simp
    qed
  qed simp
  fix p :: bytes and w1 :: world
  assume 1: "?P p"
  show "succeeds c (1 + n) k (bindE (exchange r c name p False) (\<lambda>p. bindE (store_salt put (parse p)) f)) w1 Q"
  proof (rule succeeds_bind [where ?n1.0 = 1 and ?k1.0 = 0 and ?n2.0 = n and ?k2.0 = k])
    show "succeeds c 1 0 (exchange r c name p False) w1 (\<lambda>q w'. accepts p False q)"
      by (rule succeeds_exchange) (use 1 in simp_all)
    fix q :: bytes and w2 :: world
    assume "accepts p False q"
    then have salt: "parse q = Some (Inr (arr_of (take 4 (drop 4 q))))"
      using accepts_challenge [of p False q] 1 by (simp add: assms(2))
    show "succeeds c n k (bindE (store_salt put (parse q)) f) w2 Q"
      by (rule succeeds_bind [where ?n1.0 = 0 and ?k1.0 = 0 and ?n2.0 = n and ?k2.0 = k and ?Q1.0 = "\<lambda>_ _. True"],
          rule succeeds_salt [OF salt]) (simp_all add: assms(4))
  qed simp_all
qed simp_all

lemma succeeds_login_rest:
  assumes "serves_session"
  shows "succeeds c 1 2
     (bindE (login_packet cfg) (\<lambda>packet.
      bindE (\<lambda>w. login_error (exchange r c ''login'' packet False w)) (\<lambda>p.
      bindE (parse_into (ParseLoginResponse p)) (\<lambda>_.
      liftE (emit LogLogin))))) w (\<lambda>_ _. True)"
proof (rule succeeds_bind [OF succeeds_login_packet, where ?n2.0 = 1 and ?k2.0 = 0])
  fix p :: bytes and w1 :: world
  assume 1: "is_request p \<and> p ! 0 = 0x03"
  show "succeeds c 1 0 (bindE (\<lambda>w. login_error (exchange r c ''login'' p False w)) (\<lambda>p.
      bindE (parse_into (ParseLoginResponse p)) (\<lambda>_. liftE (emit LogLogin)))) w1 (\<lambda>_ _. True)"
  proof (rule succeeds_bind [where ?n1.0 = 1 and ?k1.0 = 0 and ?n2.0 = 0 and ?k2.0 = 0])
    show "succeeds c 1 0 (\<lambda>w. login_error (exchange r c ''login'' p False w)) w1 (\<lambda>q w'. accepts p False q)"
      by (rule succeeds_login_exchange, rule succeeds_exchange) (use 1 askable_session(2) [OF assms] in simp_all)
    fix q :: bytes and w2 :: world
    assume "accepts p False q"
    then have parse: "ParseLoginResponse q (sess w2) =
        Some (Inr ((sess w2)\<lparr>ServerDrcomIndicator := arr_of (take 16 (drop 23 q))\<rparr>))"
      using accepts_login [of p False q] 1 by simp
    show "succeeds c 0 0 (bindE (parse_into (ParseLoginResponse q)) (\<lambda>_. liftE (emit LogLogin))) w2 (\<lambda>_ _. True)"
      by (rule succeeds_bind [where ?n1.0 = 0 and ?k1.0 = 0 and ?n2.0 = 0 and ?k2.0 = 0 and ?Q1.0 = "\<lambda>_ _. True"],
          rule succeeds_parse [where parse = "ParseLoginResponse q", OF parse])
        (rule succeeds_lift | simp add: emit_def)+
  qed simp_all
qed simp_all

lemma succeeds_Login:
  assumes "serves_session"
  shows "succeeds c 2 4 (Login r c) w (\<lambda>_ _. True)"
  unfolding Login_def Let_def
proof (rule succeeds_bind [where ?n1.0 = 0 and ?k1.0 = 0 and ?n2.0 = "1 + 1" and ?k2.0 = "2 + 2" and ?Q1.0 = "\<lambda>_ _. True"])
  show "succeeds c 0 0 (liftE (\<lambda>w. setState r StateLoginChallenge (w\<lparr>sess := zero_session\<rparr>))) w (\<lambda>_ _. True)"
    by (rule succeeds_lift) (simp_all add: setState_frame)
next
  fix w1 :: world
  show "succeeds c (1 + 1) (2 + 2)
     (bindE (with_rng (\<lambda>_. BuildLoginChallenge (pAuthVersion (ProtocolConfig (rcfg r))))) (\<lambda>challenge.
      bindE (exchange r c ''login challenge'' challenge False) (\<lambda>p.
      bindE (store_salt (\<lambda>salt s. s\<lparr>LoginSalt := salt\<rparr>) (ParseLoginChallengeResponse p)) (\<lambda>_.
      bindE (liftE (setState r StateLoggingIn)) (\<lambda>_.
      bindE (login_packet (ProtocolConfig (rcfg r))) (\<lambda>packet.
      bindE (\<lambda>w. login_error (exchange r c ''login'' packet False w)) (\<lambda>p.
      bindE (parse_into (ParseLoginResponse p)) (\<lambda>_.
      liftE (emit LogLogin))))))))) w1 (\<lambda>_ _. True)"
    by (rule succeeds_challenge [where sub = "0x02" and parse = ParseLoginChallengeResponse], erule BuildLoginChallenge_layout,
        rule ParseLoginChallengeResponse_def, erule (2) askable_session(1) [OF assms],
        rule succeeds_bind [where ?n1.0 = 0 and ?k1.0 = 0 and ?n2.0 = 1 and ?k2.0 = 2 and ?Q1.0 = "\<lambda>_ _. True"])
      (rule succeeds_setState succeeds_login_rest [OF assms] | simp)+
qed simp_all

lemma succeeds_Logout:
  assumes "serves_logout"
  shows "succeeds c 2 2 (Logout r c) w (\<lambda>_ _. True)"
  unfolding Logout_def Let_def
proof (rule succeeds_bind [where ?n1.0 = 0 and ?k1.0 = 0 and ?n2.0 = "1 + 1" and ?k2.0 = "2 + 0" and ?Q1.0 = "\<lambda>_ _. True"])
  show "succeeds c 0 0 (liftE (setState r StateLoggingOut)) w (\<lambda>_ _. True)"
    by (rule succeeds_setState) simp
next
  let ?cfg = "ProtocolConfig (rcfg r)"
  let ?finish = "\<lambda>_. liftE (\<lambda>w. emit LogLogout (setState r StateStopped w))"
  let ?packet = "bindE (build_with (BuildLogoutPacket ?cfg)) (\<lambda>packet. bindE (exchange r c ''logout'' packet False) ?finish)"
  have fin: "succeeds c 0 0 (?finish q) w2 (\<lambda>_ _. True)" for q :: bytes and w2
    by (rule succeeds_lift) (simp_all add: setState_frame emit_def)
  have ex: "succeeds c 1 0 (bindE (exchange r c ''logout'' p False) ?finish) w2 (\<lambda>_ _. True)" if "askable p False" for p w2
    by (rule succeeds_bind [where ?n1.0 = 1 and ?k1.0 = 0 and ?n2.0 = 0 and ?k2.0 = 0 and ?Q1.0 = "\<lambda>_ _. True"],
        rule succeeds_exchange [OF that]) (rule fin | simp)+
  have pk: "succeeds c 1 0 ?packet w2 (\<lambda>_ _. True)" for w2
    by (rule succeeds_bind [where ?n1.0 = 0 and ?k1.0 = 0 and ?n2.0 = 1 and ?k2.0 = 0 and ?Q1.0 = "\<lambda>p _. askable p False"],
        rule succeeds_build [OF BuildLogoutPacket_layout]) (simp_all add: askable_logout(2) [OF assms] ex [unfolded One_nat_def])
  fix w1 :: world
  show "succeeds c (1 + 1) (2 + 0)
     (bindE (with_rng (\<lambda>_. BuildLogoutChallenge (pAuthVersion ?cfg))) (\<lambda>challenge.
      bindE (exchange r c ''logout challenge'' challenge False) (\<lambda>p.
      bindE (store_salt (\<lambda>salt s. s\<lparr>LogoutSalt := salt\<rparr>) (ParseLogoutChallengeResponse p)) (\<lambda>_. ?packet)))) w1 (\<lambda>_ _. True)"
    by (rule succeeds_challenge [where sub = "0x03" and parse = ParseLogoutChallengeResponse], erule BuildLogoutChallenge_layout,
        rule ParseLogoutChallengeResponse_def, erule (2) askable_logout(1) [OF assms], rule pk)
qed simp_all

end

section \<open>Staying online\<close>

text \<open>
  The world after \<open>k\<close> rounds of the loop, if all of them succeed and the context does not end: the part of
  \<open>heartbeat_loop\<close> that goes on.
\<close>

fun rounds_online :: "runner \<Rightarrow> ctx_t \<Rightarrow> nat \<Rightarrow> world \<Rightarrow> world option" where
  "rounds_online r c 0 w = Some w"
| "rounds_online r c (Suc k) w =
     (case HeartbeatOnce r c w of
        (Inl _, _) \<Rightarrow> None
      | (Inr _, w) \<Rightarrow>
          let w = pause (setState r StateOnline w) in
          (case select_done c (now w + HeartbeatInterval (rcfg r)) w of
             (True, _) \<Rightarrow> None
           | (False, w) \<Rightarrow> rounds_online r c k w))"

lemma rounds_online_loop:
  "rounds_online r c k w = Some w' \<Longrightarrow> heartbeat_loop r c (k + m) w = heartbeat_loop r c m w'"
proof (induction k arbitrary: w)
  case (Suc k)
  obtain y w1 where H: "HeartbeatOnce r c w = (y, w1)" by (rule prod.exhaust)
  with Suc.prems obtain u where u: "y = Inr u" by (cases y) auto
  obtain b w2 where sel: "select_done c (now (pause (setState r StateOnline w1)) + HeartbeatInterval (rcfg r))
      (pause (setState r StateOnline w1)) = (b, w2)" by (rule prod.exhaust)
  have "\<not> b" using Suc.prems H u sel by (auto simp: Let_def split: bool.splits)
  then show ?case using Suc.IH [of w2] Suc.prems H u sel by (simp add: Let_def)
qed simp

context answering_runner
begin

text \<open>The wait between two rounds ends with the timer.\<close>

lemma wait_in_time:
  assumes "calm w" and "in_time c (m + max 0 iv) w" and "0 \<le> m"
  obtains w' where "select_done c (now w + iv) w = (False, w')" and "calm w'" and "rng w' = rng w"
    and "now w' + busy w' \<le> now w + busy w + max 0 iv"
proof -
  obtain b w' where sel: "select_done c (now w + iv) w = (b, w')" by (rule prod.exhaust)
  have t: "now w' + busy w' \<le> now w + busy w + max 0 iv"
    using select_done_busy(2) [OF sel] by linarith
  have "in_time c 0 w'" by (rule in_time_shift [OF assms(2)]) (use t assms(3) in linarith)
  then have "ctx_err_at c (now w') = None"
    by (rule in_time_err) simp_all
  then have "\<not> b" using sel by (metis (full_types) select_done_True)
  moreover have "calm w'" "rng w' = rng w"
    using calm_frame [OF assms(1)] select_done_frame [OF sel] select_done_busy(1) [OF sel] by (simp_all add: same_local_def)
  ultimately show thesis using that sel t by auto
qed

abbreviation answer_time :: "nat \<Rightarrow> int" where
  "answer_time n \<equiv> int n * (4 * D + max 0 (HeartbeatInterval (rcfg r)))"

lemma rounds_online_succeed:
  assumes "serves_session"
  assumes "calm w" and "in_time c (answer_time n) w" and "rng w = Some bs" "8 * n \<le> length bs"
  shows "\<exists>w'. rounds_online r c n w = Some w' \<and> calm w' \<and> now w' + busy w' \<le> now w + busy w + answer_time n"
  using assms(2-)
proof (induction n arbitrary: w bs)
  case (Suc n)
  let ?I = "max 0 (HeartbeatInterval (rcfg r))"
  have nn: "0 \<le> answer_time n" using D_nonneg by simp
  have split: "answer_time (Suc n) = 4 * D + (answer_time n + ?I)" by (simp add: algebra_simps)
  have "int 4 * D \<le> answer_time (Suc n)"
    using nn max.cobounded1 [of 0 "HeartbeatInterval (rcfg r)"] unfolding split by linarith
  then have "in_time c (int 4 * D) w"
    by (intro in_time_shift [OF Suc.prems(2)]) linarith
  then have "fit c (4 + 0) (8 + 8 * n) w"
    using Suc.prems by (simp add: fit_def)
  then obtain u w1 where H: "HeartbeatOnce r c w = (Inr u, w1)" and f: "fit c 0 (8 * n) w1"
    and t1: "now w1 + busy w1 \<le> now w + busy w + int 4 * D"
    using succeeds_HeartbeatOnce [OF assms(1)] unfolding succeeds_def by blast
  let ?v = "pause (setState r StateOnline w1)"
  have fv: "fit c 0 (8 * n) ?v"
    by (rule fit_pause, rule fit_frame [OF f]) (simp_all add: setState_frame)
  have tv: "now ?v + busy ?v \<le> now w + busy w + 4 * D"
    using t1 by (simp add: setState_frame busy_def [of "setState r StateOnline w1"] busy_def [of w1])
  have "in_time c (answer_time n + ?I) ?v"
    by (rule in_time_shift [OF Suc.prems(2)]) (use tv in \<open>simp only: split\<close>)
  with fv obtain w2 where sel: "select_done c (now ?v + HeartbeatInterval (rcfg r)) ?v = (False, w2)" "calm w2"
    "rng w2 = rng ?v" "now w2 + busy w2 \<le> now ?v + busy ?v + ?I"
    using wait_in_time [of ?v c "answer_time n"] nn unfolding fit_def by blast
  obtain bs' where "rng w2 = Some bs'" "8 * n \<le> length bs'"
    using fv sel(3) by (auto simp: fit_def)
  moreover have t2: "now w2 + busy w2 + answer_time n \<le> now w + busy w + answer_time (Suc n)"
    using sel(4) tv unfolding split by linarith
  moreover have "in_time c (answer_time n) w2"
    by (rule in_time_shift [OF Suc.prems(2) t2])
  ultimately obtain w' where "rounds_online r c n w2 = Some w'" "calm w'"
    "now w' + busy w' \<le> now w2 + busy w2 + answer_time n"
    using Suc.IH [of w2] sel(2) by blast
  then show ?case
    using H sel(1) t2 by (auto simp: Let_def)
qed simp

text \<open>What the rounds announce.\<close>

lemma rounds_online_went:
  assumes "rounds_online r c n w = Some w'"
  shows "went S G c (int n * round_time) (beats n (HeartbeatCount (sess w))) w w'"
  using assms
proof (induction n arbitrary: w)
  case (Suc n)
  obtain y w1 where H: "HeartbeatOnce r c w = (y, w1)" by (rule prod.exhaust)
  with Suc.prems obtain u where u: "y = Inr u" by (cases y) auto
  obtain b w2 where sel: "select_done c (now (pause (setState r StateOnline w1)) + HeartbeatInterval (rcfg r))
      (pause (setState r StateOnline w1)) = (b, w2)" by (rule prod.exhaust)
  have b: "\<not> b" using Suc.prems H u sel by (auto simp: Let_def split: bool.splits)
  note rnd = round_went [OF H [unfolded u] sel]
  have "rounds_online r c n w2 = Some w'"
    using Suc.prems H u sel b by (simp add: Let_def)
  from went_trans [OF rnd(1) Suc.IH [OF this]] show ?case
    by (simp add: rnd(2) algebra_simps)
qed (simp add: went_refl)

lemma session_online:
  assumes "serves_session"
  assumes "calm w" and "in_time c (2 * D + answer_time n) w" and "rng w = Some bs" "4 + 8 * n \<le> length bs"
    and "0 < HeartbeatInterval (rcfg r)"
  shows "\<exists>u w1 w'. Login r c w = (Inr u, w1) \<and> rounds_online r c n w1 = Some w'
     \<and> (\<exists>m. went S G c m ([EvState StateLoginChallenge, EvState StateLoggingIn, LogLogin] @ beats n 0) w w')
     \<and> now w' + busy w' \<le> now w + busy w + 2 * D + answer_time n \<and> Run r c n w = None \<and> calm w'"
proof -
  have nn: "0 \<le> answer_time n" using D_nonneg by simp
  have "in_time c (int 2 * D) w"
    using nn by (intro in_time_shift [OF assms(3)]) simp
  then have "fit c (2 + 0) (4 + 8 * n) w"
    using assms by (simp add: fit_def)
  then obtain u w1 where L: "Login r c w = (Inr u, w1)" and f: "fit c 0 (8 * n) w1"
    and t1: "now w1 + busy w1 \<le> now w + busy w + int 2 * D"
    using succeeds_Login [OF assms(1)] unfolding succeeds_def by blast
  obtain bs' where b: "calm w1" "rng w1 = Some bs'" "8 * n \<le> length bs'"
    using f by (auto simp: fit_def)
  have it: "in_time c (answer_time n) w1"
    by (rule in_time_shift [OF assms(3)]) (use t1 in simp)
  from rounds_online_succeed [OF assms(1) b(1) it b(2,3)] obtain w' where R: "rounds_online r c n w1 = Some w'" "calm w'"
    "now w' + busy w' \<le> now w1 + busy w1 + answer_time n"
    by auto
  have ms: "went S G c (2 * exchange_time) [EvState StateLoginChallenge, EvState StateLoggingIn, LogLogin] w w1"
    and s: "HeartbeatCount (sess w1) = 0"
    using triple_Login [where c = c and w = w] unfolding triple_def L by (auto simp: login_session_def zero_session_def)
  have "went S G c (2 * exchange_time + int n * round_time)
      ([EvState StateLoginChallenge, EvState StateLoggingIn, LogLogin] @ beats n 0) w w'"
    using went_trans [OF ms rounds_online_went [OF R(1)]] unfolding s .
  moreover have "Run r c n w = None"
    using rounds_online_loop [OF R(1), of 0] L assms(6) by (simp add: Run_def)
  moreover have "now w' + busy w' \<le> now w + busy w + 2 * D + answer_time n"
    using R(3) t1 by linarith
  ultimately show ?thesis
    using L R(1,2) by blast
qed

text \<open>The deferred logout, when the context of the run is done.\<close>

lemma deferred_logout_clean:
  assumes "serves_logout"
  assumes "calm w" and "ctx_err_at c (now w) \<noteq> None" and "2 * D + busy w < 1500 * millisecond"
    and "rng w = Some bs" "2 \<le> length bs"
  shows "\<exists>w'. deferred_logout r c (y, w) = (y, w')
     \<and> (\<exists>m. went S G no_ctx m [EvState StateLoggingOut, EvState StateStopped, LogLogout] w w')
     \<and> now w' + busy w' \<le> now w + busy w + 2 * D"
proof -
  let ?v = "pause (pause w)"
  let ?lc = "\<lparr>cancel_at = None, ctx_deadline = Some (now ?v + 1500 * millisecond)\<rparr>"
  have "busy ?v \<le> busy w" using busy_pause [of w] busy_pause [of "pause w"] by linarith
  then have v: "calm ?v" "in_time ?lc (int 2 * D) ?v"
    using calm_frame [OF assms(2), of ?v] assms(4) by (simp_all add: in_time_def ctx_done_def del: pause_account)
  then have "fit ?lc (2 + 0) (2 + 0) ?v"
    using assms(5,6) by (simp add: fit_def)
  then obtain u w1 where L: "Logout r ?lc ?v = (Inr u, w1)" and t: "now w1 + busy w1 \<le> now ?v + busy ?v + int 2 * D"
    using succeeds_Logout [OF assms(1)] unfolding succeeds_def by blast
  have "ctx_err_at c (now (pause w)) \<noteq> None"
    using assms(3) ctx_err_at_mono [of c "now w" _ "now (pause w)"] now_pause [of w] by (metis option.exhaust option.simps(3))
  then obtain e where "ctx_err_at c (now (pause w)) = Some e" by blast
  then have "deferred_logout r c (y, w) = (y, w1)"
    using L by (simp add: deferred_logout_def ctx_Err_eq Let_def)
  moreover have ms: "went S G ?lc (2 * exchange_time) [EvState StateLoggingOut, EvState StateStopped, LogLogout] ?v w1"
    using triple_Logout [where c = ?lc and w = ?v] unfolding triple_def L by auto
  moreover have "went S G no_ctx (0 + (0 + 2 * exchange_time)) ([] @ [] @ [EvState StateLoggingOut, EvState StateStopped, LogLogout]) w w1"
    by (rule went_trans [OF went_pause went_trans [OF went_pause went_any [OF ms]]])
  moreover have "now w1 + busy w1 \<le> now w + busy w + 2 * D" using t by simp
  ultimately show ?thesis unfolding append_Nil by blast
qed

end

text \<open>The runner that \<open>New\<close> builds on the UDP transport.\<close>

interpretation ar: answering_runner "plain_runner cfg t" "max 0 (timeout t)" "\<lambda>a. sameUDPAddr (Some a) (Some (server t))"
  "\<lambda>_ d. d" A F "int D" "quiet A F D t" for cfg t A F D
  by (rule answering_runner.intro) (simp_all add: cl.runner_env_axioms an.answering_exchanger_axioms)

text \<open>The servers of the properties: one that answers sessions, and one that answers logouts.\<close>

abbreviation session_server :: "config \<Rightarrow> nat \<Rightarrow> udp_addr \<Rightarrow> (bytes list \<Rightarrow> bytes \<Rightarrow> string + (nat \<times> arrival) list)
    \<Rightarrow> bytes list \<Rightarrow> bool" where
  "session_server cfg \<equiv> answers session_request (file_request cfg)"

abbreviation logout_server :: "nat \<Rightarrow> udp_addr \<Rightarrow> (bytes list \<Rightarrow> bytes \<Rightarrow> string + (nat \<times> arrival) list) \<Rightarrow> bytes list \<Rightarrow> bool" where
  "logout_server \<equiv> answers logout_request (\<lambda>_. False)"

text \<open>Nothing else is on its way to the open socket, and the scheduler leaves time for an answer.\<close>

definition undisturbed :: "nat \<Rightarrow> transport \<Rightarrow> world \<Rightarrow> bool" where
  "undisturbed D t w \<longleftrightarrow> inbox w = [] \<and> sock_open w \<and> int D + busy w < timeout t"

lemma quiet_undisturbed:
  "quiet A F D t w \<longleftrightarrow> answers A F D (server t) (net w) (map snd (sent w)) \<and> undisturbed D t w"
  by (simp add: quiet_def undisturbed_def)

lemma ar_serves_session: "versions_differ cfg \<Longrightarrow> ar.serves_session cfg t session_request (file_request cfg)"
  by (simp add: ar.serves_session_def)

lemma ar_serves_logout: "ar.serves_logout logout_request (\<lambda>_. False)"
  by (simp add: ar.serves_logout_def)

section \<open>A concrete server\<close>

text \<open>
  The shortest answer to each request, and to a first or extra heartbeat the 272 bytes of phase \<open>06\<close>, sent 10 microseconds
  after it arrives.
\<close>

definition honest_reply :: "bytes \<Rightarrow> bytes" where
  "honest_reply p =
     (if p ! 0 = 0x01 then [0x02, p ! 1, 0, 0, 1, 2, 3, 4]
      else if p ! 0 = 0x03 then 0x04 # zeros 38
      else if p ! 0 = 0x06 then 0x04 # zeros 24
      else if p ! 0 = 0xff then [0x07, 0, 16, 0, 0x06] @ zeros 67
      else if p ! 5 = 0x03 then [0x07, p ! 1, 40, 0, 0x0b, 0x04] @ zeros 34
      else if file_request sample_config p then [0x07, p ! 1, 16, 1, 0x0b, 0x06] @ zeros 266
      else [0x07, p ! 1, 40, 0, 0x0b, 0x02] @ zeros 34)"

definition honest_world :: world where
  "honest_world = sample_world
     \<lparr>rng := Some (replicate 40 0xaa),
      net := (\<lambda>_ p. Inr [(10000, Datagram \<lparr>addr_ip = [10, 100, 61, 3], addr_port = 61440\<rparr> (honest_reply p))])\<rparr>"

lemma honest_reply_accepted:
  assumes "is_request p"
  shows "accepts p (file_request sample_config p) (honest_reply p)"
proof (cases "file_request sample_config p")
  case True
  then have "p ! 0 = 0x07" "p ! 5 = 0x01" by (simp_all add: file_request_def)
  then show ?thesis
    using assms True by (simp add: is_request_def accepts_def honest_reply_def heartbeat_ok_def le16_def)
next
  case False
  then show ?thesis
    using assms by (auto simp: is_request_def accepts_def honest_reply_def logout_ok_def keepalive_ok_def heartbeat_ok_def le16_def)
qed

lemma honest_answers:
  assumes "\<And>p. A p \<Longrightarrow> file_request sample_config p \<Longrightarrow> F p"
  shows "answers A F 10000 (server sample_transport) (net honest_world) h"
  unfolding answers_def
proof (intro allI impI)
  fix h' :: "bytes list" and p :: bytes
  assume p: "list_all A h' \<and> is_request p \<and> A p"
  have "accepts p (F p) (honest_reply p)"
    by (rule accepts_more [OF honest_reply_accepted]) (use p assms in auto)
  moreover have "length (honest_reply p) \<le> 4096" by (simp add: honest_reply_def)
  ultimately show "\<exists>k a q. net honest_world (h @ h') p = Inr [(k, Datagram a q)] \<and> k \<le> 10000
      \<and> sameUDPAddr (Some a) (Some (server sample_transport)) \<and> length q \<le> defaultReceiveBufferSize \<and> accepts p (F p) q"
    by (intro exI [of _ 10000] exI [of _ "\<lparr>addr_ip = [10, 100, 61, 3], addr_port = 61440\<rparr>"] exI [of _ "honest_reply p"])
      (simp add: honest_world_def sample_transport_def sameUDPAddr_def defaultReceiveBufferSize_def)
qed

lemma honest_undisturbed: "undisturbed 10000 sample_transport honest_world"
  by (simp add: undisturbed_def honest_world_def sample_world_def sample_transport_def busy_def millisecond_def)

lemma sample_versions: "versions_differ sample_config"
  by (simp add: versions_differ_def sample_config_def arr_of_eq_iff)

section \<open>Properties\<close>

text \<open>
  Property C4. A server that answers is enough. If from now on the network delivers, for every request of a session after
  other such requests, an answer of the server within \<open>D\<close> (plus the delays of the scheduler less than the receive timeout), where the first and the extra
  heartbeats may be answered with the file of phase \<open>06\<close> as documented, and the context does not
  end, then the session comes online and stays online: login succeeds, each of \<open>n\<close> heartbeat rounds succeeds and announces
  \<open>Online\<close>, nothing else happens, \<open>Run\<close> has not returned, and the time is that of \<open>2 + 4 n\<close> answers and
  \<open>n\<close> intervals. The server knows the first and extra heartbeats by their versions, which must differ from that of the others.
\<close>

theorem answering_server_keeps_online:
  assumes "session_server cfg D (server t) (net w) (map snd (sent w))" and "undisturbed D t w" and "versions_differ cfg"
    and "in_time c (2 * int D + int n * (4 * int D + HeartbeatInterval cfg)) w"
    and "rng w = Some bs" "4 + 8 * n \<le> length bs" and "0 < HeartbeatInterval cfg"
  shows "\<exists>w1 w'. Login (plain_runner cfg t) c w = (Inr (), w1) \<and> rounds_online (plain_runner cfg t) c n w1 = Some w'
     \<and> (\<forall>m. heartbeat_loop (plain_runner cfg t) c (n + m) w1 = heartbeat_loop (plain_runner cfg t) c m w')
     \<and> Run (plain_runner cfg t) c n w = None
     \<and> new_milestones w w' = [EvState StateLoginChallenge, EvState StateLoggingIn, LogLogin] @ beats n 0
     \<and> now w' + busy w' \<le> now w + busy w + 2 * int D + int n * (4 * int D + HeartbeatInterval cfg)
     \<and> undisturbed D t w'"
proof -
  have iv: "max 0 (HeartbeatInterval cfg) = HeartbeatInterval cfg" using assms(7) by simp
  have q: "quiet session_request (file_request cfg) D t w" using assms(1,2) by (simp add: quiet_undisturbed)
  from ar.session_online [where cfg = cfg and t = t, OF ar_serves_session [OF assms(3)] q, unfolded plain_runner_simps iv, OF assms(4-7)]
  obtain u w1 w' m
    where "Login (plain_runner cfg t) c w = (Inr u, w1)" "rounds_online (plain_runner cfg t) c n w1 = Some w'"
      and w: "went (\<lambda>a. sameUDPAddr (Some a) (Some (server t))) (\<lambda>_ d. d) c m
        ([EvState StateLoginChallenge, EvState StateLoggingIn, LogLogin] @ beats n 0) w w'"
      and "now w' + busy w' \<le> now w + busy w + 2 * int D + int n * (4 * int D + HeartbeatInterval cfg)"
      "Run (plain_runner cfg t) c n w = None" "quiet session_request (file_request cfg) D t w'"
    by auto
  then show ?thesis using went_facts(1) [OF w] rounds_online_loop by (cases u) (auto simp: quiet_undisturbed)
qed

theorem answering_server_keeps_online_witness:
  "Run (plain_runner sample_config sample_transport) no_ctx 4 honest_world = None"
proof -
  have "in_time no_ctx m honest_world" for m
    by (simp add: in_time_def no_ctx_def ctx_done_def)
  moreover have "rng honest_world = Some (replicate 40 0xaa)" "0 < HeartbeatInterval sample_config"
    by (simp_all add: honest_world_def sample_config_def second_def)
  moreover have "session_server sample_config 10000 (server sample_transport) (net honest_world) (map snd (sent honest_world))"
    by (rule honest_answers)
  ultimately show ?thesis
    using answering_server_keeps_online [OF _ honest_undisturbed sample_versions, of no_ctx 4 "replicate 40 0xaa"] by force
qed

text \<open>
  Property C10. A clean logout. If the context of a run is done, the server answers logout challenges and logouts within
  \<open>D\<close>, as long as only such requests are sent from now on, and two answers with the delays of the
  scheduler take less than the 1.5 seconds that the deferred logout has, then the logout completes: it announces
  \<open>LoggingOut\<close> and \<open>Stopped\<close>, logs success, takes two answers, and the result of the run is unchanged.
\<close>

theorem answering_server_logs_out:
  assumes "logout_server D (server t) (net w) (map snd (sent w))" and "undisturbed D t w"
    and "ctx_err_at c (now w) \<noteq> None" and "2 * int D + busy w < 1500 * millisecond"
    and "rng w = Some bs" "2 \<le> length bs"
  shows "\<exists>w'. deferred_logout (plain_runner cfg t) c (y, w) = (y, w')
     \<and> new_milestones w w' = [EvState StateLoggingOut, EvState StateStopped, LogLogout]
     \<and> sent_only_to t w w' \<and> now w' + busy w' \<le> now w + busy w + 2 * int D"
proof -
  have "quiet logout_request (\<lambda>_. False) D t w" using assms(1,2) by (simp add: quiet_undisturbed)
  from ar.deferred_logout_clean [OF ar_serves_logout this assms(3-6), where cfg = cfg and y = y] obtain w' m
    where D: "deferred_logout (plain_runner cfg t) c (y, w) = (y, w')" "now w' + busy w' \<le> now w + busy w + 2 * int D"
      and w: "went (\<lambda>a. sameUDPAddr (Some a) (Some (server t))) (\<lambda>_ d. d) no_ctx m
        [EvState StateLoggingOut, EvState StateStopped, LogLogout] w w'"
    by auto
  then show ?thesis using went_facts(1,2) [OF w] by auto
qed

theorem answering_server_logs_out_witness:
  "\<exists>w'. deferred_logout (plain_runner sample_config sample_transport) \<lparr>cancel_at = Some 0, ctx_deadline = None\<rparr>
        (Inl (Fail Canceled), honest_world) = (Inl (Fail Canceled), w')
     \<and> new_milestones honest_world w' = [EvState StateLoggingOut, EvState StateStopped, LogLogout]"
proof -
  have s: "logout_server 10000 (server sample_transport) (net honest_world) (map snd (sent honest_world))"
    by (rule honest_answers) (auto simp: logout_request_def file_request_def)
  have "\<exists>w'. deferred_logout (plain_runner sample_config sample_transport) \<lparr>cancel_at = Some 0, ctx_deadline = None\<rparr>
        (Inl (Fail Canceled), honest_world) = (Inl (Fail Canceled), w')
     \<and> new_milestones honest_world w' = [EvState StateLoggingOut, EvState StateStopped, LogLogout]
     \<and> sent_only_to sample_transport honest_world w' \<and> now w' + busy w' \<le> now honest_world + busy honest_world + 2 * int 10000"
    by (rule answering_server_logs_out [OF s honest_undisturbed, where bs = "replicate 40 0xaa"])
      (simp_all add: honest_world_def sample_world_def busy_def millisecond_def ctx_err_at_def ctx_done_def)
  then show ?thesis by blast
qed

end
