(* ===== verification/Supervisor.thy ===== *)
theory Supervisor
  imports Client
begin

text \<open>
  \<open>internal/runner/supervisor.go\<close>: the loop that loads the configuration, opens a transport, runs a
  session, and waits before the next attempt. \<open>delay\<close> is the variable captured by the callback.
\<close>

section \<open>The supervisor\<close>

text \<open>
  \<open>Load\<close>, \<open>Open\<close> and \<open>Wait\<close> are the function fields (\<open>None\<close> is nil), \<open>sNotifies\<close> says whether
  \<open>OnState\<close> is set; a call of it is the event \<open>EvNotify\<close>. \<open>sOs\<close> is what the operating system
  answers, at each time, to the default \<open>Open\<close>.
\<close>

type_synonym open_fn = "config \<Rightarrow> world \<Rightarrow> (err + exchange_fn \<times> (world \<Rightarrow> world) option) \<times> world"

record supervisor =
  sLoad :: "world \<Rightarrow> (err + config) \<times> world"
  sOpen :: "open_fn option"
  sNotifies :: bool
  sWait :: "(ctx_t \<Rightarrow> int \<Rightarrow> world \<Rightarrow> err option \<times> world) option"
  sOs :: "int \<Rightarrow> os_net"

definition ServerUDPAddr :: "config \<Rightarrow> udp_addr" where
  "ServerUDPAddr c = \<lparr>addr_ip = ipv4ToNetIP (ServerIP c), addr_port = ServerPort c\<rparr>"

definition BindUDPAddr :: "config \<Rightarrow> udp_addr" where
  "BindUDPAddr c = \<lparr>addr_ip = ipv4ToNetIP (BindIP c), addr_port = BindPort c\<rparr>"

definition default_open :: "(int \<Rightarrow> os_net) \<Rightarrow> open_fn" where
  "default_open os c w =
     (case NewTransport (os (now w)) (Some (BindUDPAddr c)) (Some (ServerUDPAddr c)) (ReceiveTimeout c) w of
        (Inl e, w) \<Rightarrow> (Inl e, w)
      | (Inr t, w) \<Rightarrow> (Inr (Exchange t, Some Close), w))"

definition waitForRetry :: "ctx_t \<Rightarrow> int \<Rightarrow> world \<Rightarrow> err option \<times> world" where
  "waitForRetry ctx d w =
     (let w = pause w in
      case select_done ctx (now w + d) w of
        (True, w) \<Rightarrow> ctx_Err ctx w
      | (False, w) \<Rightarrow> (None, w))"

text \<open>The callback that the supervisor gives to the runner.\<close>

definition notify :: "supervisor \<Rightarrow> State \<Rightarrow> world \<Rightarrow> world" where
  "notify s state w = (if sNotifies s then emit (EvNotify state) w else w)"

definition on_state :: "supervisor \<Rightarrow> State \<Rightarrow> world \<Rightarrow> world" where
  "on_state s state w =
     notify s state (if state = StateOnline then w\<lparr>delay := 5 * second\<rparr> else w)"

text \<open>
  \<open>errors.Is\<close> on a possibly nil error, and the body of the loop: \<open>Inl\<close> is a return, \<open>Inr\<close> the
  error with which the code after the session is reached. \<open>rounds\<close> is the fuel of the session.
\<close>

definition err_Is :: "err option \<Rightarrow> err \<Rightarrow> bool" where
  "err_Is e t = (case e of None \<Rightarrow> False | Some e \<Rightarrow> errors_Is e t)"

definition session_runner :: "supervisor \<Rightarrow> config \<Rightarrow> exchange_fn \<Rightarrow> (world \<Rightarrow> world) option \<Rightarrow> runner" where
  "session_runner s cfg ex cl =
     \<lparr>rcfg = cfg, rExchange = ex, rClose = cl, rOnState = Some (on_state s)\<rparr>"

definition attempt_session ::
    "supervisor \<Rightarrow> ctx_t \<Rightarrow> nat \<Rightarrow> world \<Rightarrow> ((exc + err option) \<times> world) option" where
  "attempt_session s ctx rounds w =
     (case sLoad s w of
        (Inl e, w) \<Rightarrow>
          if \<not> errors_Is e ErrNetworkUnavailable then Some (Inl (Fail e), w) else Some (Inr (Some e), w)
      | (Inr cfg, w) \<Rightarrow>
          (case (case sOpen s of None \<Rightarrow> default_open (sOs s) | Some f \<Rightarrow> f) cfg w of
             (Inl e, w) \<Rightarrow> Some (Inr (Some e), w)
           | (Inr (ex, cl), w) \<Rightarrow>
               let w = emit (LogBound (BindIP cfg) (BindPort cfg) (InterfaceName (AutoNetwork cfg))) w in
               (case New cfg ex cl w of (r, w) \<Rightarrow>
                  let r = r\<lparr>rOnState := Some (on_state s)\<rparr> in
                  (case Run r ctx rounds w of
                     None \<Rightarrow> None
                   | Some (Inl (Panic p), w) \<Rightarrow> Some (Inl (Panic p), w)
                   | Some (Inl (Fail e), w) \<Rightarrow> Some (Inr (Some e), runner_Close r w)
                   | Some (Inr _, w) \<Rightarrow> Some (Inr None, runner_Close r w)))))"

text \<open>
  One turn of the loop. The result is the return value of \<open>Run\<close>, or the world in which the next
  turn starts; the outer \<open>None\<close> is a session that has not ended within its rounds.
\<close>

definition after_session ::
    "supervisor \<Rightarrow> ctx_t \<Rightarrow> err option \<Rightarrow> world \<Rightarrow> (exc + unit) option \<times> world" where
  "after_session s ctx err w =
     (case ctx_Err ctx w of
        (Some _, w) \<Rightarrow>
          (case ctx_Err ctx w of
             (Some e, w) \<Rightarrow> (Some (Inl (Fail e)), w)
           | (None, w) \<Rightarrow> (Some (Inr ()), w))
      | (None, w) \<Rightarrow>
          if err_Is err ErrAuthenticationRejected then (Some (Inl (Fail (the err))), w)
          else
            let w = emit (LogRetry (delay w) err) w;
                w = notify s StateReconnecting w
            in case (case sWait s of None \<Rightarrow> waitForRetry | Some f \<Rightarrow> f) ctx (delay w) w of
                 (Some e, w) \<Rightarrow> (Some (Inl (Fail e)), w)
               | (None, w) \<Rightarrow> (None, w\<lparr>delay := min (delay w * 2) (60 * second)\<rparr>))"

definition sup_turn ::
    "supervisor \<Rightarrow> ctx_t \<Rightarrow> nat \<Rightarrow> world \<Rightarrow> ((exc + unit) option \<times> world) option" where
  "sup_turn s ctx rounds w =
     (case ctx_Err ctx w of
        (Some _, w) \<Rightarrow>
          (case ctx_Err ctx w of
             (Some e, w) \<Rightarrow> Some (Some (Inl (Fail e)), w)
           | (None, w) \<Rightarrow> Some (Some (Inr ()), w))
      | (None, w) \<Rightarrow>
          (case attempt_session s ctx rounds w of
             None \<Rightarrow> None
           | Some (Inl x, w) \<Rightarrow> Some (Some (Inl x), w)
           | Some (Inr err, w) \<Rightarrow> Some (after_session s ctx err w)))"

fun sup_loop :: "supervisor \<Rightarrow> ctx_t \<Rightarrow> nat \<Rightarrow> nat \<Rightarrow> world \<Rightarrow> ((exc + unit) \<times> world) option" where
  "sup_loop s ctx rounds 0 w = None"
| "sup_loop s ctx rounds (Suc turns) w =
     (case sup_turn s ctx rounds w of
        None \<Rightarrow> None
      | Some (Some x, w) \<Rightarrow> Some (x, w)
      | Some (None, w) \<Rightarrow> sup_loop s ctx rounds turns w)"

definition supervisor_Run ::
    "supervisor \<Rightarrow> ctx_t \<Rightarrow> nat \<Rightarrow> nat \<Rightarrow> world \<Rightarrow> ((exc + unit) \<times> world) option" where
  "supervisor_Run s ctx rounds turns w = sup_loop s ctx rounds turns (w\<lparr>delay := 5 * second\<rparr>)"

section \<open>The supervised runner\<close>

definition reset_online :: "State \<Rightarrow> int \<Rightarrow> int" where
  "reset_online state d = (if state = StateOnline then 5 * second else d)"

interpretation sv: runner_env "session_runner s cfg (Exchange t) cl" "max 0 (timeout t)"
  "\<lambda>a. sameUDPAddr (Some a) (Some (server t))" reset_online for s cfg t cl
proof -
  have "\<exists>es. on_state s x w = w\<lparr>trace := trace w @ es, delay := reset_online x (delay w)\<rparr> \<and> set es \<subseteq> range EvNotify"
    for x w
    by (rule exI [of _ "if sNotifies s then [EvNotify x] else []"])
      (auto simp: on_state_def notify_def emit_def reset_online_def)
  then show "runner_env (session_runner s cfg (Exchange t) cl) (max 0 (timeout t))
      (\<lambda>a. sameUDPAddr (Some a) (Some (server t))) reset_online"
    by (intro runner_env.intro) (simp_all add: session_runner_def tr.exchanger_axioms runner_env_axioms_def)
qed

text \<open>\<open>runClient\<close> of \<open>app_windows.go\<close> fills in the fields; \<open>load\<close> is what \<open>config.Load\<close> returns at a time.\<close>

definition app_supervisor :: "(int \<Rightarrow> err + config) \<Rightarrow> (int \<Rightarrow> os_net) \<Rightarrow> supervisor" where
  "app_supervisor load os =
     \<lparr>sLoad = (\<lambda>w. let w = pause w in (load (now w), w)), sOpen = None, sNotifies = True, sWait = None, sOs = os\<rparr>"

section \<open>One session under supervision\<close>

abbreviation anyone :: "udp_addr \<Rightarrow> bool" where "anyone \<equiv> \<lambda>_. True"

lemma went_anyone: "went S G c n ms w w' \<Longrightarrow> went anyone G c n ms w w'"
  by (auto simp: went_def)

text \<open>
  How the session attempt of one turn ends: its result and the milestones it leaves. A rejection
  carries the reply that proves it.
\<close>

definition refused :: "config \<Rightarrow> world \<Rightarrow> world \<Rightarrow> bool" where
  "refused cfg w w' \<longleftrightarrow> (\<exists>a q new. rcvd w' = rcvd w @ new \<and> (a, q) \<in> set new
     \<and> sameUDPAddr (Some a) (Some (ServerUDPAddr cfg)) \<and> q \<noteq> [] \<and> q ! 0 = 0x05)"

text \<open>An error that is not, and does not wrap, the one that only the runner creates.\<close>

definition foreign :: "err \<Rightarrow> bool" where
  "foreign e \<longleftrightarrow> \<not> errors_Is e ErrAuthenticationRejected"

definition os_foreign :: "os_net \<Rightarrow> bool" where
  "os_foreign os \<longleftrightarrow>
     (case os_interfaces os of Inl e \<Rightarrow> foreign e | Inr _ \<Rightarrow> True)
     \<and> (\<forall>a. case os_listen os a of Some e \<Rightarrow> foreign e | None \<Rightarrow> True)
     \<and> (case os_SyscallConn os of Some e \<Rightarrow> foreign e | None \<Rightarrow> True)
     \<and> (case os_Control os of Some e \<Rightarrow> foreign e | None \<Rightarrow> True)
     \<and> (\<forall>v. case os_setsockopt os v of Some e \<Rightarrow> foreign e | None \<Rightarrow> True)"

lemma pin_loop_foreign:
  "pin_loop os ip ifs w = (Inl e, w') \<Longrightarrow> os_foreign os \<Longrightarrow> foreign e"
proof (induction os ip ifs w rule: pin_loop.induct)
  case (2 os ip iface ifaces w)
  have "foreign e" if "pin_socket os i w = (Inl e, w')" for i
  proof -
    have "case os_setsockopt os (uint (le32 (put_be32 (word_of_int i)))) of Some e \<Rightarrow> foreign e | None \<Rightarrow> True"
      using "2.prems"(2) by (simp add: os_foreign_def)
    then show ?thesis
      using that "2.prems"(2) by (auto simp: pin_socket_def os_foreign_def Let_def split: option.splits)
  qed
  then show ?case
    using 2 by (auto split: sum.splits if_splits)
qed (auto simp: foreign_def)

lemma NewTransport_foreign:
  assumes "NewTransport os b s tmo w = (Inl e, w')" and os: "os_foreign os"
  shows "foreign e"
proof -
  have "foreign x" if "pinInterface os ip v = (Inl x, v')" for ip v x v'
    using that os by (auto simp: pinInterface_def os_foreign_def foreign_def split: if_splits sum.splits
        dest!: pin_loop_foreign [OF _ os])
  moreover have "foreign x" if "os_listen os a = Some x" for a x
    using os that by (auto simp: os_foreign_def dest!: spec [of _ a])
  ultimately show ?thesis
    using assms(1) by (fastforce simp: NewTransport_def Let_def foreign_def split: option.splits if_splits sum.splits prod.splits)
qed

lemma pin_loop_state: "pin_loop os ip ifs w = (r, w') \<Longrightarrow> \<exists>v. w' = w\<lparr>sock_if := v\<rparr>"
proof (induction os ip ifs w rule: pin_loop.induct)
  case (2 os ip iface ifaces w)
  have "\<exists>v. w' = w\<lparr>sock_if := v\<rparr>" if "pin_socket os i w = (r, w')" for i
    using that by (auto simp: pin_socket_def Let_def split: option.splits intro: exI [of _ "sock_if w"])
  then show ?case
    using 2 by (auto split: sum.splits if_splits)
next
  case (1 os ip w)
  then show ?case by (auto intro!: exI [of _ "sock_if w"])
qed

lemma pinInterface_state: "pinInterface os ip w = (r, w') \<Longrightarrow> \<exists>v. w' = w\<lparr>sock_if := v\<rparr>"
  by (auto simp: pinInterface_def split: if_splits sum.splits dest!: pin_loop_state intro: exI [of _ "sock_if w"])

lemma NewTransport_step:
  assumes "NewTransport os (Some b) (Some s) tmo w = (r, w')"
  shows "went anyone G c 0 [] w w'" and "r = Inr t \<Longrightarrow> server t = s"
proof -
  let ?v = "w\<lparr>sock_open := True, sock_if := None, sock_deadline := None, inbox := []\<rparr>"
  obtain x v' where P: "pinInterface os (addr_ip b) ?v = (x, v')" by (rule prod.exhaust)
  then obtain i where v': "v' = ?v\<lparr>sock_if := i\<rparr>" using pinInterface_state by blast
  have "w' = w \<or> w' = v' \<or> w' = v'\<lparr>sock_open := False\<rparr>"
    using assms P by (auto simp: NewTransport_def Let_def split: option.splits if_splits sum.splits)
  then show "went anyone G c 0 [] w w'"
    unfolding v' by (elim disjE) (simp_all add: went_refl went_upd_nil)
  show "r = Inr t \<Longrightarrow> server t = s"
    using assms by (auto simp: NewTransport_def Let_def split: option.splits if_splits sum.splits prod.splits)
qed

text \<open>A run of the session runner never ends with a nil error.\<close>

lemma run_history_not_nil: "run_history e over (Inr u) ms \<Longrightarrow> False"
  by (erule run_history.cases) (auto simp: loop_end_def logout_part_def split: if_splits)

text \<open>The milestones of one attempt never include a scheduled retry.\<close>

definition is_retry :: "event \<Rightarrow> bool" where
  "is_retry e = (case e of LogRetry _ _ \<Rightarrow> True | _ \<Rightarrow> False)"

lemma is_retry_simps [simp]:
  "is_retry (LogRetry d e)" "\<not> is_retry (EvState s)" "\<not> is_retry (EvNotify s)" "\<not> is_retry LogLogin"
  "\<not> is_retry (LogHeartbeat n)" "\<not> is_retry LogLogout" "\<not> is_retry (LogLogoutFailed x)"
  "\<not> is_retry (LogBound a p i)" "\<not> is_retry (LogExchange m k l o1)"
  by (simp_all add: is_retry_def)

lemma beats_no_retry: "\<forall>e \<in> set (beats k n). \<not> is_retry e"
  by (induction k n rule: beats.induct) auto

lemma run_history_no_retry: "run_history e over x ms \<Longrightarrow> \<forall>e \<in> set ms. \<not> is_retry e"
proof (induction rule: run_history.induct)
  case (session y me x ml k)
  have "\<forall>e \<in> set me. \<not> is_retry e" "\<forall>e \<in> set ml. \<not> is_retry e"
    using session by (auto simp: loop_end_def logout_part_def split: sum.splits exc.splits if_splits)
  then show ?case
    using beats_no_retry by auto
qed auto

text \<open>A session attempt: it is bounded, interruptible, and explains every way it ends.\<close>

definition attempt_ok ::
    "(int \<Rightarrow> err + config) \<Rightarrow> exc + err option \<Rightarrow> world \<Rightarrow> world \<Rightarrow> bool" where
  "attempt_ok load x w w' \<longleftrightarrow>
     (case x of
        Inl (Panic p) \<Rightarrow> dry (rng w')
      | Inl (Fail e) \<Rightarrow> (\<exists>t. load t = Inl e) \<and> \<not> errors_Is e ErrNetworkUnavailable
      | Inr None \<Rightarrow> False
      | Inr (Some e) \<Rightarrow> errors_Is e ErrAuthenticationRejected \<longrightarrow>
          e = ErrAuthenticationRejected \<and> (\<exists>t cfg. load t = Inr cfg \<and> refused cfg w w'))"

definition attempt_went :: "ctx_t \<Rightarrow> event list \<Rightarrow> world \<Rightarrow> world \<Rightarrow> bool" where
  "attempt_went c ms w w' \<longleftrightarrow> (\<exists>n. went anyone reset_online no_ctx n ms w w')
     \<and> (\<forall>d. ctx_done c = Some d \<longrightarrow> due d w' \<le> due d w + 1500 * millisecond)
     \<and> (\<forall>e \<in> set ms. \<not> is_retry e)"

lemma went_rcvd: "went S G c n ms w w' \<Longrightarrow> \<exists>new. rcvd w' = rcvd w @ new"
  by (simp add: went_def)

lemma refused_extend: "went S G c n ms w w1 \<Longrightarrow> refused cfg w1 w2 \<Longrightarrow> refused cfg w w2"
  by (drule went_rcvd) (fastforce simp: refused_def)

lemma refused_prefix: "refused cfg w w1 \<Longrightarrow> went S G c n ms w1 w2 \<Longrightarrow> refused cfg w w2"
  by (drule went_rcvd) (fastforce simp: refused_def)

lemma sv_rejected:
  assumes "sv.rejected_by_server t (Fail e) w w'" and "server t = ServerUDPAddr cfg"
  shows "e = ErrAuthenticationRejected \<and> refused cfg w w'"
  using assms(1) [unfolded sv.rejected_by_server_def sv.came_def] unfolding refused_def assms(2) by blast

lemma session_run_spec:
  assumes "Run (session_runner s cfg (Exchange t) cl) c n w = Some (x, w')" and "server t = ServerUDPAddr cfg"
  shows "\<exists>ms. attempt_went c ms w w' \<and> x \<noteq> Inr ()
     \<and> (case x of Inl (Panic p) \<Rightarrow> dry (rng w')
        | Inl (Fail e) \<Rightarrow> errors_Is e ErrAuthenticationRejected \<longrightarrow> e = ErrAuthenticationRejected \<and> refused cfg w w'
        | Inr _ \<Rightarrow> False)"
proof (cases "0 < HeartbeatInterval cfg")
  case False
  then have "x = Inl (Fail (Errorf ''heartbeat interval must be positive''))" "w' = w"
    using assms(1) by (auto simp: Run_def session_runner_def)
  then show ?thesis
    by (intro exI [of _ "[]"]) (auto simp: attempt_went_def millisecond_def intro: went_refl)
next
  case True
  then have "0 < HeartbeatInterval (rcfg (session_runner s cfg (Exchange t) cl))"
    by (simp add: session_runner_def)
  from sv.Run_spec [OF assms(1) this] obtain ms where h: "run_history (ctx_cause c) (ctx_err_at c (now w') \<noteq> None) x ms"
    and w: "went (\<lambda>a. sameUDPAddr (Some a) (Some (server t))) reset_online no_ctx (sv.run_time s cfg t cl n) ms w w'"
    and d: "\<forall>d. ctx_done c = Some d \<longrightarrow> due d w' \<le> due d w + 1500 * millisecond"
    and p: "\<forall>s. x = Inl (Panic s) \<longrightarrow> dry (rng w')"
    and r: "\<forall>e. x = Inl (Fail e) \<longrightarrow> errors_Is e ErrAuthenticationRejected \<longrightarrow> sv.rejected_by_server t (Fail e) w w'"
    by blast
  have nn: "x \<noteq> Inr u" for u
    using h run_history_not_nil by blast
  have rej: "sv.rejected_by_server t (Fail e) w w' \<Longrightarrow> e = ErrAuthenticationRejected \<and> refused cfg w w'" for e
    using sv_rejected assms(2) by blast
  show ?thesis
    using went_anyone [OF w] d p r nn rej run_history_no_retry [OF h]
    by (intro exI [of _ ms]) (auto simp: attempt_went_def split: sum.split exc.split)
qed

lemma attempt_went_step:
  assumes "went anyone reset_online c n ms w w'" and "\<forall>e \<in> set ms. \<not> is_retry e"
  shows "attempt_went c ms w w'"
proof -
  have "due d w' \<le> due d w + 1500 * millisecond" if "ctx_done c = Some d" for d
    using assms(1) that by (auto simp: went_def millisecond_def)
  then show ?thesis
    using assms(2) went_any [OF assms(1)] by (auto simp: attempt_went_def)
qed

lemma attempt_went_before:
  assumes "went anyone reset_online c n ms w w1" "\<forall>e \<in> set ms. \<not> is_retry e" and "attempt_went c ms' w1 w2"
  shows "attempt_went c (ms @ ms') w w2"
proof -
  have "due d w2 \<le> due d w + 1500 * millisecond" if "ctx_done c = Some d" for d
  proof -
    have "due d w1 \<le> due d w" using assms(1) that by (simp add: went_def)
    moreover have "due d w2 \<le> due d w1 + 1500 * millisecond" using assms(3) that by (simp add: attempt_went_def)
    ultimately show ?thesis by linarith
  qed
  then show ?thesis
    using assms(2,3) went_trans [OF went_any [OF assms(1)]] by (auto simp: attempt_went_def) blast
qed

lemma attempt_went_after:
  assumes "attempt_went c ms w w1" and "went anyone reset_online no_ctx 0 [] w1 w2" and "now w2 = now w1" "lags w2 = lags w1"
  shows "attempt_went c ms w w2"
  using assms went_trans [OF _ assms(2)] by (fastforce simp: attempt_went_def due_def busy_def)

lemma New_step:
  assumes "New cfg ex cl w = (r, w')"
  shows "went anyone reset_online c 0 [EvState StateDisconnected] w w'"
    and "r\<lparr>rOnState := Some (on_state s)\<rparr> = session_runner s cfg ex cl"
  using assms went_upd [where w' = w' and w = w and new = "[EvState StateDisconnected]" and G = reset_online]
  by (auto simp: New_def session_runner_def emit_def milestones_def reset_online_def)

lemma default_session_spec:
  assumes "Run (session_runner s cfg (Exchange t) (Some Close)) c n w = Some (x, w1)" and "server t = ServerUDPAddr cfg"
    and "load tm = Inr cfg"
    and "(case x of Inl (Panic p) \<Rightarrow> (Inl (Panic p), w1)
          | Inl (Fail e) \<Rightarrow> (Inr (Some e), Close w1) | Inr _ \<Rightarrow> (Inr None, Close w1)) = (y, w')"
  shows "\<exists>ms. attempt_went c ms w w' \<and> attempt_ok load y w w'"
proof -
  from session_run_spec [OF assms(1,2)] obtain ms where ms: "attempt_went c ms w w1"
    and x: "case x of Inl (Panic p) \<Rightarrow> dry (rng w1)
        | Inl (Fail e) \<Rightarrow> errors_Is e ErrAuthenticationRejected \<longrightarrow> e = ErrAuthenticationRejected \<and> refused cfg w w1
        | Inr _ \<Rightarrow> False" by blast
  have cl: "went anyone reset_online c' 0 [] w1 (Close w1)" for c'
    by (rule went_upd_nil) (simp_all add: Close_def)
  have closed: "attempt_went c ms w (Close w1)"
    by (rule attempt_went_after [OF ms cl]) (simp_all add: Close_def)
  show ?thesis
  proof (cases x)
    case (Inl z)
    then show ?thesis
      using assms(3,4) x ms closed refused_prefix [OF _ cl]
      by (cases z) (fastforce simp: attempt_ok_def)+
  qed (use x in simp)
qed

lemma attempt_session_spec:
  assumes A: "attempt_session (app_supervisor load os) c n w = Some (x, w')"
    and plain: "\<And>t e. load t = Inl e \<Longrightarrow> foreign e" "\<And>t. os_foreign (os t)"
  shows "\<exists>ms. attempt_went c ms w w' \<and> attempt_ok load x w w'"
proof -
  let ?s = "app_supervisor load os"
  let ?w = "pause w"
  have L: "sLoad ?s w = (load (now ?w), ?w)" by (simp add: app_supervisor_def Let_def)
  have idle: "attempt_went c [] w v" if "went anyone reset_online c 0 [] ?w v" for v
    using attempt_went_step [OF went_trans [OF went_pause that]] by simp
  show ?thesis
  proof (cases "load (now ?w)")
    case (Inl e)
    have "attempt_went c [] w ?w" by (rule idle) (simp add: went_refl)
    moreover have "w' = ?w" "x = (if errors_Is e ErrNetworkUnavailable then Inr (Some e) else Inl (Fail e))"
      using A by (auto simp: attempt_session_def L Inl split: if_splits)
    ultimately show ?thesis
      using plain(1) [OF Inl] Inl by (intro exI [of _ "[]"]) (auto simp: attempt_ok_def foreign_def)
  next
    case (Inr cfg)
    obtain r w1 where N: "NewTransport (os (now ?w)) (Some (BindUDPAddr cfg)) (Some (ServerUDPAddr cfg))
        (ReceiveTimeout cfg) ?w = (r, w1)" by (rule prod.exhaust)
    note w1 = NewTransport_step(1) [OF N, where G = reset_online and c = c]
    have op: "(case sOpen ?s of None \<Rightarrow> default_open (sOs ?s) | Some f \<Rightarrow> f) cfg ?w
        = (case r of Inl e \<Rightarrow> Inl e | Inr t \<Rightarrow> Inr (Exchange t, Some Close), w1)"
      by (simp add: app_supervisor_def default_open_def N split: sum.split)
    show ?thesis
    proof (cases r)
      case (Inl e)
      have "foreign e" using NewTransport_foreign [OF N [unfolded Inl] plain(2)] .
      moreover have "w' = w1" "x = Inr (Some e)"
        using A by (simp_all add: attempt_session_def L Inr op Inl)
      ultimately show ?thesis
        using idle [OF w1] by (intro exI [of _ "[]"]) (auto simp: attempt_ok_def foreign_def)
    next
      case (Inr t)
      let ?bound = "LogBound (BindIP cfg) (BindPort cfg) (InterfaceName (AutoNetwork cfg))"
      let ?r = "session_runner ?s cfg (Exchange t) (Some Close)"
      obtain r0 w2 where New: "New cfg (Exchange t) (Some Close) (emit ?bound w1) = (r0, w2)" by (rule prod.exhaust)
      note w2 = New_step(1) [OF New, where c = c]
      have r0: "r0\<lparr>rOnState := Some (on_state ?s)\<rparr> = ?r" by (rule New_step(2) [OF New])
      have pre: "went anyone reset_online c 0 ([] @ [?bound] @ [EvState StateDisconnected]) ?w w2"
        using went_trans [OF w1 went_trans [OF went_emit w2]] by simp
      have pre': "went anyone reset_online c 0 [?bound, EvState StateDisconnected] w w2"
        using went_trans [OF went_pause pre] by simp
      obtain y w3 where R: "Run ?r c n w2 = Some (y, w3)"
        and fin: "(case y of Inl (Panic p) \<Rightarrow> (Inl (Panic p), w3)
          | Inl (Fail e) \<Rightarrow> (Inr (Some e), Close w3) | Inr _ \<Rightarrow> (Inr None, Close w3)) = (x, w')"
        using A New r0
        by (auto simp: attempt_session_def L op \<open>load (now ?w) = Inr cfg\<close> Inr Let_def runner_Close_def session_runner_def
            split: option.splits sum.splits exc.splits)
      from default_session_spec [where s = ?s and load = load, OF R NewTransport_step(2) [OF N [unfolded Inr] refl] \<open>load (now ?w) = Inr cfg\<close> fin]
      obtain ms where ms: "attempt_went c ms w2 w'" and ok: "attempt_ok load x w2 w'"
        by blast
      have "attempt_went c ([?bound, EvState StateDisconnected] @ ms) w w'"
        by (rule attempt_went_before [OF pre' _ ms]) simp
      moreover have "attempt_ok load x w w'"
        using ok refused_extend [OF pre'] by (auto simp: attempt_ok_def split: sum.splits exc.splits option.splits)
      ultimately show ?thesis by blast
    qed
  qed
qed

section \<open>Turns of the loop\<close>

text \<open>The part of the history that the supervisor adds to: a relation that composes over turns.\<close>

definition sup_went :: "event list \<Rightarrow> world \<Rightarrow> world \<Rightarrow> bool" where
  "sup_went ms w w' \<longleftrightarrow> now w \<le> now w' \<and> busy w' \<le> busy w
     \<and> (\<exists>new. rcvd w' = rcvd w @ new)
     \<and> (\<exists>new. trace w' = trace w @ new \<and> milestones new = ms)"

lemma sup_went_trans: "sup_went a w w1 \<Longrightarrow> sup_went b w1 w2 \<Longrightarrow> sup_went (a @ b) w w2"
  unfolding sup_went_def by (metis (no_types, lifting) append.assoc milestones_append order_trans)

lemma went_sup: "went S G c n ms w w' \<Longrightarrow> sup_went ms w w'"
  by (simp add: went_def sup_went_def)

lemma sup_went_refl [simp]: "sup_went [] w w"
  by (simp add: sup_went_def milestones_def)

lemma sup_went_pause [simp]: "sup_went [] w (pause w)"
  by (rule went_sup [OF went_pause])

lemma attempt_sup: "attempt_went c ms w w' \<Longrightarrow> sup_went ms w w'"
  by (auto simp: attempt_went_def dest: went_sup)

lemma attempt_delay: "attempt_went c ms w w' \<Longrightarrow> delay w' = delay_after reset_online ms (delay w)"
  by (auto simp: attempt_went_def went_def)

lemma refused_sup:
  assumes "sup_went a w w1" and "refused cfg w1 w2" and "sup_went b w2 w3"
  shows "refused cfg w w3"
proof -
  obtain n1 n3 where "rcvd w1 = rcvd w @ n1" "rcvd w3 = rcvd w2 @ n3"
    using assms(1,3) unfolding sup_went_def by blast
  moreover obtain a q n2 where "rcvd w2 = rcvd w1 @ n2" "(a, q) \<in> set n2"
    "sameUDPAddr (Some a) (Some (ServerUDPAddr cfg))" "q \<noteq> []" "q ! 0 = 0x05"
    using assms(2) unfolding refused_def by blast
  ultimately show ?thesis
    unfolding refused_def by (intro exI [of _ a] exI [of _ q] exI [of _ "n1 @ n2 @ n3"]) simp
qed

text \<open>A context that is not done has kept nothing waiting beyond its time.\<close>

lemma due_not_done:
  assumes "ctx_err_at c (now w') = None" and "ctx_done c = Some d" and "busy w' \<le> busy w"
  shows "due d w' \<le> due d w"
  using assms by (auto simp: ctx_err_at_def due_def max_def split: if_splits)

text \<open>Why the supervisor returns.\<close>

definition stop_cause :: "(int \<Rightarrow> err + config) \<Rightarrow> ctx_t \<Rightarrow> exc + unit \<Rightarrow> world \<Rightarrow> world \<Rightarrow> bool" where
  "stop_cause load c x w w' \<longleftrightarrow>
     (case x of
        Inl (Panic p) \<Rightarrow> dry (rng w')
      | Inl (Fail e) \<Rightarrow> ctx_err_at c (now w') = Some e
          \<or> (\<exists>t. load t = Inl e \<and> \<not> errors_Is e ErrNetworkUnavailable)
          \<or> e = ErrAuthenticationRejected \<and> (\<exists>t cfg. load t = Inr cfg \<and> refused cfg w w')
      | Inr _ \<Rightarrow> False)"

lemma stop_cause_extend:
  assumes w: "sup_went ms w w1" and c: "stop_cause load c x w1 w'"
  shows "stop_cause load c x w w'"
proof -
  have ext: "refused cfg w1 w' \<Longrightarrow> refused cfg w w'" for cfg
    by (rule refused_sup [OF w _ sup_went_refl])
  show ?thesis
  proof (cases x)
    case (Inl z)
    then show ?thesis
      using c ext by (cases z) (auto simp: stop_cause_def)
  next
    case (Inr u)
    then show ?thesis using c by (simp add: stop_cause_def)
  qed
qed

text \<open>The code after the session: what it does when it schedules a retry, and when it returns.\<close>

lemma waitForRetry_cases:
  assumes "waitForRetry c d w = (r, w')"
  obtains e where "r = Some e" "ctx_err_at c (now w') = Some e" "sup_went [] w w'" "delay w' = delay w" "rng w' = rng w"
      "\<And>d. ctx_done c = Some d \<Longrightarrow> due d w' \<le> due d w"
  | "r = None" "now w + d \<le> now w'" "sup_went [] w w'" "delay w' = delay w" "rng w' = rng w"
      "\<And>d. ctx_done c = Some d \<Longrightarrow> due d w' \<le> due d w"
proof -
  let ?v = "pause w"
  obtain b w1 where sel: "select_done c (now ?v + d) ?v = (b, w1)" by (rule prod.exhaust)
  note fr = select_done_frame [OF sel] select_done_busy(1) [OF sel]
  have due1: "due d' w1 \<le> due d' w" if "ctx_done c = Some d'" for d'
    using select_done_busy(3) [OF sel that] due_pause [of d' w] by linarith
  have w1: "sup_went [] w w1"
    using fr now_pause [of w] busy_pause [of w] by (auto simp: sup_went_def same_local_def milestones_def)
  show thesis
  proof (cases b)
    case True
    have "ctx_err_at c (now w1) \<noteq> None"
      by (rule select_done_True) (use sel True in simp)
    then have "ctx_err_at c (now (pause w1)) \<noteq> None"
      by (rule contrapos_nn) (rule ctx_err_at_None [OF _ now_pause])
    moreover have "r = ctx_err_at c (now (pause w1))" "w' = pause w1"
      using assms sel True by (auto simp: waitForRetry_def Let_def ctx_Err_eq)
    moreover have "sup_went [] w (pause w1)"
      using sup_went_trans [OF w1 sup_went_pause] by simp
    moreover have "due d' (pause w1) \<le> due d' w" if "ctx_done c = Some d'" for d'
      using due1 [OF that] due_pause [of d' w1] by linarith
    ultimately show thesis
      using fr by (intro that(1) [of "the r"]) (auto simp: same_local_def)
  next
    case False
    then have "r = None" "w' = w1"
      using assms sel by (auto simp: waitForRetry_def Let_def)
    moreover have "now ?v + d \<le> now w1"
      by (rule select_done_False) (use sel False in simp)
    then have "now w + d \<le> now w1" using now_pause [of w] by linarith
    ultimately show thesis
      using fr w1 due1 by (intro that(2)) (simp_all add: same_local_def)
  qed
qed

text \<open>
  The code after the session, from the error with which the session ended. Either the supervisor
  returns, or it has logged the retry and waited for the delay, which it then doubles.
\<close>

lemma after_session_cases:
  assumes "after_session (app_supervisor load os) c err w = (r, w')"
    and rej: "err_Is err ErrAuthenticationRejected \<longrightarrow> err = Some ErrAuthenticationRejected"
  obtains x where "r = Some x" "x \<noteq> Inr ()" "sup_went [] w w' \<or> (\<exists>e. sup_went [LogRetry (delay w) e] w w')" "\<And>p. x \<noteq> Inl (Panic p)"
      "\<And>e. x = Inl (Fail e) \<Longrightarrow> ctx_err_at c (now w') = Some e
         \<or> e = ErrAuthenticationRejected \<and> err_Is err ErrAuthenticationRejected"
      "\<And>d. ctx_done c = Some d \<Longrightarrow> due d w' \<le> due d w"
  | "r = None" "sup_went [LogRetry (delay w) err] w w'" "now w + delay w \<le> now w'"
      "delay w' = min (delay w * 2) (60 * second)" "ctx_err_at c (now w) = None"
      "\<And>d. ctx_done c = Some d \<Longrightarrow> due d w' \<le> due d w"
proof -
  let ?v = "pause w"
  have v: "sup_went [] w ?v" "delay ?v = delay w" "now w \<le> now ?v" by (simp_all add: now_pause)
  note dv = due_pause [of _ w]
  show thesis
  proof (cases "ctx_err_at c (now ?v)")
    case (Some e)
    have "ctx_err_at c (now (pause ?v)) = Some e"
      by (rule ctx_err_at_mono [OF Some now_pause])
    moreover have "r = Some (Inl (Fail e))" "w' = pause ?v"
      using assms(1) Some calculation by (simp_all add: after_session_def ctx_Err_eq)
    moreover have "sup_went [] w (pause ?v)"
      using sup_went_trans [OF v(1) sup_went_pause] by simp
    moreover have "due d (pause ?v) \<le> due d w" for d
      using dv [of d] due_pause [of d ?v] by linarith
    ultimately show thesis
      by (intro that(1) [of "Inl (Fail e)"]) auto
  next
    case None
    show thesis
    proof (cases "err_Is err ErrAuthenticationRejected")
      case True
      then show thesis
        using assms(1) None rej True v dv
        by (intro that(1) [of "Inl (Fail ErrAuthenticationRejected)"]) (auto simp: after_session_def ctx_Err_eq)
    next
      case False
      let ?u = "notify (app_supervisor load os) StateReconnecting (emit (LogRetry (delay w) err) ?v)"
      have u: "sup_went [LogRetry (delay w) err] ?v ?u" "delay ?u = delay w" "now ?u = now ?v"
          "\<And>d. due d ?u = due d ?v"
        by (auto simp: notify_def app_supervisor_def emit_def sup_went_def milestones_def due_def busy_def)
      have wu: "sup_went [LogRetry (delay w) err] w ?u"
        using sup_went_trans [OF v(1) u(1)] by simp
      obtain x u' where W: "waitForRetry c (delay w) ?u = (x, u')" by (rule prod.exhaust)
      have r: "(r, w') = (case x of Some e \<Rightarrow> (Some (Inl (Fail e)), u')
          | None \<Rightarrow> (None, u'\<lparr>delay := min (delay u' * 2) (60 * second)\<rparr>))"
        using assms(1) None False W u(2)
        by (auto simp: after_session_def ctx_Err_eq Let_def app_supervisor_def split: option.splits)
      have tr: "sup_went [LogRetry (delay w) err] w u'" if "sup_went [] ?u u'"
        using sup_went_trans [OF wu that] by simp
      have du: "due d u' \<le> due d w" if "due d u' \<le> due d ?u" for d
        using that u(4) [of d] dv [of d] by linarith
      from W show thesis
      proof (cases rule: waitForRetry_cases)
        case (1 e)
        then show thesis
          using r tr du by (intro that(1) [of "Inl (Fail e)"]) auto
      next
        case 2
        then have w': "w' = u'\<lparr>delay := min (delay u' * 2) (60 * second)\<rparr>" and "r = None"
          using r by simp_all
        moreover have "ctx_err_at c (now w) = None"
          by (rule ctx_err_at_None [OF None now_pause])
        moreover have "sup_went [LogRetry (delay w) err] w w'"
          using tr [OF 2(3)] by (simp add: w' sup_went_def busy_def)
        moreover have "now w + delay w \<le> now w'"
          using 2(2) u(3) v(3) by (simp add: w')
        moreover have "delay w' = min (delay w * 2) (60 * second)"
          using 2(4) u(2) by (simp add: w')
        moreover have "due d w' \<le> due d w" if "ctx_done c = Some d" for d
          using du [OF 2(6) [OF that]] by (simp add: w' due_def busy_def)
        ultimately show thesis by (intro that(2))
      qed
    qed
  qed
qed

text \<open>Errors of the configuration and of the system are never the runner's rejection.\<close>

definition plain_env :: "(int \<Rightarrow> err + config) \<Rightarrow> (int \<Rightarrow> os_net) \<Rightarrow> bool" where
  "plain_env load os \<longleftrightarrow> (\<forall>t e. load t = Inl e \<longrightarrow> foreign e) \<and> (\<forall>t. os_foreign (os t))"

lemma plain_envD: "plain_env load os \<Longrightarrow> load t = Inl e \<Longrightarrow> foreign e" "plain_env load os \<Longrightarrow> os_foreign (os t)"
  by (auto simp: plain_env_def)

lemma turn_cases:
  assumes "sup_turn (app_supervisor load os) c n w = Some (r, w')" and env: "plain_env load os"
  obtains x ms where "r = Some x" "stop_cause load c x w w'"
      "(\<forall>e \<in> set ms. \<not> is_retry e) \<and> (sup_went ms w w'
        \<or> (\<exists>e. sup_went (ms @ [LogRetry (delay_after reset_online ms (delay w)) e]) w w'))"
      "\<And>d. ctx_done c = Some d \<Longrightarrow> due d w' \<le> due d w + 1500 * millisecond"
  | ms e where "r = None" "\<forall>e \<in> set ms. \<not> is_retry e"
      "sup_went (ms @ [LogRetry (delay_after reset_online ms (delay w)) e]) w w'"
      "now w + delay_after reset_online ms (delay w) \<le> now w'"
      "delay w' = min (delay_after reset_online ms (delay w) * 2) (60 * second)"
      "\<And>d. ctx_done c = Some d \<Longrightarrow> due d w' \<le> due d w"
proof -
  let ?s = "app_supervisor load os"
  let ?v = "pause w"
  show thesis
  proof (cases "ctx_err_at c (now ?v)")
    case (Some e)
    have e2: "ctx_err_at c (now (pause ?v)) = Some e"
      by (rule ctx_err_at_mono [OF Some now_pause])
    then have "r = Some (Inl (Fail e))" "w' = pause ?v"
      using assms(1) Some by (simp_all add: sup_turn_def ctx_Err_eq)
    moreover have "sup_went [] w (pause ?v)"
      using sup_went_trans [OF sup_went_pause [of w] sup_went_pause] by simp
    moreover have "due d (pause ?v) \<le> due d w + 1500 * millisecond" for d
      using due_pause [of d w] due_pause [of d ?v] by (simp add: millisecond_def)
    ultimately show thesis
      using e2 by (intro that(1) [of "Inl (Fail e)" "[]"]) (auto simp: stop_cause_def)
  next
    case None
    obtain y w1 where A: "attempt_session ?s c n ?v = Some (y, w1)"
      and T: "(case y of Inl x \<Rightarrow> (Some (Inl x), w1) | Inr err \<Rightarrow> after_session ?s c err w1) = (r, w')"
      using assms(1) None by (auto simp: sup_turn_def ctx_Err_eq split: option.splits sum.splits)
    from attempt_session_spec [OF A] env obtain ms where ms: "attempt_went c ms ?v w1"
      and ok: "attempt_ok load y ?v w1"
      by (auto simp: plain_env_def)
    have w1: "sup_went ms w w1"
      using sup_went_trans [OF sup_went_pause attempt_sup [OF ms]] by simp
    have d1: "delay w1 = delay_after reset_online ms (delay w)"
      using attempt_delay [OF ms] by simp
    have nr: "\<forall>e \<in> set ms. \<not> is_retry e"
      using ms by (simp add: attempt_went_def)
    have due1: "due d w1 \<le> due d w + 1500 * millisecond" if "ctx_done c = Some d" for d
    proof -
      have "due d w1 \<le> due d ?v + 1500 * millisecond" using ms that by (simp add: attempt_went_def)
      then show ?thesis using due_pause [of d w] by linarith
    qed
    show thesis
    proof (cases y)
      case (Inl x)
      have "stop_cause load c (Inl x) ?v w1"
        using ok Inl by (cases x) (auto simp: attempt_ok_def stop_cause_def)
      then have "stop_cause load c (Inl x) w w1"
        by (rule stop_cause_extend [OF sup_went_pause])
      then show thesis
        using T Inl w1 nr due1 by (intro that(1) [of "Inl x" ms]) auto
    next
      case (Inr err)
      have rej: "err_Is err ErrAuthenticationRejected \<longrightarrow> err = Some ErrAuthenticationRejected"
        using ok Inr by (auto simp: attempt_ok_def err_Is_def split: option.splits)
      have ev: "\<exists>t cfg. load t = Inr cfg \<and> refused cfg ?v w1" if "err_Is err ErrAuthenticationRejected"
        using ok Inr that by (auto simp: attempt_ok_def err_Is_def split: option.splits)
      have S: "after_session ?s c err w1 = (r, w')"
        using T Inr by simp
      from S rej show thesis
      proof (cases rule: after_session_cases)
        case (1 x)
        have w': "sup_went ms w w' \<or> (\<exists>e. sup_went (ms @ [LogRetry (delay_after reset_online ms (delay w)) e]) w w')"
          using 1(3) sup_went_trans [OF w1] d1 by force
        have "sup_went [] w1 w' \<or> (\<exists>b. sup_went b w1 w')" using 1(3) by blast
        then obtain b where b: "sup_went b w1 w'" by blast
        have ev': "\<exists>t cfg. load t = Inr cfg \<and> refused cfg w w'" if "err_Is err ErrAuthenticationRejected"
          using ev [OF that] refused_sup [OF sup_went_pause _ b] by blast
        have "stop_cause load c x w w'"
        proof (cases x)
          case (Inl z)
          show ?thesis
          proof (cases z)
            case (Fail e)
            then show ?thesis using 1(5) [of e] Inl ev' by (auto simp: stop_cause_def)
          qed (use 1(4) Inl in auto)
        qed (use 1(2) in simp)
        moreover have "due d w' \<le> due d w + 1500 * millisecond" if "ctx_done c = Some d" for d
          using 1(6) [OF that] due1 [OF that] by linarith
        ultimately show thesis
          using 1(1) nr w' by (intro that(1) [of x ms]) auto
      next
        case 2
        have "due d w' \<le> due d w" if "ctx_done c = Some d" for d
        proof -
          have "due d w1 \<le> due d w"
            by (rule due_not_done [OF 2(5) that]) (use w1 in \<open>simp add: sup_went_def\<close>)
          then show ?thesis using 2(6) [OF that] by linarith
        qed
        moreover have "now w + delay w1 \<le> now w'"
          using 2(3) w1 by (simp add: sup_went_def)
        ultimately show thesis
          using 2(1,4) nr sup_went_trans [OF w1 2(2)] d1 by (intro that(2) [of ms err]) auto
      qed
    qed
  qed
qed

section \<open>The back-off\<close>

text \<open>
  \<open>backoff_ok d es\<close>: in the history \<open>es\<close> every scheduled retry has the delay that is due, which is
  \<open>d\<close> at first, 5 seconds again after \<open>Online\<close>, and after a retry the double, up to a minute.
\<close>

fun backoff_ok :: "int \<Rightarrow> event list \<Rightarrow> bool" where
  "backoff_ok d [] = True"
| "backoff_ok d (EvState s # es) = backoff_ok (if s = StateOnline then 5 * second else d) es"
| "backoff_ok d (LogRetry x e # es) = (x = d \<and> backoff_ok (min (x * 2) (60 * second)) es)"
| "backoff_ok d (_ # es) = backoff_ok d es"

lemma backoff_segment:
  "\<forall>e \<in> set ms. \<not> is_retry e \<Longrightarrow> backoff_ok d (ms @ es) = backoff_ok (delay_after reset_online ms d) es"
  by (induction d ms rule: backoff_ok.induct) (auto simp: reset_online_def)

lemma backoff_session:
  "\<forall>e \<in> set ms. \<not> is_retry e \<Longrightarrow> backoff_ok d ms"
  using backoff_segment [of ms d "[]"] by simp

lemma backoff_turn:
  assumes "\<forall>e \<in> set ms. \<not> is_retry e"
  shows "backoff_ok d ((ms @ [LogRetry (delay_after reset_online ms d) e]) @ es)
    = backoff_ok (min (delay_after reset_online ms d * 2) (60 * second)) es"
  using backoff_segment [OF assms] by simp

text \<open>The five delays.\<close>

definition backoff_delays :: "int list" where
  "backoff_delays = [5 * second, 10 * second, 20 * second, 40 * second, 60 * second]"

lemma backoff_first [simp]: "5 * second \<in> set backoff_delays"
  by (simp add: backoff_delays_def)

lemma backoff_least: "x \<in> set backoff_delays \<Longrightarrow> 5 * second \<le> x"
  by (auto simp: backoff_delays_def second_def)

lemma delay_after_mem:
  assumes "5 * second \<in> X" and "d \<in> X"
  shows "delay_after reset_online ms d \<in> X"
  using assms(2)
proof (induction ms arbitrary: d)
  case (Cons e ms)
  have "(case e of EvState s \<Rightarrow> reset_online s d | _ \<Rightarrow> d) \<in> X"
    using Cons.prems assms(1) by (cases e) (auto simp: reset_online_def)
  from Cons.IH [OF this] show ?case by simp
qed simp

lemma backoff_next: "x \<in> set backoff_delays \<Longrightarrow> min (x * 2) (60 * second) \<in> set backoff_delays"
  by (auto simp: backoff_delays_def second_def)

text \<open>The delay of a scheduled retry, and the sum of those in a history.\<close>

definition retry_delay :: "event \<Rightarrow> int" where
  "retry_delay e = (case e of LogRetry x _ \<Rightarrow> x | _ \<Rightarrow> 0)"

definition total_delay :: "event list \<Rightarrow> int" where
  "total_delay es = sum_list (map retry_delay es)"

lemma total_delay_append [simp]: "total_delay (xs @ ys) = total_delay xs + total_delay ys"
  by (simp add: total_delay_def)

lemma total_delay_session: "\<forall>e \<in> set ms. \<not> is_retry e \<Longrightarrow> total_delay ms = 0"
  by (induction ms) (auto simp: total_delay_def retry_delay_def is_retry_def split: event.splits)

lemma total_delay_retry [simp]: "total_delay (LogRetry x e # es) = x + total_delay es"
  by (simp add: total_delay_def retry_delay_def)

text \<open>The world after \<open>k\<close> turns that all ended in a retry.\<close>

fun supervised_turns :: "supervisor \<Rightarrow> ctx_t \<Rightarrow> nat \<Rightarrow> nat \<Rightarrow> world \<Rightarrow> world option" where
  "supervised_turns s c n 0 w = Some w"
| "supervised_turns s c n (Suc k) w =
     (case sup_turn s c n w of Some (None, w) \<Rightarrow> supervised_turns s c n k w | _ \<Rightarrow> None)"

lemma supervised_turns_history:
  assumes "supervised_turns (app_supervisor load os) c n k w = Some w'" and env: "plain_env load os"
    and "delay w \<in> set backoff_delays"
  shows "\<exists>ms. sup_went ms w w' \<and> (\<forall>es. backoff_ok (delay w) (ms @ es) = backoff_ok (delay w') es) \<and> length (filter is_retry ms) = k
    \<and> delay w' \<in> set backoff_delays \<and> now w + total_delay ms \<le> now w'"
  using assms(1,3)
proof (induction k arbitrary: w)
  case 0
  then show ?case by (intro exI [of _ "[]"]) (simp add: total_delay_def)
next
  case (Suc k)
  obtain w1 where T: "sup_turn (app_supervisor load os) c n w = Some (None, w1)"
    and R: "supervised_turns (app_supervisor load os) c n k w1 = Some w'"
    using Suc.prems(1) by (auto split: option.splits)
  from T env show ?case
  proof (cases rule: turn_cases)
    case (2 ms e)
    let ?d = "delay_after reset_online ms (delay w)"
    have d: "?d \<in> set backoff_delays"
      by (rule delay_after_mem) (use Suc.prems(2) in simp_all)
    have d1: "delay w1 \<in> set backoff_delays"
      unfolding 2(5) by (rule backoff_next [OF d])
    from Suc.IH [OF R d1] obtain ms' where ms': "sup_went ms' w1 w'" "\<forall>es. backoff_ok (delay w1) (ms' @ es) = backoff_ok (delay w') es"
      "length (filter is_retry ms') = k" "delay w' \<in> set backoff_delays" "now w1 + total_delay ms' \<le> now w'"
      by blast
    have "filter is_retry ms = []"
      using 2(2) by (simp add: filter_empty_conv)
    moreover have "now w + total_delay ((ms @ [LogRetry ?d e]) @ ms') \<le> now w'"
      using 2(4) ms'(5) total_delay_session [OF 2(2)] by simp
    moreover have "\<forall>es. backoff_ok (delay w) (((ms @ [LogRetry ?d e]) @ ms') @ es) = backoff_ok (delay w') es"
      using backoff_turn [OF 2(2), of "delay w" e] ms'(2) 2(5) by simp
    ultimately show ?thesis
      using sup_went_trans [OF 2(3) ms'(1)] ms'(3,4)
      by (intro exI [of _ "(ms @ [LogRetry ?d e]) @ ms'"]) simp
  qed simp
qed

section \<open>The whole loop\<close>

lemma sup_loop_turns:
  "sup_loop s c n turns w = Some (x, w') \<Longrightarrow>
     \<exists>k w1. k < turns \<and> supervised_turns s c n k w = Some w1 \<and> sup_turn s c n w1 = Some (Some x, w')"
proof (induction turns arbitrary: w)
  case (Suc turns)
  then obtain r w1 where T: "sup_turn s c n w = Some (r, w1)"
    by (auto split: option.splits)
  show ?case
  proof (cases r)
    case None
    from Suc.IH [of w1] Suc.prems T None obtain k w2 where "k < turns"
      "supervised_turns s c n k w1 = Some w2" "sup_turn s c n w2 = Some (Some x, w')" by auto
    then show ?thesis
      using T None by (intro exI [of _ "Suc k"] exI [of _ w2]) simp
  next
    case (Some y)
    then show ?thesis
      using Suc.prems T by (intro exI [of _ 0] exI [of _ w]) simp
  qed
qed simp

lemma sup_went_new: "sup_went ms w w' \<Longrightarrow> new_milestones w w' = ms"
  by (auto simp: sup_went_def new_milestones_def)

lemma sup_went_start: "sup_went ms (w\<lparr>delay := d\<rparr>) w' \<longleftrightarrow> sup_went ms w w'"
  by (simp add: sup_went_def busy_def)

lemma supervisor_Run_cases:
  assumes "supervisor_Run (app_supervisor load os) c n turns w = Some (x, w')" and env: "plain_env load os"
  shows "stop_cause load c x w w' \<and> (\<exists>ms. sup_went ms w w' \<and> backoff_ok (5 * second) ms)"
proof -
  let ?s = "app_supervisor load os" and ?w = "w\<lparr>delay := 5 * second\<rparr>"
  obtain k w1 where K: "supervised_turns ?s c n k ?w = Some w1" and T: "sup_turn ?s c n w1 = Some (Some x, w')"
    using sup_loop_turns [OF assms(1) [unfolded supervisor_Run_def]] by blast
  have "delay ?w \<in> set backoff_delays" by simp
  from supervised_turns_history [OF K env this] obtain ms where ms: "sup_went ms ?w w1"
    and bo: "\<And>es. backoff_ok (5 * second) (ms @ es) = backoff_ok (delay w1) es" by auto
  have w1: "sup_went ms w w1" using ms by (simp add: sup_went_start)
  from T env show ?thesis
  proof (cases rule: turn_cases)
    case (1 y ms1)
    let ?R = "\<lambda>e. LogRetry (delay_after reset_online ms1 (delay w1)) e"
    have x: "stop_cause load c x w w'"
      using 1(1,2) stop_cause_extend [OF w1] by simp
    have b: "backoff_ok (delay w1) ms1" "backoff_ok (delay w1) (ms1 @ [?R e])" for e
      using 1(3) by (simp_all add: backoff_session backoff_segment)
    from 1(3) consider "sup_went ms1 w1 w'" | e where "sup_went (ms1 @ [?R e]) w1 w'" by blast
    then obtain ms2 where "sup_went ms2 w1 w'" "backoff_ok (delay w1) ms2"
      using b by cases blast+
    then show ?thesis
      using x sup_went_trans [OF w1] bo by blast
  qed simp
qed

text \<open>Enough rounds and turns to cover the time until the context is done.\<close>

lemma attempt_returns:
  assumes "ctx_done c = Some d" and "due d w < now w + int n * h" and "0 < h"
    and h: "\<And>t cfg. load t = Inr cfg \<Longrightarrow> HeartbeatInterval cfg \<le> 0 \<or> h \<le> HeartbeatInterval cfg"
  shows "attempt_session (app_supervisor load os) c n w \<noteq> None"
proof -
  let ?s = "app_supervisor load os"
  let ?w = "pause w"
  have L: "sLoad ?s w = (load (now ?w), ?w)" by (simp add: app_supervisor_def Let_def)
  show ?thesis
  proof (cases "load (now ?w)")
    case (Inr cfg)
    obtain r w1 where N: "NewTransport (os (now ?w)) (Some (BindUDPAddr cfg)) (Some (ServerUDPAddr cfg))
        (ReceiveTimeout cfg) ?w = (r, w1)" by (rule prod.exhaust)
    have op: "(case sOpen ?s of None \<Rightarrow> default_open (sOs ?s) | Some f \<Rightarrow> f) cfg ?w
        = (case r of Inl e \<Rightarrow> Inl e | Inr t \<Rightarrow> Inr (Exchange t, Some Close), w1)"
      by (simp add: app_supervisor_def default_open_def N split: sum.split)
    show ?thesis
    proof (cases r)
      case (Inl e)
      then show ?thesis using \<open>load (now ?w) = Inr cfg\<close> by (simp add: attempt_session_def L op)
    next
      case (Inr t)
      let ?b = "emit (LogBound (BindIP cfg) (BindPort cfg) (InterfaceName (AutoNetwork cfg))) w1"
      obtain r0 w2 where New: "New cfg (Exchange t) (Some Close) ?b = (r0, w2)" by (rule prod.exhaust)
      have "went anyone reset_online c 0 ([] @ [] @ [LogBound (BindIP cfg) (BindPort cfg) (InterfaceName (AutoNetwork cfg))]
          @ [EvState StateDisconnected]) w w2"
        using went_trans [OF went_pause went_trans [OF NewTransport_step(1) [OF N] went_trans [OF went_emit New_step(1) [OF New]]]]
        by simp
      then have w2: "now w \<le> now w2" "due d w2 \<le> due d w"
        using assms(1) by (simp_all add: went_def)
      have "int n * h \<le> int n * HeartbeatInterval cfg" if "h \<le> HeartbeatInterval cfg"
        using that by (intro mult_left_mono) simp_all
      then have "HeartbeatInterval cfg \<le> 0 \<or> due d w2 < now w2 + int n * HeartbeatInterval cfg"
        using h [OF \<open>load (now ?w) = Inr cfg\<close>] w2 assms(2) by linarith
      then have "Run (session_runner ?s cfg (Exchange t) (Some Close)) c n w2 \<noteq> None"
        by (intro sv.Run_returns [OF assms(1)]) (simp add: session_runner_def)
      then show ?thesis
        using New_step(2) [OF New, of ?s] New Inr \<open>load (now ?w) = Inr cfg\<close>
        by (auto simp: attempt_session_def L op Let_def split: sum.splits exc.splits)
    qed
  qed (simp add: attempt_session_def L)
qed

lemma sup_loop_returns:
  assumes d: "ctx_done c = Some d" and env: "plain_env load os" and "0 < h"
    and h: "\<And>t cfg. load t = Inr cfg \<Longrightarrow> HeartbeatInterval cfg \<le> 0 \<or> h \<le> HeartbeatInterval cfg"
    and "due d w < now w + int n * h" and "due d w < now w + int turns * (5 * second)"
    and "delay w \<in> set backoff_delays"
  shows "\<exists>x w'. sup_loop (app_supervisor load os) c n turns w = Some (x, w')
    \<and> due d w' \<le> due d w + 1500 * millisecond"
  using assms(5-)
proof (induction turns arbitrary: w)
  case 0
  have "0 \<le> busy w" by (simp add: busy_def)
  then show ?case using 0 by (simp add: due_def)
next
  case (Suc turns)
  have "due d (pause w) < now (pause w) + int n * h"
    using Suc.prems(1) due_pause [of d w] now_pause [of w] by linarith
  then have "attempt_session (app_supervisor load os) c n (pause w) \<noteq> None"
    by (rule attempt_returns [OF d _ \<open>0 < h\<close>]) (rule h)
  then have "sup_turn (app_supervisor load os) c n w \<noteq> None"
    by (auto simp: sup_turn_def ctx_Err_eq split: option.splits sum.splits)
  then obtain r w1 where T: "sup_turn (app_supervisor load os) c n w = Some (r, w1)" by auto
  from T env show ?case
  proof (cases rule: turn_cases)
    case (1 x ms)
    then show ?thesis using T d by (intro exI [of _ x] exI [of _ w1]) simp
  next
    case (2 ms e)
    let ?d = "delay_after reset_online ms (delay w)"
    have m: "?d \<in> set backoff_delays"
      by (rule delay_after_mem) (use Suc.prems(3) in simp_all)
    then have d5: "5 * second \<le> ?d" by (rule backoff_least)
    have d1: "delay w1 \<in> set backoff_delays"
      unfolding 2(5) by (rule backoff_next [OF m])
    have due: "due d w1 \<le> due d w" by (rule 2(6) [OF d])
    have "due d w1 < now w1 + int n * h" "due d w1 < now w1 + int turns * (5 * second)"
      using Suc.prems(1,2) due 2(4) d5 by (simp_all add: algebra_simps second_def)
    from Suc.IH [OF this d1] show ?thesis
      using T 2(1) due by auto
  qed
qed

section \<open>The socket between sessions\<close>

lemma attempt_closes:
  assumes "attempt_session (app_supervisor load os) c n w = Some (x, w')" and "\<not> sock_open w" and "\<And>p. x \<noteq> Inl (Panic p)"
  shows "\<not> sock_open w'"
proof -
  let ?s = "app_supervisor load os" and ?w = "pause w"
  have L: "sLoad ?s w = (load (now ?w), ?w)" by (simp add: app_supervisor_def Let_def)
  show ?thesis
  proof (cases "load (now ?w)")
    case (Inl e)
    then show ?thesis using assms(1,2) by (auto simp: attempt_session_def L split: if_splits)
  next
    case (Inr cfg)
    obtain r w1 where N: "NewTransport (os (now ?w)) (Some (BindUDPAddr cfg)) (Some (ServerUDPAddr cfg))
        (ReceiveTimeout cfg) ?w = (r, w1)" by (rule prod.exhaust)
    have "\<not> sock_open w1" if "r = Inl e" for e
      using N that assms(2) by (auto simp: NewTransport_def Let_def split: option.splits if_splits sum.splits prod.splits)
    then show ?thesis
      using assms(1,3) N Inr
      by (auto simp: attempt_session_def L app_supervisor_def default_open_def Let_def runner_Close_def New_def Close_def
          split: option.splits sum.splits exc.splits prod.splits)
  qed
qed

lemma after_session_socket: "after_session (app_supervisor load os) c err w = (r, w') \<Longrightarrow> sock_open w' = sock_open w"
  by (auto simp: after_session_def app_supervisor_def waitForRetry_def ctx_Err_eq Let_def notify_def emit_def
      split: option.splits if_splits prod.splits bool.splits dest!: select_done_frame)

lemma turn_closes:
  assumes "sup_turn (app_supervisor load os) c n w = Some (r, w')" and "\<not> sock_open w" and "\<And>p. r \<noteq> Some (Inl (Panic p))"
  shows "\<not> sock_open w'"
  using assms attempt_closes [where load = load and os = os and c = c and n = n and w = "pause w"]
  by (auto simp: sup_turn_def ctx_Err_eq split: option.splits sum.splits dest!: after_session_socket)

lemma turns_close:
  "supervised_turns (app_supervisor load os) c n k w = Some w' \<Longrightarrow> \<not> sock_open w \<Longrightarrow> \<not> sock_open w'"
proof (induction k arbitrary: w)
  case (Suc k)
  then obtain w1 where "sup_turn (app_supervisor load os) c n w = Some (None, w1)"
    "supervised_turns (app_supervisor load os) c n k w1 = Some w'"
    by (auto split: option.splits)
  then show ?case using Suc.IH Suc.prems(2) turn_closes by blast
qed simp

section \<open>Sample values\<close>

definition sample_load :: "int \<Rightarrow> err + config" where
  "sample_load t = (if t < 10 * second then Inl ErrNetworkUnavailable else Inl (Errorf ''invalid TOML syntax''))"

definition sample_os :: os_net where
  "sample_os = \<lparr>os_interfaces = Inr [], os_listen = (\<lambda>_. None), os_SyscallConn = None, os_Control = None,
     os_setsockopt = (\<lambda>_. None)\<rparr>"

lemma sample_env: "plain_env sample_load (\<lambda>_. sample_os)"
  by (simp add: plain_env_def sample_load_def os_foreign_def sample_os_def foreign_def)

section \<open>Properties\<close>

text \<open>
  Property C3. The supervisor gives up only for cause. Whatever the configuration, the system and
  the network do, it returns only an error, and only one of these: the error of its context, which is
  done; an error of the configuration other than the missing network; the rejection of the
  credentials, and then a reply from the configured server that starts with \<open>05\<close> was received; or it
  panics because the random source failed. All retries on the way follow the back-off.
\<close>

theorem supervisor_stops_for_cause:
  assumes "plain_env load os"
  shows "case supervisor_Run (app_supervisor load os) c n turns w of
     None \<Rightarrow> True
   | Some (x, w') \<Rightarrow> stop_cause load c x w w' \<and> backoff_ok (5 * second) (new_milestones w w')"
proof (cases "supervisor_Run (app_supervisor load os) c n turns w")
  case (Some a)
  obtain x w' where a: "a = (x, w')" by (cases a)
  show ?thesis
    using supervisor_Run_cases [OF Some [unfolded a] assms] Some a by (auto simp: sup_went_new)
qed simp

theorem supervisor_stops_for_cause_witness:
  "\<exists>w'. supervisor_Run (app_supervisor sample_load (\<lambda>_. sample_os)) no_ctx 1 3 sample_world
      = Some (Inl (Fail (Errorf ''invalid TOML syntax'')), w')
    \<and> stop_cause sample_load no_ctx (Inl (Fail (Errorf ''invalid TOML syntax''))) sample_world w'
    \<and> backoff_ok (5 * second) (new_milestones sample_world w')"
proof -
  have "fst (the (supervisor_Run (app_supervisor sample_load (\<lambda>_. sample_os)) no_ctx 1 3 sample_world))
      = Inl (Fail (Errorf ''invalid TOML syntax''))
    \<and> supervisor_Run (app_supervisor sample_load (\<lambda>_. sample_os)) no_ctx 1 3 sample_world \<noteq> None"
    by code_simp
  then obtain w' where "supervisor_Run (app_supervisor sample_load (\<lambda>_. sample_os)) no_ctx 1 3 sample_world
      = Some (Inl (Fail (Errorf ''invalid TOML syntax'')), w')"
    by (cases "supervisor_Run (app_supervisor sample_load (\<lambda>_. sample_os)) no_ctx 1 3 sample_world") auto
  then show ?thesis
    using supervisor_stops_for_cause [OF sample_env, where c = no_ctx and n = 1 and turns = 3 and w = sample_world] by auto
qed

text \<open>
  Property C7. The back-off. After \<open>k\<close> sessions that were followed by a retry, exactly \<open>k\<close> retries
  were logged, with the delays 5, 10, 20, 40, 60, 60, ... seconds counted from the start or from the
  last time the session was online, and the next delay is again one of these. The delays logged are those waited: at least
  their sum has passed, and a next session that is followed by a retry ends with the log of that retry and takes at least
  the delay that it logs.
\<close>

theorem backoff_schedule:
  assumes "plain_env load os"
  shows "case supervised_turns (app_supervisor load os) c n k (w\<lparr>delay := 5 * second\<rparr>) of
     None \<Rightarrow> True
   | Some w' \<Rightarrow> backoff_ok (5 * second) (new_milestones w w')
       \<and> length (filter is_retry (new_milestones w w')) = k
       \<and> now w + total_delay (new_milestones w w') \<le> now w' \<and> delay w' \<in> set backoff_delays
       \<and> (case sup_turn (app_supervisor load os) c n w' of
            Some (None, w'') \<Rightarrow>
              (case last (new_milestones w' w'') of
                 LogRetry x e \<Rightarrow> x \<in> set backoff_delays \<and> now w' + x \<le> now w'' | _ \<Rightarrow> False)
          | _ \<Rightarrow> True)"
proof (cases "supervised_turns (app_supervisor load os) c n k (w\<lparr>delay := 5 * second\<rparr>)")
  case (Some w')
  have "delay (w\<lparr>delay := 5 * second\<rparr>) \<in> set backoff_delays" by simp
  from supervised_turns_history [OF Some assms this] obtain ms where ms: "sup_went ms w w'"
    and bo: "\<forall>es. backoff_ok (5 * second) (ms @ es) = backoff_ok (delay w') es"
    and m: "length (filter is_retry ms) = k" "delay w' \<in> set backoff_delays" "now w + total_delay ms \<le> now w'"
    by (auto simp: sup_went_start)
  have "case last (new_milestones w' w'') of
      LogRetry x e \<Rightarrow> x \<in> set backoff_delays \<and> now w' + x \<le> now w'' | _ \<Rightarrow> False"
    if "sup_turn (app_supervisor load os) c n w' = Some (None, w'')" for w''
    using that assms
  proof (cases rule: turn_cases)
    case (2 ms e)
    then show ?thesis
      using delay_after_mem [OF backoff_first m(2), of ms] by (simp add: sup_went_new [OF 2(3)])
  qed simp
  then show ?thesis
    using Some m spec [OF bo, of "[]"] by (auto simp: sup_went_new [OF ms] split: option.split)
qed simp

theorem backoff_schedule_witness:
  "\<exists>w'. supervised_turns (app_supervisor sample_load (\<lambda>_. sample_os)) no_ctx 1 2 (sample_world\<lparr>delay := 5 * second\<rparr>) = Some w'
    \<and> length (filter is_retry (new_milestones sample_world w')) = 2 \<and> delay w' = 20 * second"
proof -
  have "case supervised_turns (app_supervisor sample_load (\<lambda>_. sample_os)) no_ctx 1 2 (sample_world\<lparr>delay := 5 * second\<rparr>) of
      None \<Rightarrow> False | Some w' \<Rightarrow> delay w' = 20 * second"
    by code_simp
  then show ?thesis
    using backoff_schedule [OF sample_env, where c = no_ctx and n = 1 and k = 2 and w = sample_world]
    by (auto split: option.splits)
qed

text \<open>
  Property C15. The supervisor stops when it is told to. Once its context is done at \<open>d\<close>, it returns
  1.5 seconds after \<open>d\<close> at the latest (after the start, if \<open>d\<close> has passed), delays of the scheduler
  apart: the wait between sessions is interrupted, a running session is interrupted and logs out,
  and no other session is started. Rounds and turns that cover the time until \<open>d\<close> are enough fuel.
\<close>

theorem supervisor_stops_after_cancellation:
  assumes "ctx_done c = Some d" and "plain_env load os" and "0 < h"
    and "\<And>t cfg. load t = Inr cfg \<Longrightarrow> HeartbeatInterval cfg \<le> 0 \<or> h \<le> HeartbeatInterval cfg"
    and "max (now w) d + busy w < now w + int n * h"
    and "max (now w) d + busy w < now w + int turns * (5 * second)"
  shows "\<exists>x w'. supervisor_Run (app_supervisor load os) c n turns w = Some (x, w')
     \<and> now w' + busy w' \<le> max (now w) d + busy w + 1500 * millisecond"
proof -
  let ?w = "w\<lparr>delay := 5 * second\<rparr>"
  have due: "due d ?w = max (now w) d + busy w" by (simp add: due_def busy_def)
  have "due d ?w < now ?w + int n * h" "due d ?w < now ?w + int turns * (5 * second)"
    using assms(5,6) due by simp_all
  then have "\<exists>x w'. sup_loop (app_supervisor load os) c n turns ?w = Some (x, w')
      \<and> due d w' \<le> due d ?w + 1500 * millisecond"
    by (intro sup_loop_returns [OF assms(1-4)]) simp_all
  then obtain x w' where R: "supervisor_Run (app_supervisor load os) c n turns w = Some (x, w')"
    and "due d w' \<le> due d ?w + 1500 * millisecond"
    by (auto simp: supervisor_Run_def)
  then have "now w' + busy w' \<le> max (now w) d + busy w + 1500 * millisecond"
    using due_ge [of w' d] due by linarith
  with R show ?thesis by blast
qed

theorem supervisor_stops_after_cancellation_witness:
  "\<exists>x w'. supervisor_Run (app_supervisor sample_load (\<lambda>_. sample_os))
       \<lparr>cancel_at = Some (7 * second), ctx_deadline = None\<rparr> 8 2 sample_world = Some (x, w')
     \<and> now w' + busy w' \<le> 7 * second + 12 + 1500 * millisecond"
proof -
  have b: "busy sample_world = 12" "now sample_world = 0" by (simp_all add: busy_def sample_world_def)
  have h: "HeartbeatInterval cfg \<le> 0 \<or> second \<le> HeartbeatInterval cfg" if "sample_load t = Inr cfg" for t cfg
    using that by (auto simp: sample_load_def split: if_splits)
  show ?thesis
    using supervisor_stops_after_cancellation [OF _ sample_env _ h, where c = "\<lparr>cancel_at = Some (7 * second), ctx_deadline = None\<rparr>"
        and d = "7 * second" and n = 8 and turns = 2 and w = sample_world]
    by (simp add: b ctx_done_def second_def)
qed

text \<open>
  Property C16. No socket is left behind. A supervisor that starts without a socket has none while it
  waits between sessions, and none when it returns an error, whichever way the session ended.
\<close>

theorem supervisor_leaks_no_socket:
  "(case supervised_turns (app_supervisor load os) c n k (w\<lparr>sock_open := False\<rparr>) of
      None \<Rightarrow> True | Some w' \<Rightarrow> \<not> sock_open w')
   \<and> (case supervisor_Run (app_supervisor load os) c n turns (w\<lparr>sock_open := False\<rparr>) of
        Some (Inl (Fail e), w') \<Rightarrow> \<not> sock_open w' | _ \<Rightarrow> True)"
proof
  show "case supervised_turns (app_supervisor load os) c n k (w\<lparr>sock_open := False\<rparr>) of
      None \<Rightarrow> True | Some w' \<Rightarrow> \<not> sock_open w'"
    using turns_close [where w = "w\<lparr>sock_open := False\<rparr>"] by (simp split: option.split)
  have "\<not> sock_open w'" if R: "supervisor_Run (app_supervisor load os) c n turns (w\<lparr>sock_open := False\<rparr>) = Some (Inl (Fail e), w')"
    for e w'
  proof -
    obtain k w1 where "supervised_turns (app_supervisor load os) c n k (w\<lparr>sock_open := False, delay := 5 * second\<rparr>) = Some w1"
      and T: "sup_turn (app_supervisor load os) c n w1 = Some (Some (Inl (Fail e)), w')"
      using sup_loop_turns [OF R [unfolded supervisor_Run_def]] by auto
    then have "\<not> sock_open w1" using turns_close by fastforce
    then show ?thesis using turn_closes [OF T] by simp
  qed
  then show "case supervisor_Run (app_supervisor load os) c n turns (w\<lparr>sock_open := False\<rparr>) of
        Some (Inl (Fail e), w') \<Rightarrow> \<not> sock_open w' | _ \<Rightarrow> True"
    by (auto split: option.split sum.split exc.split)
qed

end
