(* ===== verification/Recovery.thy ===== *)
theory Recovery
  imports Progress Supervisor
begin

text \<open>
  Recovery: the supervisor waits for the network and brings the session online when it is there. The
  facts of \<open>Progress\<close> about a session with an answering server are used here for the runner that
  \<open>supervisor.go\<close> builds.
\<close>

section \<open>The supervised runner with an answering server\<close>

interpretation sa: answering_runner "session_runner s cfg (Exchange t) cl" "max 0 (timeout t)"
  "\<lambda>a. sameUDPAddr (Some a) (Some (server t))" reset_online A F "int D" "quiet A F D t" for s cfg t cl A F D
proof (rule answering_runner.intro)
  show "runner_env (session_runner s cfg (Exchange t) cl) (max 0 (timeout t))
      (\<lambda>a. sameUDPAddr (Some a) (Some (server t))) reset_online"
    by (rule sv.runner_env_axioms)
  show "answering_exchanger (rExchange (session_runner s cfg (Exchange t) cl)) (max 0 (timeout t))
      (\<lambda>a. sameUDPAddr (Some a) (Some (server t))) A F (int D) (quiet A F D t)"
    using an.answering_exchanger_axioms by (simp add: session_runner_def)
qed

section \<open>Waiting for the network\<close>

text \<open>
  \<open>down load os t\<close>: at time \<open>t\<close> there is no usable address yet, either because the detection finds none or because
  the system refuses to bind it. \<open>up load os cfg t\<close>: the configuration \<open>cfg\<close> loads and its socket can be opened.
\<close>

definition down :: "(int \<Rightarrow> err + config) \<Rightarrow> (int \<Rightarrow> os_net) \<Rightarrow> int \<Rightarrow> bool" where
  "down load os t \<longleftrightarrow>
     (case load t of
        Inl e \<Rightarrow> errors_Is e ErrNetworkUnavailable \<and> foreign e
      | Inr c \<Rightarrow> (case os_listen (os t) (BindUDPAddr c) of Some e \<Rightarrow> foreign e | None \<Rightarrow> False))"

definition up :: "(int \<Rightarrow> err + config) \<Rightarrow> (int \<Rightarrow> os_net) \<Rightarrow> config \<Rightarrow> int \<Rightarrow> bool" where
  "up load os cfg t \<longleftrightarrow> load t = Inr cfg \<and> os_listen (os t) (BindUDPAddr cfg) = None
     \<and> (\<forall>w. fst (pinInterface (os t) (addr_ip (BindUDPAddr cfg)) w) = Inr ())"

lemma ctx_open: "ctx_done c = None \<Longrightarrow> ctx_err_at c t = None"
  by (simp add: ctx_err_at_def)

text \<open>An attempt while the network is down fails at once, without a socket.\<close>

lemma attempt_down:
  assumes "down load os (now (pause w))"
  shows "\<exists>e. attempt_session (app_supervisor load os) c n w = Some (Inr (Some e), pause w) \<and> foreign e"
proof (cases "load (now (pause w))")
  case (Inl e)
  then show ?thesis
    using assms by (simp add: down_def attempt_session_def app_supervisor_def Let_def)
next
  case (Inr cfg)
  then obtain e where "os_listen (os (now (pause w))) (BindUDPAddr cfg) = Some e" "foreign e"
    using assms by (auto simp: down_def split: option.splits)
  then have "\<exists>e. default_open os cfg (pause w) = (Inl e, pause w) \<and> foreign e"
    by (simp add: default_open_def NewTransport_def foreign_def)
  then show ?thesis
    using Inr by (auto simp: attempt_session_def app_supervisor_def Let_def)
qed

lemma notify_app [simp]: "notify (app_supervisor load os) state w = emit (EvNotify state) w"
  by (simp add: notify_def app_supervisor_def)

text \<open>The turn then waits for the current delay and doubles it.\<close>

lemma after_session_waits:
  assumes "ctx_done c = None" and "foreign e"
  shows "\<exists>w'. after_session (app_supervisor load os) c (Some e) w = (None, w')
     \<and> sup_went [LogRetry (delay w) (Some e)] w w' \<and> now w + delay w \<le> now w'
     \<and> now w' + busy w' \<le> now w + busy w + max 0 (delay w)
     \<and> net w' = net w \<and> sent w' = sent w \<and> rng w' = rng w \<and> delay w' = min (delay w * 2) (60 * second)"
proof -
  let ?s = "app_supervisor load os"
  define v where "v = emit (EvNotify StateReconnecting) (emit (LogRetry (delay w) (Some e)) (pause w))"
  obtain b u where sel: "select_done c (now (pause v) + delay w) (pause v) = (b, u)" by (rule prod.exhaust)
  have b: "\<not> b" using select_done_True [of c _ "pause v" u] ctx_open [OF assms(1)] sel by auto
  note fr = select_done_frame [OF sel] select_done_busy(1,2) [OF sel]
  have v: "now v = now (pause w)" "busy v = busy (pause w)" "delay v = delay w" "net v = net w" "rng v = rng w"
    "trace v = trace w @ [LogRetry (delay w) (Some e), EvNotify StateReconnecting]" "sent v = sent w" "rcvd v = rcvd w"
    by (simp_all add: v_def emit_def busy_def)
  let ?w' = "u\<lparr>delay := min (delay u * 2) (60 * second)\<rparr>"
  have u: "delay u = delay w" "net u = net w" "sent u = sent w" "rng u = rng w" "trace u = trace v" "now (pause v) + delay w \<le> now u"
    using fr b sel select_done_False [of c _ "pause v" u] by (auto simp: same_local_def v)
  have "after_session ?s c (Some e) w = (None, ?w')"
    using sel b v(3) assms(2) ctx_open [OF assms(1)] unfolding after_session_def ctx_Err_eq
    by (simp add: err_Is_def foreign_def waitForRetry_def app_supervisor_def notify_def Let_def v_def [symmetric])
  moreover have acc: "now (pause v) + busy (pause v) = now w + busy w" "busy (pause v) \<le> busy w" "now w \<le> now (pause v)"
    using busy_pause [of v] busy_pause [of w] now_pause [of v] now_pause [of w] v(1,2) by simp_all
  moreover have "now u + busy u \<le> now w + busy w + max 0 (delay w)"
    using select_done_busy(2) [OF sel] acc(1) by linarith
  moreover have "busy ?w' = busy u" by (simp add: busy_def)
  ultimately show ?thesis
    using fr u v by (intro exI [of _ ?w'])
      (auto simp: sup_went_def milestones_def max_def split: if_splits)
qed

lemma turn_down:
  assumes "ctx_done c = None" and "down load os (now (pause (pause w)))"
  shows "\<exists>e w'. sup_turn (app_supervisor load os) c n w = Some (None, w')
     \<and> sup_went [LogRetry (delay w) (Some e)] w w' \<and> now w + delay w \<le> now w'
     \<and> now w' + busy w' \<le> now w + busy w + max 0 (delay w)
     \<and> net w' = net w \<and> sent w' = sent w \<and> rng w' = rng w \<and> delay w' = min (delay w * 2) (60 * second)"
proof -
  let ?v = "pause (pause w)"
  obtain e where A: "attempt_session (app_supervisor load os) c n (pause w) = Some (Inr (Some e), ?v)" "foreign e"
    using attempt_down [of load os "pause w" c n] assms(2) by auto
  obtain w' where w': "after_session (app_supervisor load os) c (Some e) ?v = (None, w')"
    "sup_went [LogRetry (delay ?v) (Some e)] ?v w'" "now ?v + delay ?v \<le> now w'"
    "now w' + busy w' \<le> now ?v + busy ?v + max 0 (delay ?v)" "net w' = net ?v" "sent w' = sent ?v" "rng w' = rng ?v"
    "delay w' = min (delay ?v * 2) (60 * second)"
    using after_session_waits [OF assms(1) A(2), of load os ?v] by blast
  have "sup_went [LogRetry (delay w) (Some e)] w w'"
    using sup_went_trans [OF sup_went_trans [OF sup_went_pause sup_went_pause] w'(2)] by simp
  moreover have "sup_turn (app_supervisor load os) c n w = Some (None, w')"
    using A(1) w'(1) ctx_open [OF assms(1)] unfolding sup_turn_def ctx_Err_eq by simp
  moreover have "now w + delay w \<le> now w'"
    using w'(3) now_pause [of w] now_pause [of "pause w"] by simp
  moreover have "now w' + busy w' \<le> now w + busy w + max 0 (delay w)"
    using w'(4) by simp
  ultimately show ?thesis using w'(5-8) by (intro exI [of _ e] exI [of _ w']) simp
qed

text \<open>
  Turn after turn until the network is up at \<open>T\<close>: only retries happen, and the first turn that finds it up
  begins at most a minute, the longest delay, after \<open>T\<close>.
\<close>

lemma waits_for_network:
  assumes "ctx_done c = None" and "\<forall>t < T. down load os t"
    and "delay w \<in> set backoff_delays" and "busy w \<le> B"
  shows "\<exists>rs w1. supervised_turns (app_supervisor load os) c n (length rs) w = Some w1 \<and> T \<le> now (pause (pause w1))
     \<and> sup_went rs w w1 \<and> list_all is_retry rs \<and> net w1 = net w \<and> sent w1 = sent w \<and> rng w1 = rng w
     \<and> now w1 + busy w1 \<le> max (now w + busy w) (T + B + 60 * second)"
  using assms(3,4)
proof (induction "nat (T - now w)" arbitrary: w rule: less_induct)
  case less
  let ?s = "app_supervisor load os" and ?v = "pause (pause w)"
  show ?case
  proof (cases "T \<le> now ?v")
    case True
    then show ?thesis by (intro exI [of _ "[]"] exI [of _ w]) simp
  next
    case False
    then have "down load os (now ?v)" using assms(2) by simp
    then obtain e w' where T: "sup_turn ?s c n w = Some (None, w')" and w': "sup_went [LogRetry (delay w) (Some e)] w w'"
      "now w + delay w \<le> now w'" "now w' + busy w' \<le> now w + busy w + max 0 (delay w)"
      "net w' = net w" "sent w' = sent w" "rng w' = rng w"
      "delay w' = min (delay w * 2) (60 * second)"
      using turn_down [OF assms(1)] by blast
    have d: "0 < delay w" "delay w \<le> 60 * second" "delay w' \<in> set backoff_delays"
      using less.prems(1) backoff_next [OF less.prems(1), folded w'(7)] by (simp_all add: backoff_delays_def second_def) auto
    have "busy ?v \<le> busy w" "now w \<le> now ?v" "now ?v + busy ?v = now w + busy w"
      using busy_pause [of w] busy_pause [of "pause w"] now_pause [of w] now_pause [of "pause w"] by simp_all
    then have le: "now w' + busy w' \<le> T + B + 60 * second"
      using w'(3) d False less.prems(2) by linarith
    have dec: "nat (T - now w') < nat (T - now w)"
      using w'(2) d(1) False \<open>now w \<le> now ?v\<close> by linarith
    have b: "busy w' \<le> B" using w'(1) less.prems(2) by (simp add: sup_went_def)
    from less.hyps [OF dec d(3) b] obtain rs w1 where 1:
      "supervised_turns ?s c n (length rs) w' = Some w1" "T \<le> now (pause (pause w1))"
      "sup_went rs w' w1" "list_all is_retry rs" "net w1 = net w'" "sent w1 = sent w'" "rng w1 = rng w'"
      "now w1 + busy w1 \<le> max (now w' + busy w') (T + B + 60 * second)"
      by (elim exE conjE)
    have "now w1 + busy w1 \<le> max (now w + busy w) (T + B + 60 * second)"
      using 1(8) le by linarith
    then show ?thesis
      using 1 w'(4-6) T sup_went_trans [OF w'(1) 1(3)]
      by (intro exI [of _ "LogRetry (delay w) (Some e) # rs"] exI [of _ w1]) simp
  qed
qed

section \<open>The session that comes up\<close>

text \<open>The part of a turn whose session logs in and completes \<open>n\<close> rounds: the world after them.\<close>

definition turn_online :: "supervisor \<Rightarrow> ctx_t \<Rightarrow> nat \<Rightarrow> world \<Rightarrow> world option" where
  "turn_online s c n w =
     (case ctx_Err c w of
        (Some _, _) \<Rightarrow> None
      | (None, w) \<Rightarrow>
          (case sLoad s w of
             (Inl _, _) \<Rightarrow> None
           | (Inr cfg, w) \<Rightarrow>
               (case (case sOpen s of None \<Rightarrow> default_open (sOs s) | Some f \<Rightarrow> f) cfg w of
                  (Inl _, _) \<Rightarrow> None
                | (Inr (ex, cl), w) \<Rightarrow>
                    let w = emit (LogBound (BindIP cfg) (BindPort cfg) (InterfaceName (AutoNetwork cfg))) w in
                    (case New cfg ex cl w of (r, w) \<Rightarrow>
                       let r = r\<lparr>rOnState := Some (on_state s)\<rparr> in
                       (case Login r c w of
                          (Inl _, _) \<Rightarrow> None
                        | (Inr _, w) \<Rightarrow> rounds_online r c n w)))))"

text \<open>What a session that comes up has logged and announced before its first round.\<close>

definition coming_up :: "config \<Rightarrow> event list" where
  "coming_up cfg = [LogBound (BindIP cfg) (BindPort cfg) (InterfaceName (AutoNetwork cfg)), EvState StateDisconnected,
     EvState StateLoginChallenge, EvState StateLoggingIn, LogLogin]"

lemma open_up:
  assumes "up load os cfg (now w)" and "0 < ReceiveTimeout cfg"
  shows "\<exists>i. default_open os cfg w =
     (Inr (Exchange \<lparr>server = ServerUDPAddr cfg, timeout = ReceiveTimeout cfg\<rparr>, Some Close),
      w\<lparr>sock_open := True, sock_if := i, sock_deadline := None, inbox := []\<rparr>)"
proof -
  let ?v = "w\<lparr>sock_open := True, sock_if := None, sock_deadline := None, inbox := []\<rparr>"
  obtain x v' where P: "pinInterface (os (now w)) (addr_ip (BindUDPAddr cfg)) ?v = (x, v')" by (rule prod.exhaust)
  then obtain i where "v' = ?v\<lparr>sock_if := i\<rparr>" using pinInterface_state by blast
  moreover have "x = Inr ()"
    using assms(1) P unfolding up_def by (metis fst_conv)
  ultimately show ?thesis
    using assms P by (intro exI [of _ i]) (simp add: default_open_def NewTransport_def up_def Let_def)
qed

lemma turn_up:
  assumes c: "ctx_done c = None" and "up load os cfg (now (pause (pause w)))"
    and "session_server cfg D (ServerUDPAddr cfg) (net w) (map snd (sent w))" and "int D + busy w < ReceiveTimeout cfg"
    and "rng w = Some bs" "4 + 8 * n \<le> length bs" and "0 < HeartbeatInterval cfg" and "versions_differ cfg"
  shows "\<exists>w'. turn_online (app_supervisor load os) c n w = Some w' \<and> sup_turn (app_supervisor load os) c n w = None
     \<and> sup_went (coming_up cfg @ beats n 0) w w'
     \<and> now w' + busy w' \<le> now w + busy w + 2 * int D + int n * (4 * int D + HeartbeatInterval cfg)"
proof -
  let ?s = "app_supervisor load os" and ?v = "pause (pause w)"
  define t where "t = \<lparr>server = ServerUDPAddr cfg, timeout = ReceiveTimeout cfg\<rparr>"
  define r where "r = session_runner ?s cfg (Exchange t) (Some Close)"
  have tm: "0 < ReceiveTimeout cfg" using assms(4) busy_nonneg [of w] by linarith
  obtain i where O: "default_open os cfg ?v =
      (Inr (Exchange t, Some Close), ?v\<lparr>sock_open := True, sock_if := i, sock_deadline := None, inbox := []\<rparr>)"
    using open_up [OF assms(2) tm] unfolding t_def by blast
  define v1 where "v1 = emit (LogBound (BindIP cfg) (BindPort cfg) (InterfaceName (AutoNetwork cfg)))
    (?v\<lparr>sock_open := True, sock_if := i, sock_deadline := None, inbox := []\<rparr>)"
  define v2 where "v2 = snd (New cfg (Exchange t) (Some Close) v1)"
  have N: "New cfg (Exchange t) (Some Close) v1 = (plain_runner cfg t, v2)" "r = (plain_runner cfg t)\<lparr>rOnState := Some (on_state ?s)\<rparr>"
    by (simp_all add: v2_def New_def plain_runner_def r_def session_runner_def)
  have bb: "busy ?v \<le> busy w" "now w \<le> now ?v" "now ?v + busy ?v = now w + busy w"
    using busy_pause [of w] busy_pause [of "pause w"] now_pause [of w] now_pause [of "pause w"] by simp_all
  have v2: "now v2 = now ?v" "busy v2 = busy ?v" "inbox v2 = []" "sock_open v2" "net v2 = net w" "rng v2 = rng w"
    "rcvd v2 = rcvd w" "sent v2 = sent w"
    "trace v2 = trace w @ [LogBound (BindIP cfg) (BindPort cfg) (InterfaceName (AutoNetwork cfg)), EvState StateDisconnected]"
    by (simp_all add: v2_def v1_def New_def emit_def busy_def)
  have q: "quiet session_request (file_request cfg) D t v2"
    using v2 assms(3,4) bb(1) by (simp add: quiet_def t_def)
  have it: "in_time c m v2" for m using c by (simp add: in_time_def)
  have iv: "max 0 (HeartbeatInterval (rcfg r)) = HeartbeatInterval cfg" and ip: "0 < HeartbeatInterval (rcfg r)"
    using assms(7) by (simp_all add: r_def session_runner_def)
  have rg: "rng v2 = Some bs" using assms(5) v2(6) by simp
  have sv: "sa.serves_session ?s cfg t (Some Close) session_request (file_request cfg)"
    using assms(8) unfolding sa.serves_session_def by (simp add: session_runner_def)
  from sa.session_online [where s = ?s and cfg = cfg and t = t and cl = "Some Close" and c = c and n = n,
      folded r_def, unfolded iv, OF sv [folded r_def] q it rg assms(6) ip]
  obtain u w1 w' m where
    S: "Login r c v2 = (Inr u, w1)" "rounds_online r c n w1 = Some w'"
    "went (\<lambda>a. sameUDPAddr (Some a) (Some (server t))) reset_online c m
      ([EvState StateLoginChallenge, EvState StateLoggingIn, LogLogin] @ beats n 0) v2 w'"
    "now w' + busy w' \<le> now v2 + busy v2 + 2 * int D + int n * (4 * int D + HeartbeatInterval cfg)" "Run r c n v2 = None"
    by (elim exE conjE)
  have L: "sLoad ?s (pause w) = (Inr cfg, ?v)" "sOpen ?s = None" "sOs ?s = os"
    using assms(2) by (simp_all add: app_supervisor_def up_def Let_def)
  have C: "ctx_Err c w = (None, pause w)" using ctx_open [OF c] by (simp add: ctx_Err_eq)
  have "turn_online ?s c n w = Some w'"
    unfolding turn_online_def C prod.case option.case L(1) sum.case
    using O N S(1,2) by (simp add: L v1_def [symmetric] Let_def)
  moreover have "attempt_session ?s c n (pause w) = None"
    unfolding attempt_session_def L(1) prod.case sum.case
    using O N S(5) by (simp add: L v1_def [symmetric] Let_def)
  then have "sup_turn ?s c n w = None"
    unfolding sup_turn_def C by simp
  moreover have "sup_went [LogBound (BindIP cfg) (BindPort cfg) (InterfaceName (AutoNetwork cfg)), EvState StateDisconnected] w v2"
    using bb(1,2) unfolding sup_went_def v2 by (simp add: milestones_def del: pause_account)
  from sup_went_trans [OF this went_sup [OF S(3)]] have "sup_went (coming_up cfg @ beats n 0) w w'"
    by (simp add: coming_up_def)
  ultimately show ?thesis using S(4) v2(1,2) bb(3) by auto
qed

text \<open>A supervisor whose turn does not end does not return.\<close>

lemma sup_loop_stuck:
  "supervised_turns s c n k w = Some w1 \<Longrightarrow> sup_turn s c n w1 = None \<Longrightarrow> sup_loop s c n turns w = None"
proof (induction k arbitrary: w turns)
  case 0
  then show ?case by (cases turns) simp_all
next
  case (Suc k)
  then obtain w2 where "sup_turn s c n w = Some (None, w2)" "supervised_turns s c n k w2 = Some w1"
    by (auto split: option.splits)
  then show ?case using Suc by (cases turns) simp_all
qed


section \<open>Properties\<close>

text \<open>
  Property C2. The session comes up with the network. While there is no usable address (the detection finds none, or
  it cannot be bound) the supervisor only retries; if the network is there from time \<open>T\<close> on and its server
  answers the requests of a session within \<open>D\<close> (the first and extra heartbeats, known by their versions, with the file of
  phase \<open>06\<close> if it likes), the session that comes up next logs in and stays online, never ends by itself, and
  is reached, delays of the scheduler apart, a minute after \<open>T\<close> at the latest (one minute is the longest
  back-off). Neither the supervisor nor the session returns.
\<close>

theorem supervisor_recovers:
  assumes "ctx_done c = None"
    and "\<forall>t < T. down load os t" and "\<forall>t \<ge> T. up load os cfg t"
    and "session_server cfg D (ServerUDPAddr cfg) (net w) (map snd (sent w))" and "int D + busy w < ReceiveTimeout cfg"
    and "rng w = Some bs" "4 + 8 * n \<le> length bs" and "0 < HeartbeatInterval cfg" and "versions_differ cfg"
  shows "\<exists>rs w1 w'. supervised_turns (app_supervisor load os) c n (length rs) (w\<lparr>delay := 5 * second\<rparr>) = Some w1
     \<and> turn_online (app_supervisor load os) c n w1 = Some w'
     \<and> list_all is_retry rs \<and> new_milestones w w' = rs @ coming_up cfg @ beats n 0
     \<and> now w1 + busy w1 \<le> max (now w) (T + 60 * second) + busy w
     \<and> now w' + busy w' \<le> now w1 + busy w1 + 2 * int D + int n * (4 * int D + HeartbeatInterval cfg)
     \<and> supervisor_Run (app_supervisor load os) c n turns w = None"
proof -
  let ?s = "app_supervisor load os" and ?w = "w\<lparr>delay := 5 * second\<rparr>"
  have b: "busy ?w = busy w" by (simp add: busy_def)
  have "delay ?w \<in> set backoff_delays" "busy ?w \<le> busy w" using b by simp_all
  from waits_for_network [where n = n, OF assms(1,2) this] obtain rs w1 where
    1: "supervised_turns ?s c n (length rs) ?w = Some w1" "T \<le> now (pause (pause w1))"
      "sup_went rs ?w w1" "list_all is_retry rs" "net w1 = net ?w" "sent w1 = sent ?w" "rng w1 = rng ?w"
      "now w1 + busy w1 \<le> max (now ?w + busy ?w) (T + busy w + 60 * second)"
    by blast
  have "busy w1 \<le> busy w" using 1(3) b by (simp add: sup_went_def)
  then obtain w' where w': "turn_online ?s c n w1 = Some w'" "sup_turn ?s c n w1 = None"
    "sup_went (coming_up cfg @ beats n 0) w1 w'"
    "now w' + busy w' \<le> now w1 + busy w1 + 2 * int D + int n * (4 * int D + HeartbeatInterval cfg)"
    using turn_up [OF assms(1) assms(3) [rule_format, OF 1(2)], of D bs n] 1(5-7) assms(4-9) by auto
  have "new_milestones w w' = rs @ coming_up cfg @ beats n 0"
    using sup_went_new [OF sup_went_start [THEN iffD1, OF sup_went_trans [OF 1(3) w'(3)]]] .
  moreover have "supervisor_Run ?s c n turns w = None"
    unfolding supervisor_Run_def by (rule sup_loop_stuck [OF 1(1) w'(2)])
  moreover have "now w1 + busy w1 \<le> max (now w) (T + 60 * second) + busy w"
    using 1(8) b by (simp add: max_def split: if_splits)
  ultimately show ?thesis using 1(1,4) w'(1,4) by blast
qed

definition boot_load :: "int \<Rightarrow> err + config" where
  "boot_load t = (if t < 12 * second then Inl (Wrapf ''detect network'' ErrNetworkUnavailable) else Inr sample_config)"

definition boot_os :: os_net where
  "boot_os = sample_os\<lparr>os_interfaces := Inr [\<lparr>ifIndex = 7, ifName = ''Ethernet'', ifFlags = 0x13,
     ifHardwareAddr = [2, 0, 0, 0, 0, 1], ifAddrs = Inr [IPNet [10, 1, 2, 3]]\<rparr>]\<rparr>"

lemma boot_bind: "addr_ip (BindUDPAddr sample_config) = [10, 1, 2, 3]"
  by code_simp

lemma boot_pin: "fst (pinInterface boot_os [10, 1, 2, 3] w) = Inr ()"
  by (simp add: pinInterface_def boot_os_def sample_os_def pin_socket_def Let_def)

lemma boot_server: "ServerUDPAddr sample_config = server sample_transport"
  by code_simp

theorem supervisor_recovers_witness:
  "supervisor_Run (app_supervisor boot_load (\<lambda>_. boot_os)) no_ctx 4 9 honest_world = None"
proof -
  have d: "\<forall>t < 12 * second. down boot_load (\<lambda>_. boot_os) t"
    by (simp add: down_def boot_load_def foreign_def)
  have u: "\<forall>t \<ge> 12 * second. up boot_load (\<lambda>_. boot_os) sample_config t"
    using boot_pin by (simp add: up_def boot_load_def boot_bind boot_os_def sample_os_def)
  have a: "session_server sample_config 10000 (ServerUDPAddr sample_config) (net honest_world) (map snd (sent honest_world))"
    unfolding boot_server by (rule honest_answers)
  have r: "int 10000 + busy honest_world < ReceiveTimeout sample_config" "rng honest_world = Some (replicate 40 0xaa)"
    "0 < HeartbeatInterval sample_config" "ctx_done no_ctx = None"
    by (simp_all add: honest_world_def sample_world_def sample_config_def second_def millisecond_def busy_def ctx_done_def no_ctx_def)
  have "4 + 8 * 4 \<le> length (replicate 40 (0xaa :: byte))" by simp
  from supervisor_recovers [OF r(4) d u a r(1,2) this r(3) sample_versions, of 9] show ?thesis
    by (elim exE conjE)
qed

end
