(* ===== verification/GoStrings.thy ===== *)
theory GoStrings
  imports Prelude "HOL-Library.Sublist"
begin

text \<open>
  The functions of Go's standard library that the configuration uses on strings: \<open>strings\<close>
  (\<open>TrimSpace\<close>, \<open>EqualFold\<close>, \<open>ToLower\<close>, \<open>Contains\<close>, \<open>TrimPrefix\<close>), decimal formatting, and
  \<open>hex.DecodeString\<close>. A Go string is a list of bytes, a HOL \<open>char\<close> is one byte.
\<close>

unbundle bit_operations_syntax

section \<open>Characters\<close>

abbreviation code_of :: "char \<Rightarrow> nat" where
  "code_of c \<equiv> of_char c"

definition is_digit :: "char \<Rightarrow> bool" where
  "is_digit c \<longleftrightarrow> 48 \<le> code_of c \<and> code_of c \<le> 57"

definition hexval :: "char \<Rightarrow> nat option" where
  "hexval c =
     (let n = code_of c in
      if 48 \<le> n \<and> n \<le> 57 then Some (n - 48)
      else if 97 \<le> n \<and> n \<le> 102 then Some (n - 97 + 10)
      else if 65 \<le> n \<and> n \<le> 70 then Some (n - 65 + 10)
      else None)"

lemma hexval_less: "hexval c = Some d \<Longrightarrow> d < 16"
  by (auto simp: hexval_def Let_def split: if_splits)

section \<open>TrimSpace\<close>

text \<open>
  The UTF-8 encodings of the code points that \<open>unicode.IsSpace\<close> accepts, by their length; no
  encoding is a prefix or a suffix of another.
\<close>

definition space1 :: "char \<Rightarrow> bool" where
  "space1 a \<longleftrightarrow> code_of a \<in> {9, 10, 11, 12, 13, 32}"

definition space2 :: "char \<Rightarrow> char \<Rightarrow> bool" where
  "space2 a b \<longleftrightarrow> code_of a = 0xc2 \<and> code_of b \<in> {0x85, 0xa0}"

definition space3 :: "char \<Rightarrow> char \<Rightarrow> char \<Rightarrow> bool" where
  "space3 a b c \<longleftrightarrow>
     code_of a = 0xe1 \<and> code_of b = 0x9a \<and> code_of c = 0x80
   \<or> code_of a = 0xe2 \<and> code_of b = 0x80 \<and> (0x80 \<le> code_of c \<and> code_of c \<le> 0x8a \<or> code_of c \<in> {0xa8, 0xa9, 0xaf})
   \<or> code_of a = 0xe2 \<and> code_of b = 0x81 \<and> code_of c = 0x9f
   \<or> code_of a = 0xe3 \<and> code_of b = 0x80 \<and> code_of c = 0x80"

fun trim_left :: "string \<Rightarrow> string" where
  "trim_left [] = []"
| "trim_left [a] = (if space1 a then [] else [a])"
| "trim_left [a, b] =
     (if space1 a then trim_left [b] else if space2 a b then [] else [a, b])"
| "trim_left (a # b # c # s) =
     (if space1 a then trim_left (b # c # s)
      else if space2 a b then trim_left (c # s)
      else if space3 a b c then trim_left s
      else a # b # c # s)"

text \<open>The same from the right, on the reversed string.\<close>

fun trim_rev :: "string \<Rightarrow> string" where
  "trim_rev [] = []"
| "trim_rev [a] = (if space1 a then [] else [a])"
| "trim_rev [b, a] =
     (if space1 b then trim_rev [a] else if space2 a b then [] else [b, a])"
| "trim_rev (c # b # a # s) =
     (if space1 c then trim_rev (b # a # s)
      else if space2 b c then trim_rev (a # s)
      else if space3 a b c then trim_rev s
      else c # b # a # s)"

definition TrimSpace :: "string \<Rightarrow> string" where
  "TrimSpace s = rev (trim_rev (rev (trim_left s)))"

text \<open>Visible ASCII characters are never trimmed.\<close>

definition visible :: "char \<Rightarrow> bool" where
  "visible c \<longleftrightarrow> 33 \<le> code_of c \<and> code_of c < 128"

lemma visible_not_space:
  "visible c \<Longrightarrow> \<not> space1 c" "visible c \<Longrightarrow> \<not> space2 c b" "visible c \<Longrightarrow> \<not> space2 a c"
  "visible c \<Longrightarrow> \<not> space3 c b b2" "visible c \<Longrightarrow> \<not> space3 a c b2" "visible c \<Longrightarrow> \<not> space3 a b c"
  by (auto simp: visible_def space1_def space2_def space3_def)

lemma trim_left_visible: "visible c \<Longrightarrow> c \<in> set (trim_left s) \<longleftrightarrow> c \<in> set s"
  by (induction s rule: trim_left.induct) (auto simp: visible_not_space)

lemma trim_rev_visible: "visible c \<Longrightarrow> c \<in> set (trim_rev s) \<longleftrightarrow> c \<in> set s"
  by (induction s rule: trim_rev.induct) (auto simp: visible_not_space)

lemma TrimSpace_visible: "visible c \<Longrightarrow> c \<in> set (TrimSpace s) \<longleftrightarrow> c \<in> set s"
  by (simp add: TrimSpace_def trim_rev_visible trim_left_visible)

section \<open>Case\<close>

definition ascii_lower :: "char \<Rightarrow> char" where
  "ascii_lower c = (if 65 \<le> code_of c \<and> code_of c \<le> 90 then char_of (code_of c + 32) else c)"

text \<open>
  \<open>strings.ToLower\<close>: the ASCII branch, and the one that maps code points with the Unicode tables,
  which is the parameter \<open>uni\<close>.
\<close>

definition ToLower :: "(string \<Rightarrow> string) \<Rightarrow> string \<Rightarrow> string" where
  "ToLower uni s = (if list_all (\<lambda>c. code_of c < 128) s then map ascii_lower s else uni s)"

text \<open>
  \<open>strings.EqualFold(s, t)\<close> for an ASCII \<open>t\<close> without the letters k and s: no code point outside
  ASCII folds to any other letter.
\<close>

definition EqualFold :: "string \<Rightarrow> string \<Rightarrow> bool" where
  "EqualFold s t \<longleftrightarrow> map ascii_lower s = map ascii_lower t"

section \<open>Searching\<close>

fun Contains :: "string \<Rightarrow> string \<Rightarrow> bool" where
  "Contains [] sub = (sub = [])"
| "Contains (c # s) sub = (prefix sub (c # s) \<or> Contains s sub)"

lemma Contains_iff: "Contains s sub \<longleftrightarrow> sublist sub s"
  by (induction s sub rule: Contains.induct) (simp_all add: sublist_Cons_right)

definition TrimPrefix :: "string \<Rightarrow> string \<Rightarrow> string" where
  "TrimPrefix s p = (if prefix p s then drop (length p) s else s)"

section \<open>Numbers\<close>

text \<open>The verb \<open>%d\<close> on a non-negative number.\<close>

definition digit :: "nat \<Rightarrow> char" where
  "digit d = char_of (48 + d)"

fun dec :: "nat \<Rightarrow> string" where
  "dec n = (if n < 10 then [digit n] else dec (n div 10) @ [digit (n mod 10)])"

declare dec.simps [simp del]

lemma code_digit [simp]: "d < 10 \<Longrightarrow> code_of (digit d) = 48 + d"
  by (simp add: digit_def of_char_of)

lemma is_digit_digit [simp]: "d < 10 \<Longrightarrow> is_digit (digit d)"
  by (simp add: is_digit_def)

lemma digit_code: "is_digit c \<Longrightarrow> digit (code_of c - 48) = c"
  by (simp add: is_digit_def digit_def)

lemma dec_small: "n < 10 \<Longrightarrow> dec n = [digit n]"
  by (simp add: dec.simps)

lemma dec_step: "0 < n \<Longrightarrow> d < 10 \<Longrightarrow> dec (n * 10 + d) = dec n @ [digit d]"
  by (subst dec.simps) simp

lemma dec_nonempty [simp]: "dec n \<noteq> []"
  by (subst dec.simps) simp

lemma digit_zero_iff [simp]: "d < 10 \<Longrightarrow> digit d = digit 0 \<longleftrightarrow> d = 0"
  by (metis add_left_cancel code_digit zero_less_numeral)

text \<open>\<open>hex.DecodeString\<close>; \<open>None\<close> is an error.\<close>

fun hex_decode :: "string \<Rightarrow> bytes option" where
  "hex_decode [] = Some []"
| "hex_decode [a] = None"
| "hex_decode (a # b # s) =
     (case (hexval a, hexval b) of
        (Some x, Some y) \<Rightarrow> map_option (\<lambda>r. of_nat (16 * x + y) # r) (hex_decode s)
      | _ \<Rightarrow> None)"

text \<open>The verb \<open>%02x\<close> on bytes.\<close>

definition hexdigit :: "nat \<Rightarrow> char" where
  "hexdigit d = (if d < 10 then char_of (48 + d) else char_of (87 + d))"

definition hex2 :: "byte \<Rightarrow> string" where
  "hex2 b = [hexdigit (unat b div 16), hexdigit (unat b mod 16)]"

lemma hexval_hexdigit [simp]: "d < 16 \<Longrightarrow> hexval (hexdigit d) = Some d"
  by (simp add: hexval_def hexdigit_def of_char_of)

lemma byte_nibbles: "unat (b :: byte) div 16 < 16" "unat b mod 16 < 16"
  using unsigned_less [of b, where ?'a = nat] by (simp_all add: less_mult_imp_div_less)

lemma hex_decode_hex2: "hex_decode (hex2 b @ s) = map_option (\<lambda>r. b # r) (hex_decode s)"
proof -
  have "16 * (unat b div 16) + unat b mod 16 = unat b" by simp
  then show ?thesis
    using byte_nibbles [of b] by (simp add: hex2_def)
qed

end
