(* ===== verification/GoNet.thy ===== *)
theory GoNet
  imports GoStrings NetAddr
begin

text \<open>
  The parsers of Go's \<open>net\<close> package that the configuration uses: \<open>ParseIP\<close> (which is
  \<open>netip.ParseAddr\<close> without zones) and \<open>ParseMAC\<close>. \<open>None\<close> is an error.
\<close>

section \<open>IPv4\<close>

text \<open>
  \<open>parseIPv4Fields\<close>: \<open>prev\<close> is the character before the position (none at the start), \<open>val\<close> and
  \<open>digLen\<close> the octet read so far, \<open>fs\<close> the fields stored.
\<close>

fun parse_v4 :: "char option \<Rightarrow> nat \<Rightarrow> nat \<Rightarrow> bytes \<Rightarrow> string \<Rightarrow> bytes option" where
  "parse_v4 prev val digLen fs [] = (if length fs < 3 then None else Some (fs @ [of_nat val]))"
| "parse_v4 prev val digLen fs (c # cs) =
     (if is_digit c then
        (if digLen = 1 \<and> val = 0 then None
         else let val = val * 10 + (code_of c - 48) in
           if val > 255 then None else parse_v4 (Some c) val (digLen + 1) fs cs)
      else if c = CHR ''.'' then
        (if prev = None \<or> cs = [] \<or> prev = Some (CHR ''.'') then None
         else if length fs = 3 then None
         else parse_v4 (Some c) 0 0 (fs @ [of_nat val]) cs)
      else None)"

definition parseIPv4 :: "string \<Rightarrow> bytes option" where
  "parseIPv4 s = parse_v4 None 0 0 [] s"

section \<open>IPv6\<close>

text \<open>The digits of a group: their number, their value, and the rest of the string.\<close>

fun hex_group :: "nat \<Rightarrow> nat \<Rightarrow> string \<Rightarrow> (nat \<times> nat \<times> string) option" where
  "hex_group off acc [] = Some (off, acc, [])"
| "hex_group off acc (c # cs) =
     (case hexval c of
        None \<Rightarrow> Some (off, acc, c # cs)
      | Some d \<Rightarrow>
          if off > 3 then None
          else if acc * 16 + d > 65535 then None
          else hex_group (off + 1) (acc * 16 + d) cs)"

text \<open>The loop: the bytes stored so far, the position of the ellipsis, and the rest.\<close>

function v6_loop :: "bytes \<Rightarrow> nat option \<Rightarrow> string \<Rightarrow> (bytes \<times> nat option \<times> string) option" where
  "v6_loop ip ell s =
     (if 16 \<le> length ip then Some (ip, ell, s)
      else case hex_group 0 0 s of
        None \<Rightarrow> None
      | Some (off, acc, r) \<Rightarrow>
          if off = 0 then None
          else if r \<noteq> [] \<and> hd r = CHR ''.'' then
            (if ell = None \<and> length ip \<noteq> 12 then None
             else if length ip + 4 > 16 then None
             else case parse_v4 None 0 0 [] s of
               None \<Rightarrow> None
             | Some fs \<Rightarrow> Some (ip @ fs, ell, []))
          else
            let ip = ip @ [of_nat (acc div 256), of_nat acc] in
            (case r of
               [] \<Rightarrow> Some (ip, ell, [])
             | [c] \<Rightarrow> None
             | c # c2 # r2 \<Rightarrow>
                 if c \<noteq> CHR '':'' then None
                 else if c2 = CHR '':'' then
                   (if ell \<noteq> None then None
                    else if r2 = [] then Some (ip, Some (length ip), [])
                    else v6_loop ip (Some (length ip)) r2)
                 else v6_loop ip ell (c2 # r2)))"
  by pat_completeness auto
termination
  by (relation "measure (\<lambda>(ip, ell, s). 16 - length ip)") auto

declare v6_loop.simps [simp del]

definition parseIPv6 :: "string \<Rightarrow> bytes option" where
  "parseIPv6 s =
     (if CHR ''%'' \<in> set s then None
      else
        let lead = prefix ''::'' s;
            s = (if lead then drop 2 s else s)
        in if lead \<and> s = [] then Some (replicate 16 0)
        else case v6_loop [] (if lead then Some 0 else None) s of
          None \<Rightarrow> None
        | Some (ip, ell, rest) \<Rightarrow>
            if rest \<noteq> [] then None
            else if length ip < 16 then
              (case ell of
                 None \<Rightarrow> None
               | Some e \<Rightarrow> Some (take e ip @ replicate (16 - length ip) 0 @ drop e ip))
            else if ell \<noteq> None then None
            else Some ip)"

section \<open>ParseIP\<close>

text \<open>
  \<open>netip.ParseAddr\<close> dispatches on the first \<open>.\<close>, \<open>:\<close> or \<open>%\<close>; \<open>ParseIP\<close> refuses zones and
  returns the 16-byte form.
\<close>

fun first_of :: "string \<Rightarrow> char option" where
  "first_of [] = None"
| "first_of (c # cs) = (if c \<in> {CHR ''.'', CHR '':'', CHR ''%''} then Some c else first_of cs)"

definition ParseIP :: "string \<Rightarrow> bytes option" where
  "ParseIP s =
     (case first_of s of
        None \<Rightarrow> None
      | Some c \<Rightarrow>
          if c = CHR ''.'' then map_option (\<lambda>b. v4InV6Prefix @ b) (parseIPv4 s)
          else if c = CHR '':'' then parseIPv6 s
          else None)"

text \<open>\<open>net.ParseIP(s).To4()\<close>, where \<open>To4\<close> of nil is nil.\<close>

definition ParseIPv4 :: "string \<Rightarrow> bytes option" where
  "ParseIPv4 s = (case ParseIP s of None \<Rightarrow> None | Some ip \<Rightarrow> To4 ip)"

section \<open>ParseMAC\<close>

text \<open>\<open>xtoi2(s, e)\<close>: two hex digits, followed by \<open>e\<close> or by the end of the string.\<close>

definition xtoi2 :: "string \<Rightarrow> char \<Rightarrow> byte option" where
  "xtoi2 s e =
     (if 2 < length s \<and> s ! 2 \<noteq> e then None
      else if length s < 2 then None
      else case (hexval (s ! 0), hexval (s ! 1)) of
        (Some x, Some y) \<Rightarrow> Some (of_nat (16 * x + y))
      | _ \<Rightarrow> None)"

text \<open>The loops over the fields: three characters per byte, or five per two bytes.\<close>

fun mac_bytes :: "char \<Rightarrow> nat \<Rightarrow> string \<Rightarrow> bytes option" where
  "mac_bytes e 0 s = Some []"
| "mac_bytes e (Suc n) s =
     (case xtoi2 s e of
        None \<Rightarrow> None
      | Some b \<Rightarrow> map_option (\<lambda>bs. b # bs) (mac_bytes e n (drop 3 s)))"

fun mac_words :: "char \<Rightarrow> nat \<Rightarrow> string \<Rightarrow> bytes option" where
  "mac_words e 0 s = Some []"
| "mac_words e (Suc n) s =
     (case (xtoi2 (take 2 s) (CHR 0x00), xtoi2 (drop 2 s) e) of
        (Some a, Some b) \<Rightarrow> map_option (\<lambda>bs. a # b # bs) (mac_words e n (drop 5 s))
      | _ \<Rightarrow> None)"

definition ParseMAC :: "string \<Rightarrow> bytes option" where
  "ParseMAC s =
     (if length s < 14 then None
      else if s ! 2 = CHR '':'' \<or> s ! 2 = CHR ''-'' then
        (if (length s + 1) mod 3 \<noteq> 0 then None
         else let n = (length s + 1) div 3 in
           if n \<noteq> 6 \<and> n \<noteq> 8 \<and> n \<noteq> 20 then None else mac_bytes (s ! 2) n s)
      else if s ! 4 = CHR ''.'' then
        (if (length s + 1) mod 5 \<noteq> 0 then None
         else let n = 2 * (length s + 1) div 5 in
           if n \<noteq> 6 \<and> n \<noteq> 8 \<and> n \<noteq> 20 then None else mac_words (s ! 4) (n div 2) s)
      else None)"

section \<open>Dotted decimal\<close>

fun dotted :: "bytes \<Rightarrow> string" where
  "dotted [] = []"
| "dotted [b] = dec (unat b)"
| "dotted (b # bs) = dec (unat b) @ ''.'' @ dotted bs"

definition fields_text :: "bytes \<Rightarrow> string" where
  "fields_text fs = concat (map (\<lambda>f. dec (unat f) @ ''.'') fs)"

lemma dotted_snoc: "dotted (fs @ [v]) = fields_text fs @ dec (unat v)"
proof (induction fs)
  case (Cons f fs)
  then show ?case by (cases fs) (simp_all add: fields_text_def)
qed (simp add: fields_text_def)

lemma fields_text_snoc: "fields_text (fs @ [v]) = fields_text fs @ dec (unat v) @ ''.''"
  by (simp add: fields_text_def)

lemma unat_byte: "v \<le> 255 \<Longrightarrow> unat (of_nat v :: byte) = v"
  by (simp add: unat_of_nat take_bit_nat_eq_self)

lemma digit_not_dot: "is_digit c \<Longrightarrow> c \<noteq> CHR ''.''"
  by (auto simp: is_digit_def)

text \<open>The state of the scan: the digits of the current octet spell \<open>val\<close>.\<close>

definition scan_ok :: "char option \<Rightarrow> nat \<Rightarrow> nat \<Rightarrow> bytes \<Rightarrow> bool" where
  "scan_ok prev val dl fs \<longleftrightarrow> val \<le> 255 \<and> length fs \<le> 3 \<and>
     (if dl = 0 then val = 0 \<and> prev = (if fs = [] then None else Some (CHR ''.''))
      else dl = length (dec val) \<and> (\<exists>c. prev = Some c \<and> is_digit c))"

lemma scan_digit:
  assumes "scan_ok prev val dl fs" and "is_digit c" and "\<not> (dl = 1 \<and> val = 0)"
    and "val * 10 + (code_of c - 48) \<le> 255"
  shows "scan_ok (Some c) (val * 10 + (code_of c - 48)) (dl + 1) fs"
    and "dec (val * 10 + (code_of c - 48)) = (if dl = 0 then [] else dec val) @ [c]"
proof -
  let ?d = "code_of c - 48"
  have d: "?d < 10" "digit ?d = c"
    using assms(2) digit_code [OF assms(2)] by (auto simp: is_digit_def)
  have pos: "0 < val" if "dl \<noteq> 0"
    using assms(1,3) that by (cases "val = 0") (auto simp: scan_ok_def dec_small)
  show eq: "dec (val * 10 + ?d) = (if dl = 0 then [] else dec val) @ [c]"
    using d pos dec_step [of val ?d] dec_small [of ?d] assms(1) by (auto simp: scan_ok_def)
  show "scan_ok (Some c) (val * 10 + ?d) (dl + 1) fs"
    using assms eq by (auto simp: scan_ok_def)
qed

lemma parse_v4_sound:
  assumes "parse_v4 prev val dl fs cs = Some bs" and "scan_ok prev val dl fs" and "dl = 0 \<longrightarrow> cs \<noteq> [] \<or> fs = []"
  shows "length bs = 4 \<and> dotted bs = fields_text fs @ (if dl = 0 then [] else dec val) @ cs"
  using assms
proof (induction prev val dl fs cs rule: parse_v4.induct)
  case (1 prev val dl fs)
  then have "length fs = 3" "dl \<noteq> 0" "bs = fs @ [of_nat val]" "val \<le> 255"
    by (auto simp: scan_ok_def split: if_splits)
  then show ?case by (simp add: dotted_snoc unat_byte)
next
  case (2 prev val dl fs c cs)
  show ?case
  proof (cases "is_digit c")
    case True
    let ?v = "val * 10 + (code_of c - 48)"
    have step: "\<not> (dl = 1 \<and> val = 0)" "?v \<le> 255" "parse_v4 (Some c) ?v (dl + 1) fs cs = Some bs"
      using 2(3) True by (auto simp: Let_def split: if_splits)
    note sc = scan_digit [OF 2(4) True step(1,2)]
    have "length bs = 4 \<and> dotted bs = fields_text fs @ (if dl + 1 = 0 then [] else dec ?v) @ cs"
      using 2(1) [OF True step(1) refl _ step(3) sc(1)] step(2) by simp
    then show ?thesis using sc(2) by simp
  next
    case False
    then have c: "c = CHR ''.''" "prev \<noteq> None" "cs \<noteq> []" "prev \<noteq> Some (CHR ''.'')" "length fs \<noteq> 3"
      and rest: "parse_v4 (Some c) 0 0 (fs @ [of_nat val]) cs = Some bs"
      using 2(3) by (auto split: if_splits)
    have dl: "dl \<noteq> 0" "val \<le> 255" "length fs < 3"
      using 2(4) c by (auto simp: scan_ok_def split: if_splits)
    have "length bs = 4 \<and> dotted bs = fields_text (fs @ [of_nat val]) @ (if (0::nat) = 0 then [] else dec 0) @ cs"
      by (rule 2(2) [OF False c(1) _ c(5) rest]) (use c dl in \<open>auto simp: scan_ok_def\<close>)
    then show ?thesis using c(1) dl by (simp add: fields_text_snoc unat_byte)
  qed
qed

lemma parse_v4_dec:
  "n \<le> 255 \<Longrightarrow> parse_v4 prev 0 0 fs (dec n @ cs) = parse_v4 (Some (last (dec n))) n (length (dec n)) fs cs"
proof (induction n arbitrary: cs rule: dec.induct)
  case (1 n)
  show ?case
  proof (cases "n < 10")
    case True
    then show ?thesis by (simp add: dec_small)
  next
    case False
    let ?q = "n div 10" and ?d = "n mod 10"
    have q: "?q \<noteq> 0"
      using False by (metis div_greater_zero_iff not_less not_gr_zero zero_less_numeral)
    have dec: "dec n = dec ?q @ [digit ?d]"
      using False by (subst dec.simps) simp
    have "parse_v4 prev 0 0 fs (dec ?q @ digit ?d # cs)
        = parse_v4 (Some (last (dec ?q))) ?q (length (dec ?q)) fs (digit ?d # cs)"
      using "1.IH" [OF False, of "digit ?d # cs"] "1.prems" by simp
    also have "\<dots> = parse_v4 (Some (digit ?d)) n (length (dec ?q) + 1) fs cs"
      using q "1.prems" by simp
    finally show ?thesis by (simp add: dec)
  qed
qed

lemma last_dec: "is_digit (last (dec n))"
  by (subst dec.simps) simp

lemma byte_le: "unat (b :: byte) \<le> 255"
  using unsigned_less [of b, where ?'a = nat] by simp

lemma parse_v4_field:
  "length fs < 3 \<Longrightarrow> cs \<noteq> [] \<Longrightarrow>
     parse_v4 prev 0 0 fs (dec (unat b) @ CHR ''.'' # cs) = parse_v4 (Some (CHR ''.'')) 0 0 (fs @ [b]) cs"
  using digit_not_dot [OF last_dec, of "unat b"] by (simp add: parse_v4_dec [OF byte_le] is_digit_def)

lemma parse_v4_last:
  "length fs = 3 \<Longrightarrow> parse_v4 prev 0 0 fs (dec (unat b)) = Some (fs @ [b])"
  using parse_v4_dec [OF byte_le, of prev fs b "[]"] by simp

text \<open>The accepted dotted forms are exactly the canonical ones.\<close>

lemma four_bytes:
  assumes "length bs = 4"
  obtains a b c d where "bs = [a, b, c, d]"
  using assms by (auto simp: numeral_eq_Suc length_Suc_conv)

lemma parseIPv4_iff: "parseIPv4 s = Some bs \<longleftrightarrow> length bs = 4 \<and> s = dotted bs"
proof
  assume "parseIPv4 s = Some bs"
  then show "length bs = 4 \<and> s = dotted bs"
    unfolding parseIPv4_def
    by (drule_tac parse_v4_sound) (auto simp: scan_ok_def fields_text_def)
next
  assume "length bs = 4 \<and> s = dotted bs"
  then obtain a b c d where "bs = [a, b, c, d]" "s = dotted bs"
    by (metis four_bytes)
  then show "parseIPv4 s = Some bs"
    by (simp add: parseIPv4_def parse_v4_field parse_v4_last)
qed

lemma first_of_dec: "first_of (dec n @ CHR ''.'' # cs) = Some (CHR ''.'')"
proof -
  have dig: "is_digit c" if "c \<in> set (dec n)" for c
    using that by (induction n rule: dec.induct) (subst (asm) (2) dec.simps, auto split: if_splits)
  have "first_of (xs @ CHR ''.'' # cs) = Some (CHR ''.'')" if "\<forall>c \<in> set xs. is_digit c" for xs
    using that by (induction xs) (auto simp: is_digit_def)
  then show ?thesis using dig by blast
qed

lemma ParseIP_dotted: "length bs = 4 \<Longrightarrow> ParseIP (dotted bs) = Some (v4InV6Prefix @ bs)"
proof -
  assume "length bs = 4"
  then have "parseIPv4 (dotted bs) = Some bs" by (simp add: parseIPv4_iff)
  moreover have "first_of (dotted bs) = Some (CHR ''.'')"
    using \<open>length bs = 4\<close> by (elim four_bytes) (simp add: first_of_dec)
  ultimately show ?thesis by (simp add: ParseIP_def)
qed

lemma ParseIPv4_dotted: "length bs = 4 \<Longrightarrow> ParseIPv4 (dotted bs) = Some bs"
  by (simp add: ParseIPv4_def ParseIP_dotted To4_def v4InV6Prefix_def)

lemma ParseIPv4_length: "ParseIPv4 s = Some bs \<Longrightarrow> length bs = 4"
  by (auto simp: ParseIPv4_def dest: To4_length split: option.splits)

section \<open>Hardware addresses\<close>

fun mac_text :: "char \<Rightarrow> bytes \<Rightarrow> string" where
  "mac_text e [] = []"
| "mac_text e [b] = hex2 b"
| "mac_text e (b # bs) = hex2 b @ e # mac_text e bs"

lemma ascii_lower_hexdigit_iff: "hexval c = Some d \<longleftrightarrow> d < 16 \<and> ascii_lower c = hexdigit d"
proof -
  have "code_of c < 256" by (rule nat_of_char_less_256)
  moreover have "ascii_lower c = hexdigit d \<longleftrightarrow> code_of (ascii_lower c) = code_of (hexdigit d)"
    by simp
  ultimately show ?thesis
    by (auto simp: hexval_def Let_def ascii_lower_def hexdigit_def of_char_of split: if_splits)
qed

lemma lower_hexdigit: "d < 16 \<Longrightarrow> ascii_lower c = hexdigit d \<longleftrightarrow> hexval c = Some d"
  by (simp add: ascii_lower_hexdigit_iff)

lemma nibbles_iff:
  assumes "i < 16" and "j < 16"
  shows "of_nat (16 * i + j) = b \<longleftrightarrow> i = unat b div 16 \<and> j = unat (b :: byte) mod 16"
proof -
  have "16 * i + j \<le> 255" using assms by linarith
  then have "of_nat (16 * i + j) = b \<longleftrightarrow> 16 * i + j = unat b"
    by (simp add: word_unat_eq_iff unat_byte del: of_nat_add of_nat_mult)
  also have "\<dots> \<longleftrightarrow> i = unat b div 16 \<and> j = unat b mod 16"
  proof
    assume eq: "16 * i + j = unat b"
    show "i = unat b div 16 \<and> j = unat b mod 16"
      unfolding eq [symmetric] using assms by simp
  qed simp
  finally show ?thesis .
qed

lemma xtoi2_iff:
  "xtoi2 (x # y # s) e = Some b \<longleftrightarrow> (s = [] \<or> hd s = e) \<and> map ascii_lower [x, y] = hex2 b"
  by (cases s)
    (auto simp: xtoi2_def hex2_def lower_hexdigit byte_nibbles nibbles_iff hexval_less
      simp del: of_nat_add of_nat_mult split: option.splits if_splits)

lemma hex2_Cons: "hex2 b = [hexdigit (unat b div 16), hexdigit (unat b mod 16)]"
  by (simp add: hex2_def)

text \<open>A separator: no character but itself is its lower case.\<close>

definition is_sep :: "char \<Rightarrow> bool" where
  "is_sep e \<longleftrightarrow> e = CHR '':'' \<or> e = CHR ''-''"

lemma lower_sep: "is_sep e \<Longrightarrow> ascii_lower c = e \<longleftrightarrow> c = e"
proof -
  assume "is_sep e"
  moreover have "code_of c < 256" by simp
  moreover have "ascii_lower c = e \<longleftrightarrow> code_of (ascii_lower c) = code_of e" by simp
  moreover have "c = e \<longleftrightarrow> code_of c = code_of e" by simp
  ultimately show ?thesis
    by (auto simp: is_sep_def ascii_lower_def of_char_of simp del: of_char_eq_iff)
qed

lemma mac_bytes_iff:
  assumes "is_sep e"
  shows "length s + 1 = 3 * n \<Longrightarrow> mac_bytes e n s = Some bs \<longleftrightarrow> length bs = n \<and> map ascii_lower s = mac_text e bs"
proof (induction n arbitrary: s bs)
  case (Suc n)
  then obtain x y s1 where s: "s = x # y # s1"
    by (cases s; cases "tl s") auto
  show ?case
  proof (cases n)
    case 0
    then have "s1 = []" using Suc.prems s by simp
    then have "mac_bytes e (Suc n) s = Some bs \<longleftrightarrow> (\<exists>b. bs = [b] \<and> xtoi2 [x, y] e = Some b)"
      using 0 s by (auto split: option.split)
    then show ?thesis
      using 0 s \<open>s1 = []\<close> by (cases bs; cases "tl bs") (auto simp: xtoi2_iff)
  next
    case (Suc m)
    then obtain c s2 where s1: "s1 = c # s2" "length s2 + 1 = 3 * n"
      using Suc.prems s by (cases s1) auto
    have "mac_bytes e (Suc n) s = Some bs \<longleftrightarrow> (\<exists>b bs'. bs = b # bs' \<and> xtoi2 s e = Some b \<and> mac_bytes e n s2 = Some bs')"
      using s s1(1) by (auto split: option.split)
    also have "\<dots> \<longleftrightarrow> (\<exists>b bs'. bs = b # bs' \<and> c = e \<and> map ascii_lower [x, y] = hex2 b \<and> length bs' = n \<and> map ascii_lower s2 = mac_text e bs')"
      using Suc.IH [OF s1(2)] by (auto simp: s s1(1) xtoi2_iff)
    also have "\<dots> \<longleftrightarrow> length bs = Suc n \<and> map ascii_lower s = mac_text e bs"
    proof (cases bs)
      case (Cons b bs')
      show ?thesis
      proof (cases bs')
        case (Cons b2 bs2)
        then show ?thesis
          using \<open>bs = b # bs'\<close> lower_sep [OF assms, of c] by (auto simp: s s1(1) hex2_Cons)
      qed (use \<open>bs = b # bs'\<close> Suc in simp)
    qed simp
    finally show ?thesis .
  qed
qed simp

text \<open>A dotted address has no other separators.\<close>

lemma mac_words_chars:
  "mac_words e n s = Some bs \<Longrightarrow> length s + 1 = 5 * n \<Longrightarrow> \<forall>c \<in> set s. c = e \<or> hexval c \<noteq> None"
proof (induction e n s arbitrary: bs rule: mac_words.induct)
  case (2 e n s)
  then obtain p q r t u where s: "s = p # q # r # t # u"
    by (cases s; cases "tl s"; cases "tl (tl s)"; cases "tl (tl (tl s))") auto
  obtain a b bs' where ab: "xtoi2 (take 2 s) (CHR 0x00) = Some a" "xtoi2 (drop 2 s) e = Some b"
    and rest: "mac_words e n (drop 5 s) = Some bs'"
    using "2.prems"(1) by (auto split: option.splits)
  have hex: "hexval c \<noteq> None" if "c \<in> {p, q, r, t}" for c
    using ab s that by (auto simp: xtoi2_def split: option.splits if_splits)
  have "\<forall>c \<in> set u. c = e \<or> hexval c \<noteq> None"
  proof (cases u)
    case (Cons d u')
    then have "d = e"
      using ab(2) s by (auto simp: xtoi2_def split: if_splits)
    moreover have "\<forall>c \<in> set u'. c = e \<or> hexval c \<noteq> None"
    proof (cases n)
      case (Suc m)
      then show ?thesis
        using "2.IH" [OF refl ab(1) ab(2) rest] "2.prems"(2) s Cons by simp
    qed (use "2.prems"(2) s Cons in simp)
    ultimately show ?thesis using Cons by simp
  qed simp
  then show ?case using hex s by auto
qed simp

lemma hexdigit_not_sep: "d < 16 \<Longrightarrow> is_sep e \<Longrightarrow> hexdigit d \<noteq> e"
  using hexval_hexdigit [of d] by (auto simp: is_sep_def hexval_def Let_def)

lemma count_mac_text:
  assumes "is_sep e" and "is_sep e'"
  shows "count_list (mac_text e bs) e' = (if e = e' then length bs - 1 else 0)"
  using hexdigit_not_sep [OF _ assms(2)]
  by (induction e bs rule: mac_text.induct) (auto simp: hex2_Cons byte_nibbles)

lemma count_list_map_lower: "is_sep e \<Longrightarrow> count_list (map ascii_lower s) e = count_list s e"
  by (induction s) (auto simp: lower_sep)

lemma length_mac_text: "bs \<noteq> [] \<Longrightarrow> length (mac_text e bs) + 1 = 3 * length bs"
  by (induction e bs rule: mac_text.induct) (auto simp: hex2_Cons)

lemma mac_text_third: "length bs = 6 \<Longrightarrow> mac_text e bs ! 2 = e"
  by (cases bs; cases "tl bs") (auto simp: hex2_Cons)

text \<open>The six-byte addresses that are written with five separators.\<close>

lemma ParseMAC_six:
  "(count_list s (CHR '':'') = 5 \<or> count_list s (CHR ''-'') = 5) \<and> ParseMAC s = Some bs \<and> length bs = 6
   \<longleftrightarrow> length bs = 6 \<and> (\<exists>e. is_sep e \<and> map ascii_lower s = mac_text e bs)"
proof
  assume A: "(count_list s (CHR '':'') = 5 \<or> count_list s (CHR ''-'') = 5) \<and> ParseMAC s = Some bs \<and> length bs = 6"
  have words: "length bs = n + n" if "mac_words e n s = Some bs" for e n and s :: string and bs
    using that by (induction e n s arbitrary: bs rule: mac_words.induct) (auto split: option.splits)
  have bytes: "length bs = n" if "mac_bytes e n s = Some bs" for e n and s :: string and bs
    using that by (induction e n s arbitrary: bs rule: mac_bytes.induct) (auto split: option.splits)
  show "length bs = 6 \<and> (\<exists>e. is_sep e \<and> map ascii_lower s = mac_text e bs)"
  proof (cases "s ! 2 = CHR '':'' \<or> s ! 2 = CHR ''-''")
    case True
    let ?n = "(length s + 1) div 3"
    have "(length s + 1) mod 3 = 0" "mac_bytes (s ! 2) ?n s = Some bs"
      using A True by (auto simp: ParseMAC_def Let_def split: if_splits)
    then have "length s + 1 = 3 * ?n" "mac_bytes (s ! 2) ?n s = Some bs"
      by (simp_all add: mult_div_mod_eq mod_0_imp_dvd)
    then show ?thesis
      using A True mac_bytes_iff [of "s ! 2" s ?n bs] by (auto simp: is_sep_def)
  next
    case False
    let ?n = "2 * (length s + 1) div 5 div 2"
    have m: "s ! 4 = CHR ''.''" "(length s + 1) mod 5 = 0" "mac_words (CHR ''.'') ?n s = Some bs"
      using A False by (auto simp: ParseMAC_def Let_def split: if_splits)
    then have "?n = 3" using words [OF m(3)] A by simp
    moreover obtain k where k: "length s + 1 = 5 * k" using m(2) by (auto simp: dvd_def mod_eq_0_iff_dvd)
    ultimately have "length s + 1 = 5 * ?n" by simp
    note chars = bspec [OF mac_words_chars [OF m(3) this]]
    have "hexval (CHR '':'') = None" "hexval (CHR ''-'') = None"
      by (simp_all add: hexval_def Let_def)
    then have "CHR '':'' \<notin> set s" "CHR ''-'' \<notin> set s"
      using chars [of "CHR '':''"] chars [of "CHR ''-''"] by auto
    then have "count_list s (CHR '':'') = 0" "count_list s (CHR ''-'') = 0"
      by (simp_all add: count_list_0_iff)
    then show ?thesis using A by simp
  qed
next
  assume A: "length bs = 6 \<and> (\<exists>e. is_sep e \<and> map ascii_lower s = mac_text e bs)"
  then obtain e where e: "is_sep e" "map ascii_lower s = mac_text e bs" by blast
  have "bs \<noteq> []" using A by auto
  have len: "length s + 1 = 3 * 6"
    using length_mac_text [OF \<open>bs \<noteq> []\<close>, of e] A arg_cong [OF e(2), of length] by simp
  have "count_list s e = 5"
    using count_list_map_lower [OF e(1), of s] count_mac_text [OF e(1) e(1), of bs] e(2) A by simp
  moreover have third: "s ! 2 = e"
    using mac_text_third [of bs e] A lower_sep [OF e(1), of "s ! 2"] len e(2) nth_map [of 2 s ascii_lower] by simp
  moreover have "mac_bytes e 6 s = Some bs"
    using mac_bytes_iff [OF e(1) len] e(2) A by simp
  ultimately show "(count_list s (CHR '':'') = 5 \<or> count_list s (CHR ''-'') = 5) \<and> ParseMAC s = Some bs \<and> length bs = 6"
    using A len e(1) unfolding is_sep_def by (elim disjE) (simp_all add: ParseMAC_def Let_def)
qed

end
