(* ===== verification/Config.thy ===== *)
theory Config
  imports GoNet World
begin

text \<open>
  \<open>internal/config/config.go\<close>: from the text of the configuration file and the interfaces of the
  system to a validated \<open>Config\<close>. The TOML decoder is a parameter, as are the host name, the
  interfaces, and the Unicode tables of \<open>strings.ToLower\<close>; everything else is translated.
\<close>

unbundle bit_operations_syntax

section \<open>Values of the file\<close>

text \<open>
  What the decoder stores under a key, by the dynamic type of the \<open>any\<close>; the map is an association
  list. \<open>int\<close> is 64 bits wide on the target.
\<close>

datatype toml_value = TString string | TInt "64 word" | TBool bool | TOther

type_synonym toml_values = "(string \<times> toml_value) list"

definition go_int :: "64 word \<Rightarrow> 64 word" where
  "go_int n = scast n"

definition allowed_keys :: "string list" where
  "allowed_keys =
     [''username'', ''password'', ''ip'', ''mac'', ''adapter_hint'', ''host_name'', ''os_info'', ''server_ip'',
      ''server_port'', ''bind_ip'', ''bind_port'', ''primary_dns'', ''dhcp_server'', ''auth_version'',
      ''keepalive_version'', ''first_heartbeat_version'', ''extra_heartbeat_version'', ''debug_hex_dump'',
      ''receive_timeout_ms'', ''retry_count'', ''heartbeat_interval_seconds'']"

definition byte_order_mark :: string where
  "byte_order_mark = [CHR 0xEF, CHR 0xBB, CHR 0xBF]"

definition parseTOML :: "(string \<Rightarrow> toml_values option) \<Rightarrow> string \<Rightarrow> err + toml_values" where
  "parseTOML decode data =
     (case decode (TrimPrefix data byte_order_mark) of
        None \<Rightarrow> Inl (Errorf ''invalid TOML syntax; check quoting, types and duplicate keys'')
      | Some values \<Rightarrow>
          if list_all (\<lambda>(key, _). key \<in> set allowed_keys) values then Inr values
          else Inl (Errorf ''unknown configuration key (compare config.example.toml)''))"

definition requiredString :: "toml_values \<Rightarrow> string \<Rightarrow> err + string" where
  "requiredString values key =
     (case map_of values key of
        None \<Rightarrow> Inl (Errorf (''missing required config key '' @ key))
      | Some (TString value) \<Rightarrow> Inr value
      | Some _ \<Rightarrow> Inl (Errorf (key @ '' must be a quoted string'')))"

text \<open>\<open>strings.EqualFold(strings.TrimSpace(value), "auto")\<close>.\<close>

definition says_auto :: "string \<Rightarrow> bool" where
  "says_auto value = EqualFold (TrimSpace value) ''auto''"

definition optionalString :: "toml_values \<Rightarrow> string \<Rightarrow> string \<Rightarrow> err + string" where
  "optionalString values key fallback =
     (if map_of values key = None then Inr fallback
      else bindS (requiredString values key) (\<lambda>value.
        if says_auto value then Inr fallback else Inr value))"

definition requiredInt :: "toml_values \<Rightarrow> string \<Rightarrow> err + int" where
  "requiredInt values key =
     (case map_of values key of
        None \<Rightarrow> Inl (Errorf (''missing required config key '' @ key))
      | Some (TInt n) \<Rightarrow>
          if scast (go_int n) \<noteq> n then Inl (Errorf (key @ '' must be an integer in range''))
          else Inr (sint (go_int n))
      | Some _ \<Rightarrow> Inl (Errorf (key @ '' must be an integer in range'')))"

definition optionalInt :: "toml_values \<Rightarrow> string \<Rightarrow> int \<Rightarrow> err + int" where
  "optionalInt values key fallback =
     (if map_of values key = None then Inr fallback else requiredInt values key)"

definition requiredBool :: "toml_values \<Rightarrow> string \<Rightarrow> err + bool" where
  "requiredBool values key =
     (case map_of values key of
        None \<Rightarrow> Inl (Errorf (''missing required config key '' @ key))
      | Some (TBool b) \<Rightarrow> Inr b
      | Some _ \<Rightarrow> Inl (Errorf (key @ '' must be true or false'')))"

definition optionalBool :: "toml_values \<Rightarrow> string \<Rightarrow> bool \<Rightarrow> err + bool" where
  "optionalBool values key fallback =
     (if map_of values key = None then Inr fallback else requiredBool values key)"

definition requiredIPv4 :: "toml_values \<Rightarrow> string \<Rightarrow> err + 4 arr" where
  "requiredIPv4 values key =
     bindS (requiredString values key) (\<lambda>raw.
     case ParseIPv4 raw of
       None \<Rightarrow> Inl (Errorf (key @ '' must be an IPv4 address''))
     | Some ip \<Rightarrow> Inr (arr_of ip))"

definition optionalIPv4 :: "toml_values \<Rightarrow> string \<Rightarrow> 4 arr \<Rightarrow> err + 4 arr" where
  "optionalIPv4 values key fallback =
     (let auto =
        (if fallback = arr_of [] \<and> key = ''ip''
         then Inl (Errorf (key @ '' is auto but no usable adapter was detected'')) else Inr fallback)
      in if map_of values key = None then auto
      else bindS (requiredString values key) (\<lambda>raw.
        if says_auto raw then auto
        else case ParseIPv4 raw of
          None \<Rightarrow> Inl (Errorf (key @ '' must be an IPv4 address or auto''))
        | Some ip \<Rightarrow> Inr (arr_of ip)))"

definition parseMAC :: "string \<Rightarrow> string \<Rightarrow> err + 6 arr" where
  "parseMAC key raw =
     (if \<not> (count_list raw (CHR '':'') = 5 \<or> count_list raw (CHR ''-'') = 5)
      then Inl (Errorf (key @ '' must use 00:11:22:33:44:55, 00-11-22-33-44-55, or auto''))
      else case ParseMAC raw of
        None \<Rightarrow> Inl (Errorf (key @ '' must be a 6-byte MAC address''))
      | Some mac \<Rightarrow>
          if length mac \<noteq> 6 then Inl (Errorf (key @ '' must be a 6-byte MAC address''))
          else Inr (arr_of mac))"

definition requiredMAC :: "toml_values \<Rightarrow> string \<Rightarrow> err + 6 arr" where
  "requiredMAC values key = bindS (requiredString values key) (\<lambda>raw. parseMAC key raw)"

definition optionalMAC :: "toml_values \<Rightarrow> string \<Rightarrow> 6 arr \<Rightarrow> err + 6 arr" where
  "optionalMAC values key fallback =
     (let auto =
        (if fallback = arr_of []
         then Inl (Errorf (key @ '' is auto but no usable adapter was detected'')) else Inr fallback)
      in if map_of values key = None then auto
      else bindS (requiredString values key) (\<lambda>raw. if says_auto raw then auto else parseMAC key raw))"

definition requiredHex2 :: "toml_values \<Rightarrow> string \<Rightarrow> err + 2 arr" where
  "requiredHex2 values key =
     bindS (requiredString values key) (\<lambda>raw.
     if length raw \<noteq> 4 then Inl (Errorf (key @ '' must be exactly 4 hex chars''))
     else case hex_decode raw of
       None \<Rightarrow> Inl (Wrapf (key @ '' must be hex'') (Errorf ''encoding/hex: invalid byte''))
     | Some decoded \<Rightarrow> Inr (arr_of decoded))"

definition optionalHex2 :: "toml_values \<Rightarrow> string \<Rightarrow> 2 arr \<Rightarrow> err + 2 arr" where
  "optionalHex2 values key fallback =
     (if map_of values key = None then Inr fallback else requiredHex2 values key)"

definition isAutoValue :: "toml_values \<Rightarrow> string \<Rightarrow> bool" where
  "isAutoValue values key =
     (if map_of values key = None then key = ''ip'' \<or> key = ''mac''
      else case requiredString values key of
        Inl _ \<Rightarrow> False
      | Inr value \<Rightarrow> says_auto value)"

section \<open>Choosing the adapter\<close>

record networkCandidate =
  CName :: string
  CFlags :: "64 word"
  CIP :: "4 arr"
  CMAC :: "6 arr"

text \<open>A nil IP is \<open>None\<close>.\<close>

definition ipv4FromAddr :: "net_addr \<Rightarrow> bytes option" where
  "ipv4FromAddr addr =
     (case addr of IPNet ip \<Rightarrow> To4 ip | IPAddr ip \<Rightarrow> To4 ip | OtherAddr \<Rightarrow> None)"

definition usableIPv4 :: "bytes option \<Rightarrow> bool" where
  "usableIPv4 ip =
     (case ip of
        None \<Rightarrow> False
      | Some ip \<Rightarrow>
          if IsLoopback ip \<or> IsUnspecified ip \<or> IsMulticast ip then False
          else \<not> (ip ! 0 = 169 \<and> ip ! 1 = 254))"

definition virtualWords :: "string list" where
  "virtualWords =
     [''virtual'', ''vethernet'', ''hyper-v'', ''vmware'', ''virtualbox'', ''wsl'', ''docker'', ''bluetooth'',
      ''tailscale'', ''zerotier'', ''npcap'', ''loopback'', ''mihomo'', ''clash'', ''wintun'', ''wireguard'']"

definition looksVirtualAdapter :: "string \<Rightarrow> bool" where
  "looksVirtualAdapter name = list_ex (\<lambda>word. Contains name word) virtualWords"

definition isZeroMAC :: "6 arr \<Rightarrow> bool" where
  "isZeroMAC mac \<longleftrightarrow> mac = arr_of []"

text \<open>The loop body of \<open>selectAutoNetwork\<close>: \<open>best\<close>, \<open>bestScore\<close> and \<open>ambiguous\<close>.\<close>

definition keep_best ::
    "networkCandidate \<Rightarrow> int \<Rightarrow> networkCandidate \<times> int \<times> bool \<Rightarrow> networkCandidate \<times> int \<times> bool" where
  "keep_best c score st =
     (case st of (best, bestScore, ambiguous) \<Rightarrow>
        if score > bestScore then (c, score, False)
        else if score = bestScore \<and> (CName best \<noteq> CName c \<or> CIP best \<noteq> CIP c) then (best, bestScore, True)
        else st)"

definition select_step ::
    "(string \<Rightarrow> string) \<Rightarrow> string \<Rightarrow> networkCandidate \<Rightarrow>
      networkCandidate \<times> int \<times> bool \<Rightarrow> networkCandidate \<times> int \<times> bool" where
  "select_step uni hint c st =
     (if CFlags c AND FlagUp = 0 \<or> CFlags c AND FlagLoopback \<noteq> 0 then st
      else if isZeroMAC (CMAC c) then st
      else
        let name = ToLower uni (CName c) in
        if hint = [] \<and> looksVirtualAdapter name then st
        else
          let score = 10;
              score = (if \<not> looksVirtualAdapter name then score + 100 else score)
          in if hint \<noteq> [] then
               (if name = hint then keep_best c (score + 1000) st
                else if Contains name hint then keep_best c (score + 500) st
                else st)
             else keep_best c score st)"

definition no_candidate :: networkCandidate where
  "no_candidate = \<lparr>CName = [], CFlags = 0, CIP = arr_of [], CMAC = arr_of []\<rparr>"

definition selectAutoNetwork :: "(string \<Rightarrow> string) \<Rightarrow> networkCandidate list \<Rightarrow> string \<Rightarrow> err + NetworkInfo" where
  "selectAutoNetwork uni candidates adapterHint =
     (let hint = ToLower uni (TrimSpace adapterHint) in
      case fold (select_step uni hint) candidates (no_candidate, -1, False) of
        (best, bestScore, ambiguous) \<Rightarrow>
          if bestScore < 0 then
            (if hint \<noteq> []
             then Inl (Errorf (''auto network detection found no usable IPv4 adapter matching '' @ adapterHint))
             else Inl (Errorf ''auto network detection found no usable IPv4 adapter''))
          else if ambiguous then Inl ErrAmbiguousNetwork
          else Inr \<lparr>InterfaceName = CName best, NIP = CIP best, NMAC = CMAC best\<rparr>)"

text \<open>The candidates of one interface, one per usable address.\<close>

definition addr_candidate :: "net_iface \<Rightarrow> net_addr \<Rightarrow> networkCandidate list" where
  "addr_candidate iface addr =
     (let ip = ipv4FromAddr addr in
      if ip = None \<or> \<not> usableIPv4 ip then []
      else if length (ifHardwareAddr iface) < 6 then []
      else [\<lparr>CName = ifName iface, CFlags = ifFlags iface, CIP = arr_of (the ip), CMAC = arr_of (ifHardwareAddr iface)\<rparr>])"

definition iface_candidates :: "net_iface \<Rightarrow> networkCandidate list" where
  "iface_candidates iface =
     (case ifAddrs iface of
        Inl _ \<Rightarrow> []
      | Inr addrs \<Rightarrow> concat (map (addr_candidate iface) addrs))"

definition AutoDetectNetwork :: "(string \<Rightarrow> string) \<Rightarrow> err + net_iface list \<Rightarrow> string \<Rightarrow> err + NetworkInfo" where
  "AutoDetectNetwork uni interfaces adapterHint =
     bindS interfaces (\<lambda>ifaces. selectAutoNetwork uni (concat (map iface_candidates ifaces)) adapterHint)"

section \<open>Validation\<close>

text \<open>\<open>None\<close> is nil.\<close>

definition Validate :: "config \<Rightarrow> err option" where
  "Validate c =
     (if length (Username c) = 0 \<or> length (Username c) > 36
      then Some (Errorf ''username length must be 1..36 bytes'')
      else if length (Password c) = 0 \<or> length (Password c) > 255
      then Some (Errorf ''password length must be 1..255 bytes'')
      else if length (HostName c) > 32
      then Some (Errorf ''host_name length must be <= 32 bytes'')
      else if length (OSInfo c) > 54
      then Some (Errorf ''os_info length must be <= 54 bytes'')
      else if ServerPort c \<le> 0 \<or> ServerPort c > 65535
      then Some (Errorf ''server_port must be 1..65535'')
      else if BindPort c \<le> 0 \<or> BindPort c > 65535
      then Some (Errorf ''bind_port must be 1..65535'')
      else if ReceiveTimeoutMillis c < 100 \<or> ReceiveTimeoutMillis c > 30000
      then Some (Errorf ''receive_timeout_ms must be 100..30000'')
      else if RetryCount c < 0 \<or> RetryCount c > 10
      then Some (Errorf ''retry_count must be 0..10'')
      else if HeartbeatIntervalSecs c < 1 \<or> HeartbeatIntervalSecs c > 300
      then Some (Errorf ''heartbeat_interval_seconds must be 1..300'')
      else if \<not> usableIPv4 (Some (ipv4ToNetIP (IP c))) \<or> isZeroMAC (MAC c)
      then Some (Errorf ''ip/mac must identify a usable adapter'')
      else if BindIP c \<noteq> IP c
      then Some (Errorf ''bind_ip must equal the authentication ip (or auto)'')
      else None)"

section \<open>Parse\<close>

text \<open>\<open>os.Hostname()\<close> and \<open>runtime.GOOS\<close> are parameters.\<close>

definition defaultHostName :: "err + string \<Rightarrow> string" where
  "defaultHostName hostname =
     (case hostname of
        Inl _ \<Rightarrow> ''windows-pc''
      | Inr host \<Rightarrow>
          if TrimSpace host = [] then ''windows-pc''
          else let host = TrimSpace host in if length host > 32 then take 32 host else host)"

definition defaultOSInfo :: "string \<Rightarrow> string" where
  "defaultOSInfo goos = (if goos = ''windows'' then ''Windows'' else goos)"

type_synonym detector = "string \<Rightarrow> err + NetworkInfo"

definition zero_network :: NetworkInfo where
  "zero_network = \<lparr>InterfaceName = [], NIP = arr_of [], NMAC = arr_of []\<rparr>"

text \<open>The identity and the network, up to the check that both belong to one adapter.\<close>

definition parse_network :: "detector \<Rightarrow> toml_values \<Rightarrow> string \<Rightarrow> err + NetworkInfo \<times> 4 arr \<times> 6 arr" where
  "parse_network detect values hint =
     (let needAutoNetwork = isAutoValue values ''ip'' \<or> isAutoValue values ''mac'' in
      bindS (if needAutoNetwork then
               (case detect hint of
                  Inl e \<Rightarrow>
                    if errors_Is e ErrAmbiguousNetwork then Inl e
                    else Inl (Wrapf ''campus adapter is not ready'' ErrNetworkUnavailable)
                | Inr n \<Rightarrow> Inr n)
             else Inr zero_network) (\<lambda>auto.
      bindS (optionalIPv4 values ''ip'' (NIP auto)) (\<lambda>ip.
      bindS (optionalMAC values ''mac'' (NMAC auto)) (\<lambda>mac.
      if needAutoNetwork \<and> (ip \<noteq> NIP auto \<or> mac \<noteq> NMAC auto)
      then Inl (Errorf ''ip and mac must belong to the same adapter; use both auto with adapter_hint, or set both explicitly'')
      else Inr (auto, ip, mac)))))"

text \<open>The remaining keys, into the record; the durations are still zero.\<close>

definition parse_fields ::
    "err + string \<Rightarrow> string \<Rightarrow> toml_values \<Rightarrow> string \<Rightarrow> string \<Rightarrow> string
      \<Rightarrow> NetworkInfo \<times> 4 arr \<times> 6 arr \<Rightarrow> err + config" where
  "parse_fields hostname goos values username password hint network =
     (case network of (auto, ip, mac) \<Rightarrow>
      bindS (optionalString values ''host_name'' (defaultHostName hostname)) (\<lambda>host.
      bindS (optionalString values ''os_info'' (defaultOSInfo goos)) (\<lambda>osinfo.
      bindS (optionalIPv4 values ''server_ip'' (arr_of [10, 100, 61, 3])) (\<lambda>serverIP.
      bindS (optionalIPv4 values ''bind_ip'' ip) (\<lambda>bindIP.
      bindS (optionalIPv4 values ''primary_dns'' (arr_of [10, 10, 10, 10])) (\<lambda>dns.
      bindS (optionalIPv4 values ''dhcp_server'' (arr_of [0, 0, 0, 0])) (\<lambda>dhcp.
      bindS (optionalHex2 values ''auth_version'' (arr_of [0x68, 0x00])) (\<lambda>av.
      bindS (optionalHex2 values ''keepalive_version'' (arr_of [0xdc, 0x02])) (\<lambda>kv.
      bindS (optionalHex2 values ''first_heartbeat_version'' (arr_of [0x0f, 0x27])) (\<lambda>fv.
      bindS (optionalHex2 values ''extra_heartbeat_version'' (arr_of [0xdb, 0x02])) (\<lambda>ev.
      bindS (optionalInt values ''server_port'' 61440) (\<lambda>serverPort.
      bindS (optionalInt values ''bind_port'' 61440) (\<lambda>bindPort.
      bindS (optionalInt values ''receive_timeout_ms'' 2000) (\<lambda>millis.
      bindS (optionalInt values ''retry_count'' 3) (\<lambda>retries.
      bindS (optionalInt values ''heartbeat_interval_seconds'' 20) (\<lambda>secs.
      bindS (optionalBool values ''debug_hex_dump'' False) (\<lambda>dump.
      Inr \<lparr>Username = username, Password = password, IP = ip, MAC = mac, HostName = host, OSInfo = osinfo,
           ServerIP = serverIP, ServerPort = serverPort, BindIP = bindIP, BindPort = bindPort,
           AuthVersion = av, KeepAliveVersion = kv, FirstHeartbeatVersion = fv, ExtraHeartbeatVersion = ev,
           PrimaryDNS = dns, DHCPServer = dhcp, DebugHexDump = dump, ReceiveTimeout = 0, RetryCount = retries,
           HeartbeatInterval = 0, ReceiveTimeoutMillis = millis, HeartbeatIntervalSecs = secs,
           AdapterHint = hint, AutoNetwork = auto\<rparr>)))))))))))))))))"

text \<open>\<open>time.Duration\<close> is a 64-bit signed integer; a product wraps.\<close>

definition duration :: "int \<Rightarrow> int \<Rightarrow> int" where
  "duration n unit = sint (word_of_int (n * unit) :: 64 word)"

text \<open>
  A configuration that is returned together with an error is not looked at by any caller; the model
  returns the error alone.
\<close>

definition ParseWithDetector ::
    "(string \<Rightarrow> toml_values option) \<Rightarrow> err + string \<Rightarrow> string \<Rightarrow> string \<Rightarrow> detector \<Rightarrow> err + config" where
  "ParseWithDetector decode hostname goos data detect =
     bindS (parseTOML decode data) (\<lambda>values.
     bindS (requiredString values ''username'') (\<lambda>username.
     bindS (requiredString values ''password'') (\<lambda>password.
     bindS (optionalString values ''adapter_hint'' '''') (\<lambda>hint.
     bindS (parse_network detect values hint) (\<lambda>network.
     bindS (parse_fields hostname goos values username password hint network) (\<lambda>cfg.
     case Validate cfg of
       Some e \<Rightarrow> Inl e
     | None \<Rightarrow>
         Inr (cfg\<lparr>ReceiveTimeout := duration (ReceiveTimeoutMillis cfg) millisecond,
                  HeartbeatInterval := duration (HeartbeatIntervalSecs cfg) second\<rparr>)))))))"

text \<open>What \<open>Parse\<close> and \<open>Load\<close> depend on: the decoder, the tables, and what the system answers.\<close>

record sys_env =
  tomlDecode :: "string \<Rightarrow> toml_values option"
  unicodeLower :: "string \<Rightarrow> string"
  osHostname :: "err + string"
  runtimeGOOS :: string
  netInterfaces :: "err + net_iface list"

definition Parse :: "sys_env \<Rightarrow> string \<Rightarrow> err + config" where
  "Parse env data =
     ParseWithDetector (tomlDecode env) (osHostname env) (runtimeGOOS env) data
       (AutoDetectNetwork (unicodeLower env) (netInterfaces env))"

definition Load :: "sys_env \<Rightarrow> err + string \<Rightarrow> err + config" where
  "Load env file = bindS file (\<lambda>data. Parse env data)"

section \<open>Addresses as text\<close>

definition ipv4String :: "4 arr \<Rightarrow> string" where
  "ipv4String v =
     (let b = arr_bytes v in
      dec (unat (b ! 0)) @ ''.'' @ dec (unat (b ! 1)) @ ''.'' @ dec (unat (b ! 2)) @ ''.'' @ dec (unat (b ! 3)))"

definition addr_string :: "4 arr \<Rightarrow> int \<Rightarrow> string" where
  "addr_string ip port =
     ipv4String ip @ '':'' @ (if port < 0 then ''-'' else []) @ dec (nat \<bar>port\<bar>)"

definition ServerAddrString :: "config \<Rightarrow> string" where
  "ServerAddrString c = addr_string (ServerIP c) (ServerPort c)"

definition BindAddrString :: "config \<Rightarrow> string" where
  "BindAddrString c = addr_string (BindIP c) (BindPort c)"

text \<open>A document and a system on which the whole pipeline runs.\<close>

definition sample_values :: toml_values where
  "sample_values =
     [(''username'', TString ''u''), (''password'', TString ''p''), (''ip'', TString ''10.1.2.3''),
      (''mac'', TString ''02:00:00:00:00:0A''), (''retry_count'', TInt 2)]"

definition sample_iface :: net_iface where
  "sample_iface = \<lparr>ifIndex = 3, ifName = ''Ethernet'', ifFlags = 1, ifHardwareAddr = [2, 0, 0, 0, 0, 10],
     ifAddrs = Inr [IPNet [10, 1, 2, 3]]\<rparr>"

definition sample_env :: sys_env where
  "sample_env = \<lparr>tomlDecode = (\<lambda>_. Some sample_values), unicodeLower = (\<lambda>s. s), osHostname = Inr ''pc'',
     runtimeGOOS = ''windows'', netInterfaces = Inr [sample_iface]\<rparr>"

section \<open>Facts: parsing\<close>

lemma duration_exact: "- (2 ^ 63) \<le> n * u \<Longrightarrow> n * u < 2 ^ 63 \<Longrightarrow> duration n u = n * u"
  by (simp add: duration_def sint_sbintrunc' signed_take_bit_int_eq_self_iff del: of_int_mult)

lemma ParseWithDetector_Inr:
  assumes "ParseWithDetector decode hostname goos data detect = Inr c"
  obtains vals username password hint network cfg where
    "parseTOML decode data = Inr vals" "requiredString vals ''username'' = Inr username"
    "requiredString vals ''password'' = Inr password" "optionalString vals ''adapter_hint'' '''' = Inr hint"
    "parse_network detect vals hint = Inr network"
    "parse_fields hostname goos vals username password hint network = Inr cfg" "Validate cfg = None"
    "c = cfg\<lparr>ReceiveTimeout := duration (ReceiveTimeoutMillis cfg) millisecond,
             HeartbeatInterval := duration (HeartbeatIntervalSecs cfg) second\<rparr>"
  using assms by (auto simp: ParseWithDetector_def bindS_Inr split: option.splits)

text \<open>What \<open>Validate\<close> promises.\<close>

definition valid_fields :: "config \<Rightarrow> bool" where
  "valid_fields c \<longleftrightarrow>
     1 \<le> length (Username c) \<and> length (Username c) \<le> 36 \<and> 1 \<le> length (Password c) \<and> length (Password c) \<le> 255
     \<and> length (HostName c) \<le> 32 \<and> length (OSInfo c) \<le> 54
     \<and> 1 \<le> ServerPort c \<and> ServerPort c \<le> 65535 \<and> 1 \<le> BindPort c \<and> BindPort c \<le> 65535
     \<and> 100 \<le> ReceiveTimeoutMillis c \<and> ReceiveTimeoutMillis c \<le> 30000
     \<and> 0 \<le> RetryCount c \<and> RetryCount c \<le> 10
     \<and> 1 \<le> HeartbeatIntervalSecs c \<and> HeartbeatIntervalSecs c \<le> 300
     \<and> usableIPv4 (Some (arr_bytes (IP c))) \<and> MAC c \<noteq> arr_of [] \<and> BindIP c = IP c"

lemma Validate_iff: "Validate c = None \<longleftrightarrow> valid_fields c"
  by (auto simp: Validate_def valid_fields_def isZeroMAC_def not_le not_less Suc_le_eq)

lemma parse_fields_projections:
  assumes "parse_fields hostname goos values username password hint (auto, ip, mac) = Inr cfg"
  shows "Username cfg = username" "Password cfg = password" "IP cfg = ip" "MAC cfg = mac" "AutoNetwork cfg = auto"
  using assms by (auto simp: parse_fields_def bindS_Inr)

text \<open>An error chain has one end.\<close>

lemma errors_Is_one_sentinel:
  "errors_Is e s \<Longrightarrow> errors_Is e t \<Longrightarrow> \<forall>x y. s \<noteq> Wrapf x y \<Longrightarrow> \<forall>x y. t \<noteq> Wrapf x y \<Longrightarrow> s = t"
  by (induction e) auto

lemma Validate_errorf: "Validate c = Some e \<Longrightarrow> \<exists>m. e = Errorf m"
  by (auto simp: Validate_def split: if_splits)

text \<open>Errors of the readers are plain messages.\<close>

definition plain_message :: "err \<Rightarrow> bool" where
  "plain_message e \<longleftrightarrow> (\<forall>t \<in> {ErrTimeout, Canceled, DeadlineExceeded, ErrRejected, ErrAuthenticationRejected,
     ErrNetworkUnavailable, ErrAmbiguousNetwork}. \<not> errors_Is e t)"

lemma plain_Errorf [simp]: "plain_message (Errorf m)"
  by (simp add: plain_message_def)

lemma plain_Wrapf [simp]: "plain_message (Wrapf s e) = plain_message e"
  by (simp add: plain_message_def)

named_theorems reader_plain \<open>readers of the configuration fail with plain messages\<close>

lemma parseTOML_plain [reader_plain]: "parseTOML decode data = Inl e \<Longrightarrow> plain_message e"
  by (auto simp: parseTOML_def split: option.splits if_splits)

lemma requiredString_plain [reader_plain]: "requiredString values key = Inl e \<Longrightarrow> plain_message e"
  by (auto simp: requiredString_def split: option.splits toml_value.splits)

lemma optionalString_plain [reader_plain]: "optionalString values key fb = Inl e \<Longrightarrow> plain_message e"
  by (auto simp: optionalString_def bindS_Inl split: if_splits dest: requiredString_plain)

lemma optionalInt_plain [reader_plain]: "optionalInt values key n = Inl e \<Longrightarrow> plain_message e"
  by (auto simp: optionalInt_def requiredInt_def split: option.splits toml_value.splits if_splits)

lemma optionalBool_plain [reader_plain]: "optionalBool values key b = Inl e \<Longrightarrow> plain_message e"
  by (auto simp: optionalBool_def requiredBool_def split: option.splits toml_value.splits if_splits)

lemma optionalIPv4_plain [reader_plain]: "optionalIPv4 values key fb4 = Inl e \<Longrightarrow> plain_message e"
  by (auto simp: optionalIPv4_def bindS_Inl Let_def split: if_splits option.splits dest: requiredString_plain)

lemma parseMAC_plain [reader_plain]: "parseMAC key raw = Inl e \<Longrightarrow> plain_message e"
  by (auto simp: parseMAC_def split: if_splits option.splits)

lemma optionalMAC_plain [reader_plain]: "optionalMAC values key fb6 = Inl e \<Longrightarrow> plain_message e"
  by (auto simp: optionalMAC_def bindS_Inl Let_def split: if_splits dest: requiredString_plain parseMAC_plain)

lemma optionalHex2_plain [reader_plain]: "optionalHex2 values key fb2 = Inl e \<Longrightarrow> plain_message e"
  by (auto simp: optionalHex2_def requiredHex2_def bindS_Inl split: if_splits option.splits dest: requiredString_plain)

lemma parse_fields_plain [reader_plain]:
  "parse_fields hostname goos values username password hint network = Inl e \<Longrightarrow> plain_message e"
  by (cases network) (auto simp: parse_fields_def bindS_Inl dest: reader_plain)

text \<open>So the sentinels among the errors of \<open>ParseWithDetector\<close> come from the detection.\<close>

definition needs_network :: "toml_values \<Rightarrow> bool" where
  "needs_network values \<longleftrightarrow> isAutoValue values ''ip'' \<or> isAutoValue values ''mac''"

definition detection_error :: "err \<Rightarrow> err" where
  "detection_error d =
     (if errors_Is d ErrAmbiguousNetwork then d else Wrapf ''campus adapter is not ready'' ErrNetworkUnavailable)"

lemma parse_network_Inl:
  assumes "parse_network detect values hint = Inl e"
  shows "plain_message e \<or> needs_network values \<and> (\<exists>d. detect hint = Inl d \<and> e = detection_error d)"
  using assms
  by (auto simp: parse_network_def needs_network_def detection_error_def bindS_Inl Let_def
      split: if_splits sum.splits dest: reader_plain)

text \<open>The hint with which the detection is called, if the readers before it succeed and it is needed.\<close>

definition detection_hint :: "(string \<Rightarrow> toml_values option) \<Rightarrow> string \<Rightarrow> string option" where
  "detection_hint decode data =
     (case parseTOML decode data of
        Inl _ \<Rightarrow> None
      | Inr values \<Rightarrow>
          if needs_network values then
            (case (requiredString values ''username'', requiredString values ''password'',
                   optionalString values ''adapter_hint'' '''') of
               (Inr _, Inr _, Inr hint) \<Rightarrow> Some hint | _ \<Rightarrow> None)
          else None)"

lemma ParseWithDetector_Inl:
  assumes "ParseWithDetector decode hostname goos data detect = Inl e"
  shows "plain_message e \<or> (\<exists>d hint. detection_hint decode data = Some hint \<and> detect hint = Inl d \<and> e = detection_error d)"
proof (rule ccontr)
  assume N: "\<not> ?thesis"
  then have p: "\<not> plain_message e" by blast
  obtain vals where v: "parseTOML decode data = Inr vals"
    using assms p by (cases "parseTOML decode data") (auto simp: ParseWithDetector_def dest: reader_plain)
  obtain u pw hint where h: "requiredString vals ''username'' = Inr u" "requiredString vals ''password'' = Inr pw"
    "optionalString vals ''adapter_hint'' '''' = Inr hint"
    using assms p v by (auto simp: ParseWithDetector_def bindS_Inl bindS_Inr dest: reader_plain)
  obtain network where n: "parse_network detect vals hint = Inr network"
    using assms N v h by (cases "parse_network detect vals hint")
      (auto simp: ParseWithDetector_def detection_hint_def dest: parse_network_Inl)
  obtain cfg where "parse_fields hostname goos vals u pw hint network = Inr cfg"
    using assms p v h n by (cases "parse_fields hostname goos vals u pw hint network")
      (auto simp: ParseWithDetector_def dest: reader_plain)
  then show False
    using assms p v h n by (auto simp: ParseWithDetector_def split: option.splits dest: Validate_errorf)
qed

lemma detection_fails:
  "detection_hint decode data = Some hint \<Longrightarrow> detect hint = Inl d \<Longrightarrow>
     ParseWithDetector decode hostname goos data detect = Inl (detection_error d)"
  by (auto simp: detection_hint_def ParseWithDetector_def parse_network_def needs_network_def detection_error_def
      split: sum.splits if_splits)

section \<open>Facts: choosing the adapter\<close>

text \<open>The elements with the highest score, in order; elements without a score do not take part.\<close>

definition best_of :: "('a \<Rightarrow> int option) \<Rightarrow> 'a list \<Rightarrow> 'a list" where
  "best_of sc cs = filter (\<lambda>c. case sc c of None \<Rightarrow> False
     | Some s \<Rightarrow> list_all (\<lambda>d. case sc d of None \<Rightarrow> True | Some s' \<Rightarrow> s' \<le> s) cs) cs"

lemma best_of_iff:
  "c \<in> set (best_of sc cs) \<longleftrightarrow> c \<in> set cs \<and> (\<exists>s. sc c = Some s \<and> (\<forall>d \<in> set cs. \<forall>s'. sc d = Some s' \<longrightarrow> s' \<le> s))"
  by (auto simp: best_of_def list_all_iff split: option.splits)

lemma best_of_empty: "best_of sc cs = [] \<longleftrightarrow> (\<forall>c \<in> set cs. sc c = None)"
proof
  assume E: "best_of sc cs = []"
  show "\<forall>c \<in> set cs. sc c = None"
  proof (rule ccontr)
    assume "\<not> ?thesis"
    then obtain c s where c: "c \<in> set cs" "sc c = Some s" by auto
    let ?S = "{s. \<exists>d \<in> set cs. sc d = Some s}"
    have fin: "finite ?S"
    proof (rule finite_subset)
      show "?S \<subseteq> (\<lambda>d. the (sc d)) ` set cs" by force
    qed simp
    have "Max ?S \<in> ?S" using fin c by (intro Max_in) auto
    then obtain d where "d \<in> set cs" "sc d = Some (Max ?S)" by blast
    moreover have "\<forall>d' \<in> set cs. \<forall>s'. sc d' = Some s' \<longrightarrow> s' \<le> Max ?S"
      using fin by (auto intro!: Max_ge)
    ultimately have "d \<in> set (best_of sc cs)" by (auto simp: best_of_iff)
    then show False using E by simp
  qed
qed (auto simp: best_of_def filter_empty_conv)

lemma best_of_snoc:
  "best_of sc (cs @ [c]) =
     (case sc c of
        None \<Rightarrow> best_of sc cs
      | Some s \<Rightarrow>
          (case best_of sc cs of
             [] \<Rightarrow> [c]
           | b # _ \<Rightarrow>
               if s > the (sc b) then [c] else if s = the (sc b) then best_of sc cs @ [c] else best_of sc cs))"
proof (cases "sc c")
  case None
  then show ?thesis
    by (auto simp: best_of_def split: option.split intro!: filter_cong)
next
  case (Some s)
  show ?thesis
  proof (cases "best_of sc cs")
    case Nil
    then have "\<forall>d \<in> set cs. sc d = None" by (simp add: best_of_empty)
    then show ?thesis
      using Some Nil by (auto simp: best_of_def filter_empty_conv list_all_iff)
  next
    case (Cons b bs)
    then have "b \<in> set (best_of sc cs)" by simp
    then obtain m where m: "b \<in> set cs" "sc b = Some m" "\<forall>d \<in> set cs. \<forall>s'. sc d = Some s' \<longrightarrow> s' \<le> m"
      by (auto simp: best_of_iff)
    have keep: "filter (\<lambda>d. case sc d of None \<Rightarrow> False
        | Some t \<Rightarrow> list_all (\<lambda>d. case sc d of None \<Rightarrow> True | Some s' \<Rightarrow> s' \<le> t) (cs @ [c])) cs
      = (if s > m then [] else best_of sc cs)"
    proof (cases "s > m")
      case True
      then show ?thesis
        using m Some by (fastforce simp: filter_empty_conv list_all_iff split: option.splits)
    next
      case False
      have "(case sc d of None \<Rightarrow> False
          | Some t \<Rightarrow> list_all (\<lambda>d. case sc d of None \<Rightarrow> True | Some s' \<Rightarrow> s' \<le> t) (cs @ [c]))
        = (case sc d of None \<Rightarrow> False
          | Some t \<Rightarrow> list_all (\<lambda>d. case sc d of None \<Rightarrow> True | Some s' \<Rightarrow> s' \<le> t) cs)" if "d \<in> set cs" for d
        using False m Some that by (fastforce simp: list_all_iff split: option.splits)
      then show ?thesis
        using False by (simp add: best_of_def cong: filter_cong)
    qed
    have self: "list_all (\<lambda>d. case sc d of None \<Rightarrow> True | Some s' \<Rightarrow> s' \<le> s) (cs @ [c]) \<longleftrightarrow> m \<le> s"
      using m Some by (fastforce simp: list_all_iff split: option.splits)
    show ?thesis
      using keep self m Some Cons unfolding best_of_def [of sc "cs @ [c]"] by simp
  qed
qed

text \<open>The score of a candidate under a hint; \<open>None\<close> for a candidate that is passed over.\<close>

definition candidate_score :: "(string \<Rightarrow> string) \<Rightarrow> string \<Rightarrow> networkCandidate \<Rightarrow> int option" where
  "candidate_score uni hint c =
     (let name = ToLower uni (CName c);
          real = (if looksVirtualAdapter name then 10 else 110)
      in if CFlags c AND FlagUp = 0 \<or> CFlags c AND FlagLoopback \<noteq> 0 \<or> isZeroMAC (CMAC c) then None
      else if hint = [] then (if looksVirtualAdapter name then None else Some real)
      else if name = hint then Some (real + 1000)
      else if Contains name hint then Some (real + 500)
      else None)"

lemma select_step_score:
  "select_step uni hint c st =
     (case candidate_score uni hint c of None \<Rightarrow> st | Some s \<Rightarrow> keep_best c s st)"
  by (simp add: select_step_def candidate_score_def Let_def)

lemma candidate_score_pos: "candidate_score uni hint c = Some s \<Longrightarrow> 0 < s"
  by (auto simp: candidate_score_def Let_def split: if_splits)

definition same_adapter :: "networkCandidate \<Rightarrow> networkCandidate \<Rightarrow> bool" where
  "same_adapter a b \<longleftrightarrow> CName b = CName a \<and> CIP b = CIP a"

lemma select_fold:
  "fold (select_step uni hint) cs (no_candidate, -1, False) =
     (case best_of (candidate_score uni hint) cs of
        [] \<Rightarrow> (no_candidate, -1, False)
      | b # bs \<Rightarrow> (b, the (candidate_score uni hint b), \<not> list_all (same_adapter b) bs))"
proof (induction cs rule: rev_induct)
  case Nil
  then show ?case by (simp add: best_of_def)
next
  case (snoc c cs)
  let ?sc = "candidate_score uni hint"
  show ?case
  proof (cases "?sc c")
    case None
    then show ?thesis using snoc by (simp add: best_of_snoc select_step_score)
  next
    case (Some s)
    show ?thesis
    proof (cases "best_of ?sc cs")
      case Nil
      then show ?thesis
        using snoc Some candidate_score_pos [OF Some] by (simp add: best_of_snoc select_step_score keep_best_def)
    next
      case (Cons b bs)
      then show ?thesis
        using snoc Some by (auto simp: best_of_snoc select_step_score keep_best_def same_adapter_def)
    qed
  qed
qed

definition selection_spec :: "(string \<Rightarrow> string) \<Rightarrow> networkCandidate list \<Rightarrow> string \<Rightarrow> NetworkInfo option option" where
  "selection_spec uni candidates adapterHint =
     (case best_of (candidate_score uni (ToLower uni (TrimSpace adapterHint))) candidates of
        [] \<Rightarrow> None
      | b # bs \<Rightarrow>
          if list_all (same_adapter b) bs
          then Some (Some \<lparr>InterfaceName = CName b, NIP = CIP b, NMAC = CMAC b\<rparr>) else Some None)"

lemma selectAutoNetwork_cases:
  "case selectAutoNetwork uni cs hint of
     Inr n \<Rightarrow> selection_spec uni cs hint = Some (Some n)
   | Inl e \<Rightarrow> if e = ErrAmbiguousNetwork then selection_spec uni cs hint = Some None
       else selection_spec uni cs hint = None \<and> plain_message e"
proof -
  let ?h = "ToLower uni (TrimSpace hint)"
  show ?thesis
  proof (cases "best_of (candidate_score uni ?h) cs")
    case Nil
    then show ?thesis
      by (cases "?h = []") (simp_all add: selectAutoNetwork_def selection_spec_def Let_def select_fold)
  next
    case (Cons b bs)
    then have "b \<in> set (best_of (candidate_score uni ?h) cs)" by simp
    then obtain s where "candidate_score uni ?h b = Some s" "0 < s"
      using candidate_score_pos by (auto simp: best_of_iff)
    then show ?thesis
      using Cons by (simp add: selectAutoNetwork_def selection_spec_def Let_def select_fold)
  qed
qed

section \<open>Facts: what a parsed configuration says\<close>

lemma parsed_valid:
  assumes "ParseWithDetector decode hostname goos data detect = Inr c"
  shows "valid_fields c" and "ReceiveTimeout c = ReceiveTimeoutMillis c * millisecond"
    and "HeartbeatInterval c = HeartbeatIntervalSecs c * second"
proof -
  obtain cfg where cfg: "Validate cfg = None" "c = cfg\<lparr>ReceiveTimeout := duration (ReceiveTimeoutMillis cfg) millisecond,
      HeartbeatInterval := duration (HeartbeatIntervalSecs cfg) second\<rparr>"
    using assms by (elim ParseWithDetector_Inr)
  then have v: "valid_fields cfg" by (simp add: Validate_iff)
  then show "valid_fields c" by (simp add: cfg(2) valid_fields_def)
  show "ReceiveTimeout c = ReceiveTimeoutMillis c * millisecond" "HeartbeatInterval c = HeartbeatIntervalSecs c * second"
    using v by (simp_all add: cfg(2) valid_fields_def duration_exact millisecond_def second_def)
qed

text \<open>An adapter that is up, is not a loopback, and has the address and the hardware address.\<close>

definition live_adapter :: "net_iface list \<Rightarrow> string \<Rightarrow> 4 arr \<Rightarrow> 6 arr \<Rightarrow> bool" where
  "live_adapter ifaces name ip mac \<longleftrightarrow>
     (\<exists>f \<in> set ifaces. ifName f = name \<and> ifFlags f AND FlagUp \<noteq> 0 \<and> ifFlags f AND FlagLoopback = 0
       \<and> mac = arr_of (ifHardwareAddr f) \<and> 6 \<le> length (ifHardwareAddr f)
       \<and> (\<exists>addrs. ifAddrs f = Inr addrs \<and> (\<exists>a \<in> set addrs. ipv4FromAddr a = Some (arr_bytes ip))))"

lemma ipv4FromAddr_length: "ipv4FromAddr a = Some ip \<Longrightarrow> length ip = 4"
  by (auto simp: ipv4FromAddr_def split: net_addr.splits dest: To4_length)

lemma candidate_live:
  assumes "c \<in> set (concat (map iface_candidates ifaces))" and "candidate_score uni hint c = Some s"
  shows "live_adapter ifaces (CName c) (CIP c) (CMAC c)"
proof -
  obtain f addrs a where f: "f \<in> set ifaces" "ifAddrs f = Inr addrs" "a \<in> set addrs" "c \<in> set (addr_candidate f a)"
    using assms(1) by (force simp: iface_candidates_def split: sum.splits)
  then obtain ip where ip: "ipv4FromAddr a = Some ip" "6 \<le> length (ifHardwareAddr f)"
    and c: "c = \<lparr>CName = ifName f, CFlags = ifFlags f, CIP = arr_of ip, CMAC = arr_of (ifHardwareAddr f)\<rparr>"
    by (auto simp: addr_candidate_def Let_def split: if_splits)
  have "ipv4FromAddr a = Some (arr_bytes (arr_of ip :: 4 arr))"
    using ip(1) ipv4FromAddr_length [OF ip(1)] by simp
  moreover have "ifFlags f AND FlagUp \<noteq> 0" "ifFlags f AND FlagLoopback = 0"
    using assms(2) c by (auto simp: candidate_score_def Let_def split: if_splits)
  ultimately show ?thesis
    unfolding live_adapter_def using f ip(2) c by (intro bexI [of _ f]) auto
qed

lemma AutoDetectNetwork_live:
  assumes "AutoDetectNetwork uni interfaces hint = Inr n"
  shows "\<exists>ifaces. interfaces = Inr ifaces \<and> live_adapter ifaces (InterfaceName n) (NIP n) (NMAC n)"
proof -
  obtain ifaces where i: "interfaces = Inr ifaces"
    and "selectAutoNetwork uni (concat (map iface_candidates ifaces)) hint = Inr n"
    using assms by (auto simp: AutoDetectNetwork_def bindS_Inr)
  then have "selection_spec uni (concat (map iface_candidates ifaces)) hint = Some (Some n)"
    using selectAutoNetwork_cases [of uni "concat (map iface_candidates ifaces)" hint] by simp
  then obtain b bs where b: "best_of (candidate_score uni (ToLower uni (TrimSpace hint))) (concat (map iface_candidates ifaces)) = b # bs"
    and n: "n = \<lparr>InterfaceName = CName b, NIP = CIP b, NMAC = CMAC b\<rparr>"
    by (auto simp: selection_spec_def split: list.splits if_splits)
  have "b \<in> set (best_of (candidate_score uni (ToLower uni (TrimSpace hint))) (concat (map iface_candidates ifaces)))"
    using b by simp
  then obtain s where "b \<in> set (concat (map iface_candidates ifaces))"
    "candidate_score uni (ToLower uni (TrimSpace hint)) b = Some s"
    unfolding best_of_iff by blast
  from candidate_live [OF this] show ?thesis
    using i n by simp
qed

lemma parse_network_Inr:
  assumes "parse_network detect values hint = Inr (auto, ip, mac)" and "needs_network values"
  shows "detect hint = Inr auto \<and> ip = NIP auto \<and> mac = NMAC auto"
  using assms by (auto simp: parse_network_def needs_network_def Let_def bindS_Inr split: if_splits sum.splits)

section \<open>Facts: text forms\<close>

lemma first_of_mem: "first_of s = Some c \<Longrightarrow> c \<in> set s"
  by (induction s rule: first_of.induct) (auto split: if_splits)

lemma dotted_not_auto: "first_of raw = Some (CHR ''.'') \<Longrightarrow> \<not> says_auto raw"
proof
  assume "first_of raw = Some (CHR ''.'')" and a: "says_auto raw"
  then have "CHR ''.'' \<in> set (TrimSpace raw)"
    by (subst TrimSpace_visible) (auto simp: visible_def dest: first_of_mem)
  then have "ascii_lower (CHR ''.'') \<in> set (map ascii_lower (TrimSpace raw))"
    unfolding set_map by (rule imageI)
  also have "map ascii_lower (TrimSpace raw) = ''auto''"
    using a unfolding says_auto_def EqualFold_def by (simp add: ascii_lower_def)
  finally show False by (simp add: ascii_lower_def)
qed

lemma arr_bytes_four:
  obtains a b c d where "arr_bytes (v :: 4 arr) = [a, b, c, d]"
  by (rule four_bytes [of "arr_bytes v"]) auto

lemma ipv4String_dotted: "ipv4String v = dotted (arr_bytes v)"
  by (rule arr_bytes_four [of v]) (simp add: ipv4String_def Let_def)

lemma first_of_ipv4String: "first_of (ipv4String v) = Some (CHR ''.'')"
  by (rule arr_bytes_four [of v]) (simp add: ipv4String_def Let_def first_of_dec)

lemma optionalIPv4_dotted:
  assumes "first_of raw = Some (CHR ''.'')"
  shows "optionalIPv4 ((key, TString raw) # values) key fallback = Inr v \<longleftrightarrow> raw = ipv4String v"
proof -
  have P: "ParseIPv4 raw = parseIPv4 raw"
    using assms parseIPv4_iff [of raw]
    by (cases "parseIPv4 raw") (auto simp: ParseIPv4_def ParseIP_def To4_def v4InV6Prefix_def)
  have "(\<exists>ip. parseIPv4 raw = Some ip \<and> v = arr_of ip) \<longleftrightarrow> raw = ipv4String v"
    by (auto simp: parseIPv4_iff ipv4String_dotted intro!: exI [of _ "arr_bytes v"])
  then show ?thesis
    using dotted_not_auto [OF assms] P
    by (auto simp: optionalIPv4_def requiredString_def Let_def split: option.splits)
qed

lemma hex_pair:
  "hexval p = Some x \<Longrightarrow> hexval q = Some y \<Longrightarrow> hex2 (of_nat (16 * x + y)) = map ascii_lower [p, q]"
proof -
  assume h: "hexval p = Some x" "hexval q = Some y"
  then have lt: "x < 16" "y < 16" by (simp_all add: hexval_less)
  define b :: byte where "b = of_nat (16 * x + y)"
  have "x = unat b div 16 \<and> y = unat b mod 16"
    by (rule iffD1 [OF nibbles_iff [OF lt]]) (simp add: b_def)
  then show ?thesis
    using h unfolding b_def [symmetric] by (simp add: hex2_def ascii_lower_hexdigit_iff)
qed

lemma hex_decode_four:
  assumes "hex_decode raw = Some bs" and "length raw = 4"
  shows "length bs = 2 \<and> map ascii_lower raw = hex2 (bs ! 0) @ hex2 (bs ! 1)"
proof -
  obtain p q r s where raw: "raw = [p, q, r, s]"
    using assms(2) by (auto simp: numeral_eq_Suc length_Suc_conv)
  obtain x y z w where h: "hexval p = Some x" "hexval q = Some y" "hexval r = Some z" "hexval s = Some w"
    "bs = [of_nat (16 * x + y), of_nat (16 * z + w)]"
    using assms(1) raw by (auto split: option.splits)
  show ?thesis
    unfolding h(5) raw using hex_pair [OF h(1,2)] hex_pair [OF h(3,4)] by simp
qed

section \<open>Properties\<close>

text \<open>
  Property C9. A configuration that loads is valid. Every field is within its documented bounds, the
  protocol buffers can hold the strings, the socket is bound to the authenticated address, which is
  not a loopback, multicast, link-local or unspecified address, the hardware address is not zero,
  and neither product of the durations overflows: the receive timeout is 0.1 to 30 seconds, the
  heartbeat interval 1 to 300 seconds.
\<close>

theorem loaded_config_valid:
  "case Load env file of
     Inl e \<Rightarrow> True
   | Inr c \<Rightarrow>
       length (Username c) \<in> {1..36} \<and> length (Password c) \<in> {1..255} \<and> length (HostName c) \<le> 32 \<and> length (OSInfo c) \<le> 54
       \<and> ServerPort c \<in> {1..65535} \<and> BindPort c \<in> {1..65535} \<and> RetryCount c \<in> {0..10}
       \<and> ReceiveTimeout c = ReceiveTimeoutMillis c * 1000000 \<and> ReceiveTimeout c \<in> {100 * millisecond..30 * second}
       \<and> HeartbeatInterval c = HeartbeatIntervalSecs c * 1000000000 \<and> HeartbeatInterval c \<in> {second..300 * second}
       \<and> usableIPv4 (Some (arr_bytes (IP c))) \<and> \<not> isZeroMAC (MAC c) \<and> BindIP c = IP c"
proof (cases "Load env file")
  case (Inr c)
  then obtain data where "ParseWithDetector (tomlDecode env) (osHostname env) (runtimeGOOS env) data
      (AutoDetectNetwork (unicodeLower env) (netInterfaces env)) = Inr c"
    by (auto simp: Load_def Parse_def bindS_Inr)
  note v = parsed_valid [OF this]
  show ?thesis
    using v(1) unfolding Inr sum.case v(2,3)
    by (simp add: valid_fields_def isZeroMAC_def millisecond_def second_def)
qed simp

text \<open>
  Property C29. The errors of the parser. If the detection of the adapter is needed, is reached and
  fails, the error is its ambiguity, or else the retryable \<open>ErrNetworkUnavailable\<close>; every other
  failure is a plain message, so no mistake in the file is ever retried as a network problem.
\<close>

theorem parse_errors:
  "case (case detection_hint decode data of
           None \<Rightarrow> None
         | Some hint \<Rightarrow> (case detect hint of Inl d \<Rightarrow> Some d | Inr _ \<Rightarrow> None)) of
     Some d \<Rightarrow>
       ParseWithDetector decode hostname goos data detect =
         Inl (if errors_Is d ErrAmbiguousNetwork then d
              else Wrapf ''campus adapter is not ready'' ErrNetworkUnavailable)
   | None \<Rightarrow>
       (case ParseWithDetector decode hostname goos data detect of
          Inl e \<Rightarrow> plain_message e
        | Inr _ \<Rightarrow> True)"
proof (cases "ParseWithDetector decode hostname goos data detect")
  case (Inl e)
  show ?thesis
  proof (cases "\<exists>hint d. detection_hint decode data = Some hint \<and> detect hint = Inl d")
    case True
    then obtain hint d where h: "detection_hint decode data = Some hint" "detect hint = Inl d" by blast
    then show ?thesis using detection_fails [where detect = detect, OF h] by (simp add: detection_error_def)
  next
    case False
    then show ?thesis
      using ParseWithDetector_Inl [OF Inl] Inl by (auto split: option.split sum.split)
  qed
next
  case (Inr c)
  then have "detect hint \<noteq> Inl d" if "detection_hint decode data = Some hint" for hint d
    using detection_fails [where detect = detect, OF that] by auto
  then show ?thesis
    using Inr by (auto split: option.split sum.split)
qed

text \<open>
  Property C30. An automatic address is a live one. When the file leaves the address or the hardware
  address to the program, both of the loaded configuration belong to one interface of the system that
  is up, is not a loopback, and carries exactly this address; a mixture of adapters is refused.
\<close>

theorem auto_network_is_live:
  "case (Load env (Inr data), parseTOML (tomlDecode env) data) of
     (Inr c, Inr values) \<Rightarrow>
       if needs_network values
       then (\<exists>ifaces. netInterfaces env = Inr ifaces \<and> live_adapter ifaces (InterfaceName (AutoNetwork c)) (IP c) (MAC c))
       else True
   | _ \<Rightarrow> True"
proof (cases "Load env (Inr data)")
  case (Inr c)
  then have "ParseWithDetector (tomlDecode env) (osHostname env) (runtimeGOOS env) data
      (AutoDetectNetwork (unicodeLower env) (netInterfaces env)) = Inr c"
    by (simp add: Load_def Parse_def)
  then obtain vals username password hint network cfg where p: "parseTOML (tomlDecode env) data = Inr vals"
    "parse_network (AutoDetectNetwork (unicodeLower env) (netInterfaces env)) vals hint = Inr network"
    "parse_fields (osHostname env) (runtimeGOOS env) vals username password hint network = Inr cfg"
    "c = cfg\<lparr>ReceiveTimeout := duration (ReceiveTimeoutMillis cfg) millisecond,
             HeartbeatInterval := duration (HeartbeatIntervalSecs cfg) second\<rparr>"
    by (elim ParseWithDetector_Inr)
  obtain auto ip mac where n: "network = (auto, ip, mac)" by (cases network)
  have c: "IP c = ip" "MAC c = mac" "AutoNetwork c = auto"
    using parse_fields_projections [OF p(3) [unfolded n]] by (simp_all add: p(4))
  have "\<exists>ifaces. netInterfaces env = Inr ifaces \<and> live_adapter ifaces (InterfaceName auto) ip mac" if "needs_network vals"
    using parse_network_Inr [OF p(2) [unfolded n] that] AutoDetectNetwork_live by blast
  then show ?thesis using Inr p(1) c by simp
qed simp

text \<open>
  Property C31. The choice among several adapters. The loop over the candidates, with its running best
  score and its flag, computes the specification: among the candidates that qualify, those with the
  highest score are taken; if they all are the same adapter and address the first is the answer,
  otherwise the choice is ambiguous, and without any there is an error.
\<close>

theorem selection_is_unique_best:
  "case selectAutoNetwork uni candidates hint of
     Inr n \<Rightarrow> selection_spec uni candidates hint = Some (Some n)
   | Inl e \<Rightarrow>
       if e = ErrAmbiguousNetwork then selection_spec uni candidates hint = Some None
       else selection_spec uni candidates hint = None \<and> plain_message e"
  by (rule selectAutoNetwork_cases)

text \<open>
  Addresses survive being written and read: the text of an IPv4 address is read back
  as that address under every key, and among the texts in dotted form (those whose first
  separator is a dot) it is the only one that is read as this address.
\<close>

lemma ipv4_text_roundtrip:
  "optionalIPv4 ((key, TString (ipv4String v)) # values) key fallback = Inr v
   \<and> (if first_of raw = Some (CHR ''.'')
      then (optionalIPv4 ((key, TString raw) # values) key fallback = Inr v) = (raw = ipv4String v)
      else True)"
  using optionalIPv4_dotted first_of_ipv4String by auto

text \<open>
  Property C32. The hardware addresses that are accepted are exactly the two documented notations, six
  pairs of hexadecimal digits of either case separated throughout by colons or throughout by hyphens,
  and each is read as the six bytes it shows.
\<close>

theorem mac_text_forms:
  "(parseMAC key raw = Inr m) =
   (map ascii_lower raw = mac_text (CHR '':'') (arr_bytes m) \<or> map ascii_lower raw = mac_text (CHR ''-'') (arr_bytes m))"
proof -
  have "parseMAC key raw = Inr m \<longleftrightarrow>
      (\<exists>bs. ((count_list raw (CHR '':'') = 5 \<or> count_list raw (CHR ''-'') = 5) \<and> ParseMAC raw = Some bs \<and> length bs = 6)
        \<and> m = arr_of bs)"
    by (auto simp: parseMAC_def split: option.split)
  also have "\<dots> \<longleftrightarrow> (\<exists>e. is_sep e \<and> map ascii_lower raw = mac_text e (arr_bytes m))"
    unfolding ParseMAC_six by (force intro: exI [of _ "arr_bytes m"])
  finally show ?thesis
    by (auto simp: is_sep_def)
qed

text \<open>
  Version bytes written as four hexadecimal digits are read back, and nothing but four
  hexadecimal digits is read as a version.
\<close>

lemma version_text_roundtrip:
  "optionalHex2 ((key, TString (hex2 a @ hex2 b)) # values) key fallback = Inr (arr_of [a, b])
   \<and> (case optionalHex2 ((key, TString raw) # values) key fallback of
        Inl e \<Rightarrow> plain_message e
      | Inr v \<Rightarrow> map ascii_lower raw = hex2 (arr_bytes v ! 0) @ hex2 (arr_bytes v ! 1))"
proof
  show "optionalHex2 ((key, TString (hex2 a @ hex2 b)) # values) key fallback = Inr (arr_of [a, b])"
    using hex_decode_hex2 [of b "[]"]
    by (simp add: optionalHex2_def requiredHex2_def requiredString_def hex_decode_hex2) (simp add: hex2_def)
  show "case optionalHex2 ((key, TString raw) # values) key fallback of
      Inl e \<Rightarrow> plain_message e
    | Inr v \<Rightarrow> map ascii_lower raw = hex2 (arr_bytes v ! 0) @ hex2 (arr_bytes v ! 1)"
    by (auto simp: optionalHex2_def requiredHex2_def requiredString_def split: option.split dest: hex_decode_four)
qed

end
