(* ===== verification/Logging.thy ===== *)
theory Logging
  imports Prelude "HOL-Library.Sublist"
begin

text \<open>
  \<open>internal/logging/logging.go\<close>: the log file that is rotated before it outgrows its limit. The file
  system is a map from paths to contents with a list of faults: every call that can fail takes one
  entry, \<open>Some (e, n)\<close> makes it fail with \<open>e\<close> (a write after \<open>n\<close> bytes). The mutex makes every
  operation atomic. Directories and the formatting of records by \<open>slog\<close> are outside.
\<close>

section \<open>The file system\<close>

record fsys =
  files :: "string \<Rightarrow> bytes option"
  faults :: "(err \<times> nat) option list"

definition ErrClosed :: err where "ErrClosed = OsError ''file already closed''"
definition ErrNotExist :: err where "ErrNotExist = OsError ''file does not exist''"

definition IsNotExist :: "err \<Rightarrow> bool" where "IsNotExist e \<longleftrightarrow> errors_Is e ErrNotExist"

definition fault :: "fsys \<Rightarrow> (err \<times> nat) option \<times> fsys" where
  "fault s = (case faults s of [] \<Rightarrow> (None, s) | f # fs \<Rightarrow> (f, s\<lparr>faults := fs\<rparr>))"

text \<open>A call without effect on the contents: \<open>MkdirAll\<close>, \<open>Close\<close>, \<open>Stat\<close>, \<open>UserCacheDir\<close>.\<close>

definition plain_call :: "fsys \<Rightarrow> err option \<times> fsys" where
  "plain_call s = (case fault s of (f, s) \<Rightarrow> (map_option fst f, s))"

definition os_OpenFile :: "string \<Rightarrow> fsys \<Rightarrow> err option \<times> fsys" where
  "os_OpenFile p s =
     (case fault s of
        (Some (e, _), s) \<Rightarrow> (Some e, s)
      | (None, s) \<Rightarrow>
          (None, if files s p = None then s\<lparr>files := (files s)(p := Some [])\<rparr> else s))"

definition os_Remove :: "string \<Rightarrow> fsys \<Rightarrow> err option \<times> fsys" where
  "os_Remove p s =
     (case fault s of
        (Some (e, _), s) \<Rightarrow> (Some e, s)
      | (None, s) \<Rightarrow>
          if files s p = None then (Some ErrNotExist, s) else (None, s\<lparr>files := (files s)(p := None)\<rparr>))"

definition os_Rename :: "string \<Rightarrow> string \<Rightarrow> fsys \<Rightarrow> err option \<times> fsys" where
  "os_Rename a b s =
     (case fault s of
        (Some (e, _), s) \<Rightarrow> (Some e, s)
      | (None, s) \<Rightarrow>
          if files s a = None then (Some ErrNotExist, s)
          else (None, s\<lparr>files := (files s)(b := files s a, a := None)\<rparr>))"

text \<open>\<open>file.Write\<close> in append mode; a failing write has stored a proper prefix.\<close>

definition file_Write :: "string \<Rightarrow> bytes \<Rightarrow> fsys \<Rightarrow> nat \<times> err option \<times> fsys" where
  "file_Write p bs s =
     (let store = (\<lambda>bs s. s\<lparr>files := (files s)(p := Some (the (files s p) @ bs))\<rparr>) in
      case fault s of
        (Some (e, n), s) \<Rightarrow> let done = take (min n (length bs - 1)) bs in (length done, Some e, store done s)
      | (None, s) \<Rightarrow> (length bs, None, store bs s))"

section \<open>The rotating writer\<close>

definition MaxLogBytes :: int where "MaxLogBytes = 4 * 1024 * 1024"

text \<open>
  \<open>wFile\<close> says whether the field \<open>file\<close> is set; nil is \<open>False\<close>. An \<open>os.File\<close> is closed for good even when its \<open>Close\<close>
  reports an error; the field then still points to it, which is \<open>wDead\<close>. A \<open>PathError\<close> is its cause.
\<close>

record RotatingWriter =
  wPath :: string
  wLimit :: int
  wFile :: bool
  wDead :: bool
  wSize :: int

definition old_path :: "string \<Rightarrow> string" where
  "old_path p = p @ ''.old''"

definition file_Close :: "RotatingWriter \<Rightarrow> fsys \<Rightarrow> err option \<times> RotatingWriter \<times> fsys" where
  "file_Close w s =
     (if wDead w then (Some ErrClosed, w, s)
      else case plain_call s of (err, s) \<Rightarrow> (err, w\<lparr>wDead := (err \<noteq> None)\<rparr>, s))"

definition Open :: "string \<Rightarrow> int \<Rightarrow> fsys \<Rightarrow> (err + RotatingWriter) \<times> fsys" where
  "Open path limit s =
     (case plain_call s of
        (Some e, s) \<Rightarrow> (Inl e, s)
      | (None, s) \<Rightarrow>
          (case os_OpenFile path s of
             (Some e, s) \<Rightarrow> (Inl e, s)
           | (None, s) \<Rightarrow>
               (case plain_call s of
                  (Some e, s) \<Rightarrow> (Inl e, snd (plain_call s))
                | (None, s) \<Rightarrow>
                    (Inr \<lparr>wPath = path, wLimit = limit, wFile = True, wDead = False, wSize = int (length (the (files s path)))\<rparr>, s))))"

text \<open>The rotation inside \<open>Write\<close>; \<open>None\<close> in the error is the path to the write itself.\<close>

definition rotate :: "RotatingWriter \<Rightarrow> fsys \<Rightarrow> err option \<times> RotatingWriter \<times> fsys" where
  "rotate w s =
     (case file_Close w s of
        (Some e, w, s) \<Rightarrow> (Some e, w, s)
      | (None, w, s) \<Rightarrow>
          let w = w\<lparr>wFile := False\<rparr> in
          (case os_Remove (old_path (wPath w)) s of
             (r, s) \<Rightarrow>
               if (case r of None \<Rightarrow> False | Some e \<Rightarrow> \<not> IsNotExist e) then (r, w, s)
               else (case os_Rename (wPath w) (old_path (wPath w)) s of
                 (Some e, s) \<Rightarrow> (Some e, w, s)
               | (None, s) \<Rightarrow>
                   (case os_OpenFile (wPath w) s of
                      (Some e, s) \<Rightarrow> (Some e, w, s)
                    | (None, s) \<Rightarrow> (None, w\<lparr>wFile := True, wDead := False, wSize := 0\<rparr>, s)))))"

definition Write :: "bytes \<Rightarrow> RotatingWriter \<Rightarrow> fsys \<Rightarrow> nat \<times> err option \<times> RotatingWriter \<times> fsys" where
  "Write p w s =
     (if \<not> wFile w then (0, Some ErrClosed, w, s)
      else
        case (if wSize w > 0 \<and> wSize w + int (length p) > wLimit w then rotate w s else (None, w, s)) of
          (Some e, w, s) \<Rightarrow> (0, Some e, w, s)
        | (None, w, s) \<Rightarrow>
            (case (if wDead w then (0, Some ErrClosed, s) else file_Write (wPath w) p s) of
               (n, err, s) \<Rightarrow> (n, err, w\<lparr>wSize := wSize w + int n\<rparr>, s)))"

definition writer_Close :: "RotatingWriter \<Rightarrow> fsys \<Rightarrow> err option \<times> RotatingWriter \<times> fsys" where
  "writer_Close w s =
     (if \<not> wFile w then (None, w, s)
      else case file_Close w s of (err, w, s) \<Rightarrow> (err, w\<lparr>wFile := False\<rparr>, s))"

text \<open>
  \<open>UserLogger\<close>: the writer behind the logger and its directory; \<open>join\<close> is \<open>filepath.Join\<close> and
  \<open>base\<close> the answer of \<open>os.UserCacheDir\<close>.
\<close>

definition UserLogger ::
    "(string list \<Rightarrow> string) \<Rightarrow> err + string \<Rightarrow> fsys \<Rightarrow> (err + RotatingWriter \<times> string) \<times> fsys" where
  "UserLogger join base s =
     (case base of
        Inl e \<Rightarrow> (Inl e, s)
      | Inr base \<Rightarrow>
          let dir = join [base, ''jlu-drcom-win'', ''logs''] in
          (case Open (join [dir, ''tray.log'']) MaxLogBytes s of
             (Inl e, s) \<Rightarrow> (Inl e, s)
           | (Inr w, s) \<Rightarrow> (Inr (w, dir), s)))"

section \<open>Facts\<close>

lemma old_path_neq [simp]: "old_path p \<noteq> p" "p \<noteq> old_path p"
  by (simp_all add: old_path_def)

lemma fault_files [simp]: "fault s = (f, s') \<Longrightarrow> files s' = files s"
  by (auto simp: fault_def split: list.splits)

lemma plain_call_files: "plain_call s = (e, s') \<Longrightarrow> files s' = files s"
  by (auto simp: plain_call_def split: prod.splits)

text \<open>
  The invariant: an open file exists and \<open>size\<close> is its length; the log and its predecessor are within
  the bound \<open>B\<close>.
\<close>

definition log_size :: "fsys \<Rightarrow> string \<Rightarrow> int" where
  "log_size s p = (case files s p of None \<Rightarrow> 0 | Some bs \<Rightarrow> int (length bs))"

definition log_inv :: "int \<Rightarrow> RotatingWriter \<Rightarrow> fsys \<Rightarrow> bool" where
  "log_inv B w s \<longleftrightarrow>
     (wFile w \<longrightarrow> files s (wPath w) \<noteq> None \<and> wSize w = log_size s (wPath w))
     \<and> log_size s (wPath w) \<le> B \<and> log_size s (old_path (wPath w)) \<le> B"

lemma log_size_nonneg: "0 \<le> log_size s p"
  by (simp add: log_size_def split: option.split)

lemma os_Remove_eff: "os_Remove p s = (r, s') \<Longrightarrow> files s' = files s \<or> files s' = (files s)(p := None)"
  by (auto simp: os_Remove_def split: prod.splits option.splits if_splits dest!: fault_files)

lemma os_Rename_eff:
  "os_Rename a b s = (r, s') \<Longrightarrow> r \<noteq> None \<and> files s' = files s
     \<or> r = None \<and> files s a \<noteq> None \<and> files s' = (files s)(b := files s a, a := None)"
  by (auto simp: os_Rename_def split: prod.splits option.splits if_splits dest!: fault_files)

lemma os_OpenFile_eff:
  "os_OpenFile p s = (r, s') \<Longrightarrow> r \<noteq> None \<and> files s' = files s
     \<or> r = None \<and> files s' = (if files s p = None then (files s)(p := Some []) else files s)"
  by (auto simp: os_OpenFile_def split: prod.splits option.splits if_splits dest!: fault_files)

text \<open>
  A rotation completes, or its \<open>Close\<close> fails and leaves a dead file, or fails later with the writer closed;
  then each of the two files is as before, gone, or (the old one) the log itself.
\<close>

lemma rotate_cases:
  assumes "rotate w s = (r, w', s')"
  obtains (dead) "r \<noteq> None" "w' = w\<lparr>wDead := True\<rparr>" "files s' = files s"
  | (stuck) "r \<noteq> None" "w' = w\<lparr>wFile := False, wDead := False\<rparr>" "files s' (wPath w) \<in> {files s (wPath w), None}"
      "files s' (old_path (wPath w)) \<in> {files s (old_path (wPath w)), None, files s (wPath w)}"
  | (complete) "r = None" "w' = w\<lparr>wFile := True, wDead := False, wSize := 0\<rparr>" "files s (wPath w) \<noteq> None"
      "files s' = (files s)(old_path (wPath w) := files s (wPath w), wPath w := Some [])"
proof -
  let ?p = "wPath w" and ?o = "old_path (wPath w)"
  obtain r1 w1 s1 where P: "file_Close w s = (r1, w1, s1)" by (cases "file_Close w s")
  obtain r2 s2 where Rm: "os_Remove ?o s1 = (r2, s2)" by (rule prod.exhaust)
  obtain r3 s3 where Rn: "os_Rename ?p ?o s2 = (r3, s3)" by (rule prod.exhaust)
  obtain r4 s4 where Op: "os_OpenFile ?p s3 = (r4, s4)" by (rule prod.exhaust)
  have s1: "files s1 = files s" and w1: "w1 = w\<lparr>wDead := (r1 \<noteq> None)\<rparr>"
    using P by (auto simp: file_Close_def split: if_splits prod.splits dest: plain_call_files)
  have s2: "files s2 = files s \<or> files s2 = (files s)(?o := None)"
    using os_Remove_eff [OF Rm] by (simp add: s1)
  have s3: "r3 \<noteq> None \<and> files s3 = files s2 \<or> r3 = None \<and> files s ?p \<noteq> None \<and> files s3 = (files s)(?o := files s ?p, ?p := None)"
    using os_Rename_eff [OF Rn] s2 by auto
  show thesis
  proof (cases "r1 \<noteq> None")
    case True
    then show thesis using assms P s1 w1 by (intro dead) (auto simp: rotate_def)
  next
    case False
    show thesis
    proof (cases "case r2 of None \<Rightarrow> False | Some e \<Rightarrow> \<not> IsNotExist e")
      case True
      then show thesis
        using assms False P Rm s2 w1 by (intro stuck) (auto simp: rotate_def split: option.splits)
    next
      case r2: False
      show thesis
      proof (cases "r3 \<noteq> None")
        case True
        then show thesis
          using assms False P Rm r2 Rn s2 s3 w1 by (intro stuck) (auto simp: rotate_def)
      next
        case r3: False
        then have s3: "files s ?p \<noteq> None" "files s3 = (files s)(?o := files s ?p, ?p := None)"
          using s3 by auto
        from os_OpenFile_eff [OF Op] show thesis
        proof
          assume "r4 \<noteq> None \<and> files s4 = files s3"
          then show thesis
            using assms False P Rm r2 Rn r3 Op s3 w1 by (intro stuck) (auto simp: rotate_def)
        next
          assume o: "r4 = None \<and> files s4 = (if files s3 ?p = None then (files s3)(?p := Some []) else files s3)"
          then have "files s4 = (files s)(?o := files s ?p, ?p := Some [])"
            using s3 by (auto simp: fun_eq_iff)
          then show thesis
            using assms False P Rm r2 Rn r3 Op s3 o w1 by (intro complete) (auto simp: rotate_def)
        qed
      qed
    qed
  qed
qed

lemma rotate_inv:
  assumes "rotate w s = (r, w', s')" and "log_inv B w s" and "wFile w"
  shows "log_inv B w' s'" and "wPath w' = wPath w" and "wLimit w' = wLimit w"
    and "r = None \<Longrightarrow> wFile w' \<and> wSize w' = 0"
proof -
  have B: "0 \<le> B" using assms(2) log_size_nonneg [of s "wPath w"] by (simp add: log_inv_def)
  from assms(1) have "log_inv B w' s' \<and> wPath w' = wPath w \<and> wLimit w' = wLimit w \<and> (r = None \<longrightarrow> wFile w' \<and> wSize w' = 0)"
  proof (cases rule: rotate_cases)
    case dead
    then show ?thesis using assms(2) by (auto simp: log_inv_def log_size_def)
  next
    case stuck
    then show ?thesis using assms(2) B by (auto simp: log_inv_def log_size_def)
  next
    case complete
    then show ?thesis using assms(2) B by (auto simp: log_inv_def log_size_def)
  qed
  then show "log_inv B w' s'" and "wPath w' = wPath w" and "wLimit w' = wLimit w"
    and "r = None \<Longrightarrow> wFile w' \<and> wSize w' = 0"
    by blast+
qed

lemma file_Write_size:
  assumes "file_Write p bs s = (n, e, s')" and "files s p \<noteq> None"
  shows "files s' p \<noteq> None" and "log_size s' p = log_size s p + int n" and "n \<le> length bs"
    and "q \<noteq> p \<Longrightarrow> files s' q = files s q"
  using assms by (auto simp: file_Write_def Let_def log_size_def split: prod.splits option.splits dest!: fault_files)

lemma Write_inv:
  assumes "Write p w s = (n, e, w', s')" and "log_inv B w s" and "wLimit w \<le> B" and "int (length p) \<le> B"
  shows "log_inv B w' s'" and "wPath w' = wPath w" and "wLimit w' = wLimit w"
proof -
  let ?R = "if wSize w > 0 \<and> wSize w + int (length p) > wLimit w then rotate w s else (None, w, s)"
  have "log_inv B w' s' \<and> wPath w' = wPath w \<and> wLimit w' = wLimit w"
  proof (cases "wFile w")
    case True
    obtain r w1 s1 where R: "?R = (r, w1, s1)" by (cases ?R)
    have "log_inv B w1 s1 \<and> wPath w1 = wPath w \<and> wLimit w1 = wLimit w \<and> (r = None \<longrightarrow> wFile w1 \<and> wSize w1 + int (length p) \<le> B)"
    proof (cases "wSize w > 0 \<and> wSize w + int (length p) > wLimit w")
      case over: True
      then have "rotate w s = (r, w1, s1)" using R by simp
      from rotate_inv [OF this assms(2) True] assms(4)
      show ?thesis
        by auto
    next
      case fits: False
      then have eq: "r = None" "w1 = w" "s1 = s" using R by auto
      have "0 \<le> wSize w" using assms(2) True log_size_nonneg [of s "wPath w"] by (simp add: log_inv_def)
      then have "wSize w + int (length p) \<le> B" using fits assms(3,4) by linarith
      then show ?thesis
        using assms(2) True by (simp add: eq)
    qed
    then have 1: "log_inv B w1 s1" "wPath w1 = wPath w" "wLimit w1 = wLimit w"
      "r = None \<Longrightarrow> wFile w1 \<and> wSize w1 + int (length p) \<le> B" by blast+
    show ?thesis
    proof (cases r)
      case None
      let ?W = "if wDead w1 then (0, Some ErrClosed, s1) else file_Write (wPath w1) p s1"
      obtain m x s2 where W: "?W = (m, x, s2)" by (cases ?W)
      have f: "files s1 (wPath w1) \<noteq> None" "wSize w1 = log_size s1 (wPath w1)"
        using 1(1,4) None by (auto simp: log_inv_def)
      have fw: "files s2 (wPath w1) \<noteq> None" "log_size s2 (wPath w1) = log_size s1 (wPath w1) + int m" "m \<le> length p"
        "q \<noteq> wPath w1 \<Longrightarrow> files s2 q = files s1 q" for q
        using W f(1) file_Write_size [of "wPath w1" p s1] by (auto split: if_splits)
      have "w' = w1\<lparr>wSize := wSize w1 + int m\<rparr>" "s' = s2"
        using assms(1) True R None W by (auto simp: Write_def)
      moreover have "log_size s2 (old_path (wPath w1)) = log_size s1 (old_path (wPath w1))"
        using fw(4) [of "old_path (wPath w1)"] by (simp add: log_size_def)
      ultimately show ?thesis
        using 1 f fw(1-3) None by (auto simp: log_inv_def)
    next
      case (Some x)
      then show ?thesis using assms(1) True R 1 by (auto simp: Write_def)
    qed
  qed (use assms in \<open>auto simp: Write_def\<close>)
  then show "log_inv B w' s'" and "wPath w' = wPath w" and "wLimit w' = wLimit w" by blast+
qed

text \<open>A sequence of records, with the results of their writes.\<close>

fun write_all :: "bytes list \<Rightarrow> RotatingWriter \<Rightarrow> fsys \<Rightarrow> (nat \<times> err option) list \<times> RotatingWriter \<times> fsys" where
  "write_all [] w s = ([], w, s)"
| "write_all (p # ps) w s =
     (case Write p w s of (n, e, w, s) \<Rightarrow>
        (case write_all ps w s of (rs, w, s) \<Rightarrow> ((n, e) # rs, w, s)))"

lemma write_all_inv:
  "write_all ps w s = (rs, w', s') \<Longrightarrow> log_inv B w s \<Longrightarrow> wLimit w \<le> B \<Longrightarrow> \<forall>p \<in> set ps. int (length p) \<le> B \<Longrightarrow>
     log_inv B w' s' \<and> wPath w' = wPath w"
proof (induction ps arbitrary: w s rs)
  case (Cons p ps)
  obtain n e w1 s1 where W: "Write p w s = (n, e, w1, s1)" by (cases "Write p w s")
  then obtain rs1 where "write_all ps w1 s1 = (rs1, w', s')"
    using Cons.prems(1) by (auto split: prod.splits)
  then show ?case
    using Cons.IH Write_inv [OF W Cons.prems(2,3)] Cons.prems(3,4) by simp
qed simp

text \<open>An \<open>Open\<close> that succeeds establishes the invariant, a closed writer never writes again.\<close>

lemma Open_inv:
  assumes "Open path limit s = (Inr w, s')" and "log_size s path \<le> B" and "log_size s (old_path path) \<le> B"
  shows "log_inv B w s'" and "wPath w = path" and "wLimit w = limit" and "wFile w"
proof -
  have B: "0 \<le> B" using assms(2) log_size_nonneg [of s path] by simp
  obtain s1 s2 where P: "plain_call s = (None, s1)" and O: "os_OpenFile path s1 = (None, s2)"
    and S: "plain_call s2 = (None, s')"
    and w: "w = \<lparr>wPath = path, wLimit = limit, wFile = True, wDead = False, wSize = int (length (the (files s' path)))\<rparr>"
    using assms(1) by (auto simp: Open_def split: prod.splits option.splits)
  have "files s' = (if files s path = None then (files s)(path := Some []) else files s)"
    using plain_call_files [OF P] plain_call_files [OF S] os_OpenFile_eff [OF O] by simp
  then show "log_inv B w s'" and "wPath w = path" and "wLimit w = limit" and "wFile w"
    using assms(2,3) B w by (auto simp: log_inv_def log_size_def split: option.splits)
qed

text \<open>One that fails leaves both sizes as they were.\<close>

lemma Open_fail:
  assumes "Open path limit s = (Inl e, s')"
  shows "log_size s' p = log_size s p"
proof -
  have pc: "files (snd (plain_call v)) = files v" for v
    by (rule plain_call_files [where e = "fst (plain_call v)"]) simp
  have "files s' = files s \<or> files s path = None \<and> files s' = (files s)(path := Some [])"
    using assms
    by (auto simp: Open_def pc split: prod.splits option.splits if_splits dest!: plain_call_files os_OpenFile_eff)
  then show ?thesis by (auto simp: log_size_def)
qed

text \<open>The bound that the limit, the contents at the start and the records give.\<close>

lemma fold_max_bounds: "(a :: int) \<le> fold max xs a" "x \<in> set xs \<Longrightarrow> x \<le> fold max xs a"
proof -
  show 1: "a \<le> fold max xs a" for a :: int and xs
    by (induction xs arbitrary: a) (auto intro: order_trans [OF max.cobounded2])
  show "x \<in> set xs \<Longrightarrow> x \<le> fold max xs a"
    by (induction xs arbitrary: a) (auto intro: order_trans [OF max.cobounded1 1])
qed

lemma write_closed: "\<not> wFile w \<or> wDead w \<Longrightarrow> Write p w s = (0, Some ErrClosed, w, s)"
  by (auto simp: Write_def rotate_def file_Close_def)

lemma write_all_closed:
  "\<not> wFile w \<or> wDead w \<Longrightarrow> write_all ps w s = (map (\<lambda>_. (0, Some ErrClosed)) ps, w, s)"
  by (induction ps) (simp_all add: write_closed)

section \<open>Fault-free operation\<close>

text \<open>
  An abstract log is the pair of the two contents; appending a record to it either extends the current
  part or starts a new one.
\<close>

definition append_record :: "int \<Rightarrow> bytes \<Rightarrow> bytes option \<times> bytes \<Rightarrow> bytes option \<times> bytes" where
  "append_record limit p l =
     (case l of (old, cur) \<Rightarrow>
        if cur \<noteq> [] \<and> int (length cur + length p) > limit then (Some cur, p) else (old, cur @ p))"

definition log_of :: "RotatingWriter \<Rightarrow> fsys \<Rightarrow> bytes option \<times> bytes" where
  "log_of w s = (files s (old_path (wPath w)), the (files s (wPath w)))"

lemma fault_free: "faults s = [] \<Longrightarrow> fault s = (None, s)"
  by (simp add: fault_def)

lemma Write_append:
  assumes "faults s = []" and "wFile w \<and> \<not> wDead w" and "files s (wPath w) = Some cur" and "wSize w = int (length cur)"
  shows "\<exists>w' s'. Write p w s = (length p, None, w', s') \<and> (wFile w' \<and> \<not> wDead w') \<and> wPath w' = wPath w \<and> wLimit w' = wLimit w
     \<and> faults s' = [] \<and> files s' (wPath w) \<noteq> None \<and> wSize w' = log_size s' (wPath w)
     \<and> log_of w' s' = append_record (wLimit w) p (log_of w s)"
proof (cases "wSize w > 0 \<and> wSize w + int (length p) > wLimit w")
  case True
  have Rm: "os_Remove (old_path (wPath w)) s
      = (if files s (old_path (wPath w)) = None then Some ErrNotExist else None, s\<lparr>files := (files s)(old_path (wPath w) := None)\<rparr>)"
    using assms(1) by (simp add: os_Remove_def fault_free fun_upd_idem)
  have "rotate w s = (None, w\<lparr>wFile := True, wDead := False, wSize := 0\<rparr>,
      s\<lparr>files := (files s)(old_path (wPath w) := Some cur, wPath w := Some [])\<rparr>)"
    using assms
    by (simp add: rotate_def file_Close_def plain_call_def fault_free Rm os_Rename_def os_OpenFile_def Let_def IsNotExist_def ErrNotExist_def fun_upd_twist)
  then show ?thesis
    using True assms
    by (auto simp: Write_def file_Write_def fault_free Let_def log_of_def append_record_def log_size_def)
next
  case False
  then show ?thesis
    using assms
    by (auto simp: Write_def file_Write_def fault_free Let_def log_of_def append_record_def log_size_def)
qed

lemma write_all_append:
  assumes "faults s = []" and "wFile w \<and> \<not> wDead w" and "files s (wPath w) \<noteq> None" and "wSize w = log_size s (wPath w)"
  shows "\<exists>w' s'. write_all ps w s = (map (\<lambda>p. (length p, None)) ps, w', s') \<and> (wFile w' \<and> \<not> wDead w')
     \<and> log_of w' s' = fold (append_record (wLimit w)) ps (log_of w s)"
  using assms
proof (induction ps arbitrary: w s)
  case (Cons p ps)
  obtain cur where c: "files s (wPath w) = Some cur" "wSize w = int (length cur)"
    using Cons.prems(3,4) by (auto simp: log_size_def)
  obtain w1 s1 where W: "Write p w s = (length p, None, w1, s1)" and 1: "wFile w1 \<and> \<not> wDead w1" "wPath w1 = wPath w" "wLimit w1 = wLimit w"
    "faults s1 = []" "files s1 (wPath w) \<noteq> None" "wSize w1 = log_size s1 (wPath w)"
    "log_of w1 s1 = append_record (wLimit w) p (log_of w s)"
    using Write_append [OF Cons.prems(1,2) c] by blast
  then show ?case
    using Cons.IH [of s1 w1] by auto
qed auto

section \<open>Properties\<close>

text \<open>
  Property C33. The log stays small. Whatever the two files hold when the log is opened, whatever records are written, and
  whatever calls of the file system fail on the way, neither the log nor its predecessor ever exceeds the limit or, when
  that is more, the longest record or what one of the files held at the start; and while the file is open the recorded size
  is its true length.
\<close>

theorem log_stays_within_limit:
  "case Open path limit s of
     (Inl e, s') \<Rightarrow> log_size s' path = log_size s path \<and> log_size s' (old_path path) = log_size s (old_path path)
   | (Inr w, s') \<Rightarrow>
       (case write_all ps w s' of
          (rs, w', s'') \<Rightarrow>
            (let B = fold max (map (int \<circ> length) ps) (max limit (max (log_size s path) (log_size s (old_path path))))
             in log_size s'' path \<le> B \<and> log_size s'' (old_path path) \<le> B)
            \<and> (if wFile w' then wSize w' = log_size s'' path else True))"
proof (cases "Open path limit s")
  case (Pair r s')
  define B where "B = fold max (map (int \<circ> length) ps) (max limit (max (log_size s path) (log_size s (old_path path))))"
  have "max limit (max (log_size s path) (log_size s (old_path path))) \<le> B" and B4: "\<forall>p \<in> set ps. int (length p) \<le> B"
    using fold_max_bounds unfolding B_def by (auto simp del: max.bounded_iff)
  then have B: "limit \<le> B" "log_size s path \<le> B" "log_size s (old_path path) \<le> B"
    by simp_all
  show ?thesis
  proof (cases r)
    case (Inl e)
    then show ?thesis using Pair Open_fail [of path limit s e s'] by simp
  next
    case (Inr w)
    note o = Open_inv [OF Pair [unfolded Inr] B(2,3)]
    obtain rs w' s'' where A: "write_all ps w s' = (rs, w', s'')" by (cases "write_all ps w s'")
    from write_all_inv [OF A o(1) _ B4] o(2,3) B(1) have "log_inv B w' s''" "wPath w' = path" by simp_all
    then show ?thesis using Pair Inr A by (simp add: log_inv_def B_def [symmetric])
  qed
qed

definition sample_fs :: fsys where
  "sample_fs = \<lparr>files = (\<lambda>p. if p = ''tray.log'' then Some [1, 2, 3] else None), faults = [None, None, None]\<rparr>"

lemma Open_clean:
  fixes s :: fsys and path :: string
  assumes "faults s = []"
  defines "s1 \<equiv> s\<lparr>files := (files s)(path := Some (case files s path of None \<Rightarrow> [] | Some bs \<Rightarrow> bs))\<rparr>"
  shows "Open path limit s = (Inr \<lparr>wPath = path, wLimit = limit, wFile = True, wDead = False, wSize = log_size s1 path\<rparr>, s1)"
proof -
  have "os_OpenFile path s = (None, s1)"
    using assms(1) by (cases "files s path") (simp_all add: os_OpenFile_def fault_free s1_def fun_upd_idem)
  moreover have "plain_call s = (None, s)" and "plain_call s1 = (None, s1)"
    using assms(1) by (simp_all add: plain_call_def fault_free s1_def)
  ultimately show ?thesis by (simp add: Open_def) (simp add: s1_def log_size_def)
qed

text \<open>
  Property C13. Without faults the writer implements the abstract log. Opened on a file with any contents, it writes every
  record whole, and the two files hold what appending the records one by one to those contents gives: a record that
  does not fit starts a new part, and the part before it is kept whole and in order (an older one is dropped).
\<close>

theorem writer_refines_log:
  assumes "faults s = []"
  shows "case Open path limit s of
     (Inl e, s1) \<Rightarrow> False
   | (Inr w, s1) \<Rightarrow>
       (case write_all ps w s1 of (rs, w', s') \<Rightarrow>
          rs = map (\<lambda>p. (length p, None)) ps \<and> wFile w'
          \<and> log_of w' s' = fold (append_record limit) ps
              (files s (old_path path), case files s path of None \<Rightarrow> [] | Some bs \<Rightarrow> bs))"
proof -
  define s1 where "s1 = s\<lparr>files := (files s)(path := Some (case files s path of None \<Rightarrow> [] | Some bs \<Rightarrow> bs))\<rparr>"
  define w where "w = \<lparr>wPath = path, wLimit = limit, wFile = True, wDead = False, wSize = log_size s1 path\<rparr>"
  have "Open path limit s = (Inr w, s1)"
    unfolding w_def s1_def by (rule Open_clean [OF assms])
  moreover have "log_of w s1 = (files s (old_path path), case files s path of None \<Rightarrow> [] | Some bs \<Rightarrow> bs)"
    by (simp add: log_of_def w_def s1_def)
  moreover have "faults s1 = []" "wFile w \<and> \<not> wDead w" "files s1 (wPath w) \<noteq> None" "wSize w = log_size s1 (wPath w)" "wLimit w = limit"
    using assms by (simp_all add: w_def s1_def)
  ultimately show ?thesis using write_all_append [of s1 w ps] by auto
qed

theorem writer_refines_log_witness:
  "case Open ''tray.log'' 5 (sample_fs\<lparr>faults := []\<rparr>) of
     (Inl e, s1) \<Rightarrow> False
   | (Inr w, s1) \<Rightarrow> (case write_all [[4, 5, 6], [7, 8]] w s1 of (rs, w', s') \<Rightarrow> log_of w' s' = (Some [1, 2, 3], [4, 5, 6, 7, 8]))"
proof -
  have f: "faults (sample_fs\<lparr>faults := []\<rparr>) = []" by simp
  have "fold (append_record 5) [[4, 5, 6], [7, 8]] (files sample_fs (old_path ''tray.log''),
      case files sample_fs ''tray.log'' of None \<Rightarrow> [] | Some bs \<Rightarrow> bs) = (Some [1, 2, 3], [4, 5, 6, 7, 8])"
    by code_simp
  then show ?thesis
    using writer_refines_log [OF f, where path = "''tray.log''" and limit = 5 and ps = "[[4, 5, 6], [7, 8]]"]
    by (auto split: prod.splits sum.splits)
qed

text \<open>
  Property C34. A rotation that fails half way silences the log. Whichever of its four calls fails once, the writer is
  left without an open file: every later record is refused with \<open>ErrClosed\<close> and lost, although no further call
  of the file system would fail. A single failing rename (another process holds the file open) is
  such a failure; the log file itself is still in place.
\<close>

theorem failed_rotation_silences_log:
  "(case rotate w s of
      (None, w', s') \<Rightarrow> wFile w' \<and> \<not> wDead w'
    | (Some e, w', s') \<Rightarrow>
        write_all ps w' (s'\<lparr>faults := []\<rparr>) = (map (\<lambda>_. (0, Some ErrClosed)) ps, w', s'\<lparr>faults := []\<rparr>))
   \<and> (case rotate (w\<lparr>wDead := False\<rparr>) (s\<lparr>faults := [None, None, Some (busy, n)]\<rparr>) of
        (r, w', s') \<Rightarrow> r = Some busy \<and> \<not> wFile w' \<and> files s' (wPath w) = files s (wPath w) \<and> faults s' = [])"
proof
  show "case rotate w s of
      (None, w', s') \<Rightarrow> wFile w' \<and> \<not> wDead w'
    | (Some e, w', s') \<Rightarrow>
        write_all ps w' (s'\<lparr>faults := []\<rparr>) = (map (\<lambda>_. (0, Some ErrClosed)) ps, w', s'\<lparr>faults := []\<rparr>)"
  proof (cases "rotate w s")
    case (fields r w' s')
    then show ?thesis
    proof (cases rule: rotate_cases)
      case stuck
      then show ?thesis using fields write_all_closed [of w'] by auto
    next
      case dead
      then show ?thesis using fields write_all_closed [of w'] by auto
    qed (use fields in auto)
  qed
  show "case rotate (w\<lparr>wDead := False\<rparr>) (s\<lparr>faults := [None, None, Some (busy, n)]\<rparr>) of
      (r, w', s') \<Rightarrow> r = Some busy \<and> \<not> wFile w' \<and> files s' (wPath w) = files s (wPath w) \<and> faults s' = []"
    by (simp add: rotate_def file_Close_def plain_call_def os_Remove_def os_Rename_def fault_def Let_def IsNotExist_def)
qed

end
