(* ===== verification/CmdLine.thy ===== *)
theory CmdLine
  imports GoStrings
begin

text \<open>
  The functions of Go's standard library that carry a command line: \<open>syscall.EscapeArg\<close>, with which
  \<open>startup_windows.go\<close> writes the arguments of the scheduled task; the splitting of a Windows command line
  into \<open>os.Args\<close>; and \<open>flag.Parse\<close> for the three flags of \<open>main.go\<close>.
\<close>

section \<open>EscapeArg\<close>

abbreviation quote :: char where "quote \<equiv> CHR 0x22"
abbreviation backslash :: char where "backslash \<equiv> CHR 0x5c"

definition blank :: "char \<Rightarrow> bool" where
  "blank c \<longleftrightarrow> c = CHR 0x20 \<or> c = CHR 0x09"

text \<open>The loop, with the number of backslashes just written; its result has that number at the end.\<close>

fun escape_loop :: "nat \<Rightarrow> string \<Rightarrow> string \<times> nat" where
  "escape_loop slashes [] = ([], slashes)"
| "escape_loop slashes (c # s) =
     (if c = backslash then (case escape_loop (slashes + 1) s of (b, n) \<Rightarrow> (c # b, n))
      else if c = quote then
        (case escape_loop 0 s of (b, n) \<Rightarrow> (replicate slashes backslash @ [backslash, c] @ b, n))
      else (case escape_loop 0 s of (b, n) \<Rightarrow> (c # b, n)))"

definition EscapeArg :: "string \<Rightarrow> string" where
  "EscapeArg s =
     (if s = [] then [quote, quote]
      else
        let needsBackslash = list_ex (\<lambda>c. c = quote \<or> c = backslash) s;
            hasSpace = list_ex blank s
        in if \<not> needsBackslash \<and> \<not> hasSpace then s
           else if \<not> needsBackslash then [quote] @ s @ [quote]
           else
             (case escape_loop 0 s of
                (b, slashes) \<Rightarrow>
                  if hasSpace then [quote] @ b @ replicate slashes backslash @ [quote] else b))"

section \<open>Splitting a command line\<close>

text \<open>\<open>readNextArg\<close>: what has been read of the argument, whether within quotes, and the backslashes not yet written.\<close>

fun readNextArg :: "string \<Rightarrow> bool \<Rightarrow> nat \<Rightarrow> string \<Rightarrow> string \<times> string" where
  "readNextArg b inquote nslash [] = (b @ replicate nslash backslash, [])"
| "readNextArg b inquote nslash (c # cmd) =
     (if blank c \<and> \<not> inquote then (b @ replicate nslash backslash, cmd)
      else if c = quote then
        let b = b @ replicate (nslash div 2) backslash in
        if nslash mod 2 = 0 then
          (case cmd of
             c' # cmd' \<Rightarrow>
               if inquote \<and> c' = quote then readNextArg (b @ [c]) (\<not> inquote) 0 cmd'
               else readNextArg b (\<not> inquote) 0 cmd
           | [] \<Rightarrow> readNextArg b (\<not> inquote) 0 cmd)
        else readNextArg (b @ [c]) inquote 0 cmd
      else if c = backslash then readNextArg b inquote (nslash + 1) cmd
      else readNextArg (b @ replicate nslash backslash @ [c]) inquote 0 cmd)"

declare readNextArg.simps(2) [simp del]

lemma readNextArg_shorter: "length (snd (readNextArg b q n cmd)) \<le> length cmd - 1"
proof (induction "length cmd" arbitrary: b q n cmd rule: less_induct)
  case less
  show ?case
  proof (cases cmd)
    case (Cons c t)
    have ih: "length (snd (readNextArg b q n u)) \<le> length t" if "length u \<le> length t" for b q n u
      using less [of u b q n] that Cons by simp
    have dbl: "length (snd (case t of [] \<Rightarrow> readNextArg b q 0 t
        | d # u \<Rightarrow> if p \<and> d = quote then readNextArg b' q 0 u else readNextArg b q 0 t)) \<le> length t" for b b' p q
      using ih by (cases t) (simp_all del: readNextArg.simps)
    have "length (snd (readNextArg b q n (c # t))) \<le> length t"
      unfolding readNextArg.simps(2) Let_def
      by (cases "blank c \<and> \<not> q"; cases "c = quote"; cases "n mod 2 = 0"; cases "c = backslash")
        (simp_all del: readNextArg.simps add: ih dbl)
    then show ?thesis using Cons by simp
  qed simp
qed

lemma readNextArg_rest: "(arg, rest) = readNextArg [] False 0 (c # cs) \<Longrightarrow> length rest < Suc (length cs)"
  using readNextArg_shorter [of "[]" False 0 "c # cs"] by (metis snd_conv length_Cons diff_Suc_1 le_imp_less_Suc)

function commandLineToArgv :: "string \<Rightarrow> string list" where
  "commandLineToArgv cmd =
     (case cmd of
        [] \<Rightarrow> []
      | c # cs \<Rightarrow>
          if blank c then commandLineToArgv cs
          else (case readNextArg [] False 0 cmd of (arg, rest) \<Rightarrow> arg # commandLineToArgv rest))"
  by pat_completeness auto
termination
  by (relation "measure length") (auto dest: readNextArg_rest)

declare commandLineToArgv.simps [simp del]

section \<open>The flags\<close>

text \<open>\<open>strconv.ParseBool\<close>.\<close>

definition ParseBool :: "string \<Rightarrow> bool option" where
  "ParseBool s =
     (if s \<in> {''1'', ''t'', ''T'', ''TRUE'', ''true'', ''True''} then Some True
      else if s \<in> {''0'', ''f'', ''F'', ''FALSE'', ''false'', ''False''} then Some False
      else None)"

record flags =
  vConfig :: "string option"
  vAutologin :: bool
  vStartup :: string

definition default_flags :: flags where
  "default_flags = \<lparr>vConfig = None, vAutologin = True, vStartup = []\<rparr>"

text \<open>The name and the value after the first \<open>=\<close>, which is not at the front.\<close>

definition cut_value :: "string \<Rightarrow> string \<times> string option" where
  "cut_value name =
     (let n = takeWhile (\<lambda>c. c \<noteq> CHR ''='') name in
      (n, if length n < length name then Some (drop (length n + 1) name) else None))"

text \<open>
  \<open>parseOne\<close>: there is no flag to read, the process exits, or a flag has been read and these arguments are left.
\<close>

datatype parse_step = Stop | Exit int | Next flags "string list"

definition parseOne :: "string list \<Rightarrow> flags \<Rightarrow> parse_step" where
  "parseOne args f =
     (case args of
        [] \<Rightarrow> Stop
      | s # args \<Rightarrow>
          if length s < 2 \<or> s ! 0 \<noteq> CHR ''-'' then Stop
          else if s = ''--'' then Stop
          else
            let name = drop (if s ! 1 = CHR ''-'' then 2 else 1) s in
            if name = [] \<or> name ! 0 = CHR ''-'' \<or> name ! 0 = CHR ''='' then Exit 2
            else
              (case cut_value name of (name, given) \<Rightarrow>
                 if name = ''autologin'' then
                   (case (case given of None \<Rightarrow> Some True | Some v \<Rightarrow> ParseBool v) of
                      None \<Rightarrow> Exit 2
                    | Some b \<Rightarrow> Next (f\<lparr>vAutologin := b\<rparr>) args)
                 else if name = ''config'' \<or> name = ''startup'' then
                   (let set = (\<lambda>v. if name = ''config'' then f\<lparr>vConfig := Some v\<rparr> else f\<lparr>vStartup := v\<rparr>) in
                    case given of
                      Some v \<Rightarrow> Next (set v) args
                    | None \<Rightarrow> (case args of [] \<Rightarrow> Exit 2 | v # args \<Rightarrow> Next (set v) args))
                 else if name = ''help'' \<or> name = ''h'' then Exit 0
                 else Exit 2))"

text \<open>It exits with 0 or 2, and otherwise leaves fewer arguments.\<close>

definition step_ok :: "nat \<Rightarrow> parse_step \<Rightarrow> bool" where
  "step_ok n r \<longleftrightarrow> (case r of Stop \<Rightarrow> True | Exit c \<Rightarrow> c \<in> {0, 2} | Next _ rest \<Rightarrow> length rest < n)"

lemma step_ok_intros:
  "step_ok n Stop" "step_ok n (Exit 0)" "step_ok n (Exit 2)" "length rest < n \<Longrightarrow> step_ok n (Next f rest)"
  "step_ok n x \<Longrightarrow> step_ok n y \<Longrightarrow> step_ok n (if b then x else y)"
  "step_ok n x \<Longrightarrow> (\<And>v. step_ok n (h v)) \<Longrightarrow> step_ok n (case ob of None \<Rightarrow> x | Some v \<Rightarrow> h v)"
  "(\<And>a b. step_ok n (k a b)) \<Longrightarrow> step_ok n (case p of (a, b) \<Rightarrow> k a b)"
  "(as = [] \<Longrightarrow> step_ok n x) \<Longrightarrow> (\<And>v vs. as = v # vs \<Longrightarrow> step_ok n (l v vs)) \<Longrightarrow> step_ok n (case as of [] \<Rightarrow> x | v # vs \<Rightarrow> l v vs)"
  by (simp_all add: step_ok_def split: option.split prod.split list.split)

lemma parseOne_cases: "step_ok (length args) (parseOne args f)"
  unfolding parseOne_def Let_def by (intro step_ok_intros) simp_all

text \<open>\<open>flag.Parse\<close>: the flags, or the code with which the process exits.\<close>

function flag_Parse :: "string list \<Rightarrow> flags \<Rightarrow> int + flags" where
  "flag_Parse args f =
     (case parseOne args f of
        Stop \<Rightarrow> Inr f
      | Exit code \<Rightarrow> Inl code
      | Next f args \<Rightarrow> flag_Parse args f)"
  by pat_completeness auto
termination
proof (relation "measure (\<lambda>(args, f). length args)")
  fix args f f' rest
  assume "parseOne args f = Next f' rest"
  then show "((rest, f'), (args, f)) \<in> measure (\<lambda>(args, f). length args)"
    using parseOne_cases [of args f] by (simp add: step_ok_def)
qed simp

declare flag_Parse.simps [simp del]

lemma flag_Parse_code: "flag_Parse args f = Inl c \<Longrightarrow> c \<in> {0, 2}"
proof (induction args f rule: flag_Parse.induct)
  case (1 args f)
  then show ?case
    using parseOne_cases [of args f] by (simp add: flag_Parse.simps [of args f] step_ok_def split: parse_step.splits)
qed

section \<open>Facts\<close>

text \<open>At the end of the line, or before a blank.\<close>

definition ends :: "string \<Rightarrow> bool" where
  "ends t \<longleftrightarrow> (case t of [] \<Rightarrow> True | c # _ \<Rightarrow> blank c)"

text \<open>The splitting, one character at a time.\<close>

lemma read_end: "ends t \<Longrightarrow> readNextArg b False n t = (b @ replicate n backslash, tl t)"
  by (cases t) (simp_all add: ends_def readNextArg.simps(2))

lemma read_steps:
  "readNextArg b q n (backslash # t) = readNextArg b q (Suc n) t"
  "odd n \<Longrightarrow> readNextArg b q n (quote # t) = readNextArg (b @ replicate (n div 2) backslash @ [quote]) q 0 t"
  "even n \<Longrightarrow> readNextArg b False n (quote # t) = readNextArg (b @ replicate (n div 2) backslash) True 0 t"
  "c \<noteq> quote \<Longrightarrow> c \<noteq> backslash \<Longrightarrow> q \<or> \<not> blank c \<Longrightarrow>
     readNextArg b q n (c # t) = readNextArg (b @ replicate n backslash @ [c]) q 0 t"
  by (auto simp: readNextArg.simps(2) [of _ _ _ quote t] readNextArg.simps(2) [of _ _ _ backslash t]
      readNextArg.simps(2) [of _ _ _ c t] blank_def Let_def even_iff_mod_2_eq_zero odd_iff_mod_2_eq_one split: list.split)

lemma read_close:
  "even n \<Longrightarrow> ends t \<Longrightarrow> readNextArg b True n (quote # t) = readNextArg (b @ replicate (n div 2) backslash) False 0 t"
  by (auto simp: readNextArg.simps(2) [of _ _ _ quote t] blank_def ends_def Let_def even_iff_mod_2_eq_zero split: list.split)

lemma read_slashes: "readNextArg b q n (replicate k backslash @ t) = readNextArg b q (n + k) t"
  by (induction k arbitrary: n) (simp_all add: read_steps)

text \<open>
  Splitting undoes the loop: after \<open>k\<close> pending backslashes and the escaped text, what is read and the
  pending backslashes are the text.
\<close>

lemma read_escaped:
  assumes "q \<or> \<not> list_ex blank s"
  shows "\<exists>b'. readNextArg b q k (fst (escape_loop k s) @ t) = readNextArg b' q (snd (escape_loop k s)) t
    \<and> b' @ replicate (snd (escape_loop k s)) backslash = b @ replicate k backslash @ s"
  using assms
proof (induction s arbitrary: b k)
  case (Cons c s)
  then have ih: "q \<or> \<not> list_ex blank s" and c: "q \<or> \<not> blank c" by auto
  consider "c = backslash" | "c = quote" | "c \<noteq> backslash" "c \<noteq> quote" by blast
  then show ?case
  proof cases
    case 1
    obtain e n where E: "escape_loop (k + 1) s = (e, n)" by (rule prod.exhaust)
    show ?thesis
      using Cons.IH [OF ih, of b "k + 1"] E 1 by (simp add: read_steps replicate_app_Cons_same)
  next
    case 2
    obtain e n where E: "escape_loop 0 s = (e, n)" by (rule prod.exhaust)
    obtain b' where b': "readNextArg (b @ replicate k backslash @ [quote]) q 0 (e @ t) = readNextArg b' q n t"
      "b' @ replicate n backslash = b @ replicate k backslash @ [quote] @ s"
      using Cons.IH [OF ih, of "b @ replicate k backslash @ [quote]" 0] by (auto simp: E)
    have "readNextArg b q k (replicate k backslash @ backslash # quote # e @ t)
        = readNextArg b q (Suc (k + k)) (quote # e @ t)"
      by (simp add: read_slashes read_steps(1))
    also have "\<dots> = readNextArg (b @ replicate k backslash @ [quote]) q 0 (e @ t)"
      using read_steps(2) [of "Suc (k + k)"] by simp
    finally show ?thesis using b' by (intro exI [of _ b']) (simp add: E 2)
  next
    case 3
    obtain e n where E: "escape_loop 0 s = (e, n)" by (rule prod.exhaust)
    show ?thesis
      using Cons.IH [OF ih, of "b @ replicate k backslash @ [c]" 0] E 3 c by (simp add: read_steps(4))
  qed
qed simp

lemma escape_loop_plain: "\<not> list_ex (\<lambda>c. c = quote \<or> c = backslash) s \<Longrightarrow> escape_loop 0 s = (s, 0)"
  by (induction s) auto

lemma read_quoted:
  assumes "ends t"
  shows "readNextArg [] False 0
    (quote # fst (escape_loop 0 s) @ replicate (snd (escape_loop 0 s)) backslash @ quote # t) = (s, tl t)"
proof -
  let ?n = "snd (escape_loop 0 s)"
  obtain b where b: "readNextArg [] True 0 (fst (escape_loop 0 s) @ replicate ?n backslash @ quote # t)
      = readNextArg b True ?n (replicate ?n backslash @ quote # t)" "b @ replicate ?n backslash = s"
    using read_escaped [of True s "[]" 0] by auto
  have "readNextArg b True ?n (replicate ?n backslash @ quote # t) = readNextArg b True (?n + ?n) (quote # t)"
    by (rule read_slashes)
  also have "\<dots> = (s, tl t)" using read_close [OF _ assms, of "?n + ?n"] read_end [OF assms] b(2) by simp
  finally show ?thesis using b(1) by (simp add: read_steps(3))
qed

text \<open>An escaped argument is read back as it was.\<close>

lemma EscapeArg_read:
  assumes "ends t"
  shows "readNextArg [] False 0 (EscapeArg s @ t) = (s, tl t)"
proof -
  note q = read_quoted [OF assms, of s]
  have b: "readNextArg [] False 0 (fst (escape_loop 0 s) @ t) = (s, tl t)" if "\<not> list_ex blank s"
    using read_escaped [of False s "[]" 0 t] read_end [OF assms] that by auto
  consider "s = []" | "s \<noteq> []" "list_ex (\<lambda>c. c = quote \<or> c = backslash) s" | "s \<noteq> []" "\<not> list_ex (\<lambda>c. c = quote \<or> c = backslash) s"
    by blast
  then show ?thesis
  proof cases
    case 2
    then show ?thesis
      using q b by (cases "escape_loop 0 s") (auto simp: EscapeArg_def Let_def)
  next
    case 3
    then show ?thesis
      using q b by (auto simp: EscapeArg_def Let_def escape_loop_plain)
  qed (use q in \<open>simp add: EscapeArg_def\<close>)
qed

lemma argv_word:
  assumes "w \<noteq> []" and "\<not> list_ex (\<lambda>c. blank c \<or> c = quote \<or> c = backslash) w" and "ends t"
  shows "commandLineToArgv (w @ t) = w # commandLineToArgv (tl t)"
proof -
  have "EscapeArg w = w"
  proof -
    have "\<not> list_ex (\<lambda>c. c = quote \<or> c = backslash) w" "\<not> list_ex blank w"
      using assms(2) by (auto simp: list_ex_iff)
    then show ?thesis using assms(1) by (simp add: EscapeArg_def)
  qed
  then have "readNextArg [] False 0 (w @ t) = (w, tl t)" using EscapeArg_read [OF assms(3), of w] by simp
  then show ?thesis
    using assms(1,2) by (cases w) (simp_all add: commandLineToArgv.simps [of "x # xs" for x xs])
qed

lemma EscapeArg_head: "\<exists>c cs. EscapeArg s = c # cs \<and> \<not> blank c"
proof (cases "list_ex blank s \<or> s = []")
  case True
  then show ?thesis by (cases "escape_loop 0 s") (auto simp: EscapeArg_def Let_def blank_def)
next
  case False
  then obtain c cs where "s = c # cs" "\<not> blank c" by (cases s) auto
  then show ?thesis
    using False by (cases "escape_loop 0 cs"; cases "escape_loop 1 cs") (auto simp: EscapeArg_def Let_def blank_def)
qed

lemma argv_escaped:
  assumes "ends t"
  shows "commandLineToArgv (EscapeArg s @ t) = s # commandLineToArgv (tl t)"
proof -
  obtain c cs where "EscapeArg s = c # cs" "\<not> blank c" using EscapeArg_head by blast
  then show ?thesis
    using EscapeArg_read [OF assms, of s] by (simp add: commandLineToArgv.simps [of "x # xs" for x xs])
qed

end
