(* ===== verification/Startup.thy ===== *)
theory Startup
  imports CmdLine
begin

text \<open>
  \<open>internal/trayapp/startup_windows.go\<close>: starting with Windows, by a task of the Task Scheduler, and
  the \<open>Run\<close> value of the registry that earlier versions left behind. The state is the task and the
  value; every call into the system takes one entry of a list of faults.
\<close>

unbundle bit_operations_syntax

section \<open>The system\<close>

text \<open>
  A scheduled task: whether it is enabled, and the program, arguments and directory of its action. \<open>tTask\<close> is
  the task of the user, if there is one; \<open>tRun\<close> is the registry value with its type and data, \<open>tKey\<close> says whether
  its key exists, \<open>tHandles\<close> counts the open handles on it; \<open>tExe\<close>, \<open>tAbs\<close> and \<open>tDirOf\<close> are
  the answers of \<open>os.Executable\<close>, \<open>filepath.Abs\<close> and \<open>filepath.Dir\<close>. A fault is a non-zero error code, and for the
  script whether it strikes after the script has done its work.
\<close>

record task =
  tEnabled :: bool
  tExecute :: string
  tArgument :: string
  tWorkDir :: string

record winsys =
  tTask :: "task option"
  tKey :: bool
  tRun :: "(32 word \<times> 16 word list) option"
  tHandles :: nat
  tExe :: "err + string"
  tAbs :: "string \<Rightarrow> err + string"
  tDirOf :: "string \<Rightarrow> string"
  tFaults :: "(32 word \<times> bool) option list"

definition win_fault :: "winsys \<Rightarrow> (32 word \<times> bool) option \<times> winsys" where
  "win_fault s =
     (case tFaults s of
        [] \<Rightarrow> (None, s)
      | f # fs \<Rightarrow> (case f of Some (n, late) \<Rightarrow> if n = 0 then None else Some (n, late) | None \<Rightarrow> None, s\<lparr>tFaults := fs\<rparr>))"

definition keyQueryValue :: "32 word" where "keyQueryValue = 1"
definition keySetValue :: "32 word" where "keySetValue = 2"
definition errorFileNotFound :: "32 word" where "errorFileNotFound = 2"
definition errorAccessDenied :: "32 word" where "errorAccessDenied = 5"
definition regSz :: "32 word" where "regSz = 1"

text \<open>A \<open>syscall.Errno\<close> as an error value.\<close>

definition errno :: "32 word \<Rightarrow> err" where
  "errno n = OsError (''errno '' @ dec (unat n))"

section \<open>UTF-16\<close>

definition put_utf8 :: "nat \<Rightarrow> string" where
  "put_utf8 r =
     (if r < 0x80 then [char_of r]
      else if r < 0x800 then [char_of (0xc0 + r div 64), char_of (0x80 + r mod 64)]
      else if r < 0x10000
      then [char_of (0xe0 + r div 4096), char_of (0x80 + r div 64 mod 64), char_of (0x80 + r mod 64)]
      else [char_of (0xf0 + r div 262144), char_of (0x80 + r div 4096 mod 64),
            char_of (0x80 + r div 64 mod 64), char_of (0x80 + r mod 64)])"

fun utf16_decode :: "nat list \<Rightarrow> string" where
  "utf16_decode [] = []"
| "utf16_decode (a # s) =
     (case s of
        b # s' \<Rightarrow>
          if 0xd800 \<le> a \<and> a < 0xdc00 \<and> 0xdc00 \<le> b \<and> b < 0xe000
          then put_utf8 (0x10000 + (a - 0xd800) * 1024 + (b - 0xdc00)) @ utf16_decode s'
          else put_utf8 a @ utf16_decode s
      | [] \<Rightarrow> put_utf8 a)"

text \<open>\<open>syscall.UTF16ToString\<close>: up to the first NUL.\<close>

definition UTF16ToString :: "16 word list \<Rightarrow> string" where
  "UTF16ToString s = utf16_decode (map unat (takeWhile (\<lambda>w. w \<noteq> 0) s))"

text \<open>
  \<open>syscall.UTF16FromString\<close>: an error for a string with a NUL, else the UTF-16 of its code points with a
  NUL at the end. Encoded surrogates are kept; other bytes that are no UTF-8 become the replacement character.
\<close>

fun utf8_runes :: "nat list \<Rightarrow> nat list" where
  "utf8_runes [] = []"
| "utf8_runes (a # s) =
     (let tail = (\<lambda>b. 0x80 \<le> b \<and> b < 0xc0) in
      if a < 0x80 then a # utf8_runes s
      else case s of
        b # s1 \<Rightarrow>
          if 0xc2 \<le> a \<and> a < 0xe0 \<and> tail b then ((a - 0xc0) * 64 + (b - 0x80)) # utf8_runes s1
          else (case s1 of
            c # s2 \<Rightarrow>
              if 0xe0 \<le> a \<and> a < 0xf0 \<and> tail b \<and> tail c \<and> (a = 0xe0 \<longrightarrow> 0xa0 \<le> b)
              then ((a - 0xe0) * 4096 + (b - 0x80) * 64 + (c - 0x80)) # utf8_runes s2
              else (case s2 of
                d # s3 \<Rightarrow>
                  if 0xf0 \<le> a \<and> a < 0xf5 \<and> tail b \<and> tail c \<and> tail d
                    \<and> (a = 0xf0 \<longrightarrow> 0x90 \<le> b) \<and> (a = 0xf4 \<longrightarrow> b < 0x90)
                  then ((a - 0xf0) * 262144 + (b - 0x80) * 4096 + (c - 0x80) * 64 + (d - 0x80)) # utf8_runes s3
                  else 0xfffd # utf8_runes s
              | [] \<Rightarrow> 0xfffd # utf8_runes s)
          | [] \<Rightarrow> 0xfffd # utf8_runes s)
      | [] \<Rightarrow> [0xfffd])"

definition utf16_encode :: "nat \<Rightarrow> 16 word list" where
  "utf16_encode r =
     (if r < 0x10000 then [of_nat r]
      else [of_nat (0xd800 + (r - 0x10000) div 1024), of_nat (0xdc00 + (r - 0x10000) mod 1024)])"

definition UTF16FromString :: "string \<Rightarrow> err + 16 word list" where
  "UTF16FromString s =
     (if CHR 0x00 \<in> set s then Inl (OsError ''invalid argument'')
      else Inr (concat (map utf16_encode (utf8_runes (map code_of s))) @ [0]))"

section \<open>The registry\<close>

text \<open>
  A handle is the access it was opened with; the system refuses a call that the access does not allow. The key
  is always \<open>startupRunKey\<close>, the value \<open>startupValueName\<close>; their names are valid, so that \<open>UTF16PtrFromString\<close>
  has no error.
\<close>

definition openKey :: "32 word \<Rightarrow> winsys \<Rightarrow> (32 word + 32 word) \<times> winsys" where
  "openKey access s =
     (case win_fault s of
        (Some (n, _), s) \<Rightarrow> (Inl n, s)
      | (None, s) \<Rightarrow>
          if tKey s then (Inr access, s\<lparr>tHandles := tHandles s + 1\<rparr>) else (Inl errorFileNotFound, s))"

definition createKey :: "winsys \<Rightarrow> (32 word + 32 word) \<times> winsys" where
  "createKey s =
     (case win_fault s of
        (Some (n, _), s) \<Rightarrow> (Inl n, s)
      | (None, s) \<Rightarrow> (Inr keySetValue, s\<lparr>tKey := True, tHandles := tHandles s + 1\<rparr>))"

definition closeKey :: "winsys \<Rightarrow> winsys" where
  "closeKey s = s\<lparr>tHandles := tHandles s - 1\<rparr>"

text \<open>\<open>RegQueryValueExW\<close>: an error code, or the type and the data of the value.\<close>

definition query_value :: "32 word \<Rightarrow> winsys \<Rightarrow> (32 word + 32 word \<times> 16 word list) \<times> winsys" where
  "query_value key s =
     (case win_fault s of
        (Some (n, _), s) \<Rightarrow> (Inl n, s)
      | (None, s) \<Rightarrow>
          (if key AND keyQueryValue = 0 then Inl errorAccessDenied
           else case tRun s of None \<Rightarrow> Inl errorFileNotFound | Some v \<Rightarrow> Inr v, s))"

text \<open>\<open>readStartupValue\<close> after the key is open; the handle is closed on every way out.\<close>

definition read_value :: "32 word \<Rightarrow> winsys \<Rightarrow> (err + string) \<times> winsys" where
  "read_value key s =
     (case query_value key s of
        (Inl n, s) \<Rightarrow> (Inl (errno n), s)
      | (Inr (typ, data), s) \<Rightarrow>
          if typ \<noteq> regSz \<or> 2 * length data = 0
          then (Inl (Errorf ''unexpected startup registry value type''), s)
          else
            (case query_value key s of
               (Inl n, s) \<Rightarrow> (Inl (errno n), s)
             | (Inr (_, data), s) \<Rightarrow> (Inr (UTF16ToString data), s)))"

definition readStartupValue :: "winsys \<Rightarrow> (err + string) \<times> winsys" where
  "readStartupValue s =
     (case openKey keyQueryValue s of
        (Inl n, s) \<Rightarrow> (Inl (errno n), s)
      | (Inr key, s) \<Rightarrow> (case read_value key s of (r, s) \<Rightarrow> (r, closeKey s)))"

definition legacyStartupEnabled :: "winsys \<Rightarrow> bool \<times> winsys" where
  "legacyStartupEnabled s =
     (case readStartupValue s of
        (Inl _, s) \<Rightarrow> (False, s)
      | (Inr value, s) \<Rightarrow> (TrimSpace value \<noteq> [], s))"

text \<open>\<open>RegSetValueExW\<close>: the size in bytes is 32 bits wide.\<close>

definition set_value :: "32 word \<Rightarrow> 16 word list \<Rightarrow> winsys \<Rightarrow> err option \<times> winsys" where
  "set_value key value s = (
     let size = (of_nat (length value * 2) :: 32 word) in
     case win_fault s of
       (Some (n, _), s) \<Rightarrow> (Some (errno n), s)
     | (None, s) \<Rightarrow>
         if key AND keySetValue = 0 then (Some (errno errorAccessDenied), s)
         else (None, s\<lparr>tRun := Some (regSz, take (unat size div 2) value)\<rparr>))"

definition writeStartupValue :: "string \<Rightarrow> winsys \<Rightarrow> err option \<times> winsys" where
  "writeStartupValue command s =
     (case createKey s of
        (Inl n, s) \<Rightarrow> (Some (errno n), s)
      | (Inr key, s) \<Rightarrow>
          (case UTF16FromString command of
             Inl e \<Rightarrow> (Some e, closeKey s)
           | Inr value \<Rightarrow> (case set_value key value s of (r, s) \<Rightarrow> (r, closeKey s))))"

definition delete_value :: "32 word \<Rightarrow> winsys \<Rightarrow> err option \<times> winsys" where
  "delete_value key s =
     (case win_fault s of
        (Some (n, _), s) \<Rightarrow> (if n \<noteq> errorFileNotFound then Some (errno n) else None, s)
      | (None, s) \<Rightarrow>
          if key AND keySetValue = 0 then (Some (errno errorAccessDenied), s) else (None, s\<lparr>tRun := None\<rparr>))"

definition deleteStartupValue :: "winsys \<Rightarrow> err option \<times> winsys" where
  "deleteStartupValue s =
     (case openKey keySetValue s of
        (Inl n, s) \<Rightarrow> (if n = errorFileNotFound then None else Some (errno n), s)
      | (Inr key, s) \<Rightarrow> (case delete_value key s of (r, s) \<Rightarrow> (r, closeKey s)))"

section \<open>The scheduled task\<close>

text \<open>
  The script, by the value of \<open>DRCOM_STARTUP_MODE\<close>: its output and its effect; \<open>None\<close> is its \<open>throw\<close>.
  \<open>action\<close> is the task that the other variables describe.
\<close>

definition startupScript :: "string \<Rightarrow> task \<Rightarrow> task option \<Rightarrow> (string \<times> task option) option" where
  "startupScript mode action task =
     (if mode = ''query'' then
        Some (case task of None \<Rightarrow> [] | Some t \<Rightarrow> if tEnabled t then ''enabled'' else [], task)
      else if mode = ''disable'' then Some ([], None)
      else if mode = ''enable'' then Some ([], Some action)
      else None)"

definition startup_args :: "string \<Rightarrow> string" where
  "startup_args path = ''-config '' @ EscapeArg path @ '' -autologin''"

definition runStartupTask :: "string \<Rightarrow> string \<Rightarrow> winsys \<Rightarrow> (err + string) \<times> winsys" where
  "runStartupTask mode configPath s =
     (case tExe s of
        Inl e \<Rightarrow> (Inl e, s)
      | Inr exe \<Rightarrow>
          (case tAbs s configPath of
             Inl e \<Rightarrow> (Inl e, s)
           | Inr path \<Rightarrow>
               let action = \<lparr>tEnabled = True, tExecute = exe, tArgument = startup_args path, tWorkDir = tDirOf s exe\<rparr> in
               (case win_fault s of
                  (f, s) \<Rightarrow>
                    (case startupScript mode action (tTask s) of
                       None \<Rightarrow> (Inl (Wrapf (''startup task '' @ mode) (OsError ''exit status 1'')), s)
                     | Some (output, task) \<Rightarrow>
                         (case f of
                            Some (n, late) \<Rightarrow>
                              (Inl (Wrapf (''startup task '' @ mode) (errno n)), if late then s\<lparr>tTask := task\<rparr> else s)
                          | None \<Rightarrow> (Inr (TrimSpace output), s\<lparr>tTask := task\<rparr>))))))"

definition ConfigureStartup :: "string \<Rightarrow> string \<Rightarrow> winsys \<Rightarrow> err option \<times> winsys" where
  "ConfigureStartup mode configPath s =
     (if mode \<noteq> ''enable'' \<and> mode \<noteq> ''disable'' then (Some (Errorf ''startup must be enable or disable''), s)
      else
        case runStartupTask mode configPath s of
          (Inl e, s) \<Rightarrow> (Some e, s)
        | (Inr _, s) \<Rightarrow> deleteStartupValue s)"

text \<open>What \<open>refreshStartup\<close> finds out, with the migration of the old value.\<close>

definition startup_state :: "string \<Rightarrow> winsys \<Rightarrow> bool \<times> err option \<times> winsys" where
  "startup_state configPath s =
     (case runStartupTask ''query'' configPath s of
        (r, s) \<Rightarrow>
          let value = (case r of Inl _ \<Rightarrow> [] | Inr v \<Rightarrow> v);
              err = (case r of Inl e \<Rightarrow> Some e | Inr _ \<Rightarrow> None)
          in case (if value = ''enabled'' then (True, s) else legacyStartupEnabled s) of
            (enabled, s) \<Rightarrow>
              if err = None then
                (case legacyStartupEnabled s of
                   (True, s) \<Rightarrow> (case ConfigureStartup ''enable'' configPath s of (err, s) \<Rightarrow> (enabled, err, s))
                 | (False, s) \<Rightarrow> (enabled, None, s))
              else (enabled, err, s))"

section \<open>Facts\<close>

text \<open>
  \<open>kept s s'\<close>: no handle is left open, and what the program cannot change has not changed. Only the task and the
  value are ever written; reading writes nothing.
\<close>

definition kept :: "winsys \<Rightarrow> winsys \<Rightarrow> bool" where
  "kept s s' \<longleftrightarrow> tHandles s' = tHandles s \<and> tExe s' = tExe s \<and> tAbs s' = tAbs s \<and> tDirOf s' = tDirOf s"

lemma kept_refl [simp]: "kept s s"
  by (simp add: kept_def)

lemma kept_trans: "kept s t \<Longrightarrow> kept t u \<Longrightarrow> kept s u"
  by (simp add: kept_def)

lemma win_fault_frame:
  "win_fault s = (f, s') \<Longrightarrow> \<exists>fs. s' = s\<lparr>tFaults := fs\<rparr>"
  by (cases "tFaults s") (auto simp: win_fault_def intro: exI [of _ "tFaults s"])

lemma openKey_frame:
  "openKey a s = (r, s') \<Longrightarrow> \<exists>fs. s' = s\<lparr>tFaults := fs, tHandles := tHandles s + (case r of Inl _ \<Rightarrow> 0 | Inr _ \<Rightarrow> 1)\<rparr>"
  by (auto simp: openKey_def split: prod.splits option.splits if_splits dest!: win_fault_frame)

lemma query_value_frame: "query_value k s = (r, s') \<Longrightarrow> \<exists>fs. s' = s\<lparr>tFaults := fs\<rparr>"
  by (auto simp: query_value_def split: prod.splits option.splits if_splits dest!: win_fault_frame)

lemma read_value_frame: "read_value k s = (r, s') \<Longrightarrow> \<exists>fs. s' = s\<lparr>tFaults := fs\<rparr>"
  by (auto simp: read_value_def split: prod.splits sum.splits if_splits dest!: query_value_frame)

lemma readStartupValue_frame: "readStartupValue s = (r, s') \<Longrightarrow> \<exists>fs. s' = s\<lparr>tFaults := fs\<rparr>"
  by (auto simp: readStartupValue_def closeKey_def split: prod.splits sum.splits
      dest!: openKey_frame read_value_frame)

lemma legacy_frame: "legacyStartupEnabled s = (r, s') \<Longrightarrow> \<exists>fs. s' = s\<lparr>tFaults := fs\<rparr>"
  by (auto simp: legacyStartupEnabled_def split: prod.splits sum.splits dest!: readStartupValue_frame)

lemma delete_value_frame:
  "delete_value k s = (r, s') \<Longrightarrow> \<exists>fs. s' = s\<lparr>tFaults := fs\<rparr> \<or> r = None \<and> s' = s\<lparr>tFaults := fs, tRun := None\<rparr>"
  by (auto simp: delete_value_def split: prod.splits option.splits if_splits dest!: win_fault_frame)

lemma deleteStartupValue_frame:
  "deleteStartupValue s = (r, s') \<Longrightarrow>
     \<exists>fs. s' = s\<lparr>tFaults := fs\<rparr> \<or> r = None \<and> s' = s\<lparr>tFaults := fs, tRun := None\<rparr>"
  by (auto simp: deleteStartupValue_def closeKey_def split: prod.splits sum.splits if_splits
      dest!: openKey_frame delete_value_frame)

text \<open>The task that an enabling without error leaves behind.\<close>

definition wanted_task :: "string \<Rightarrow> winsys \<Rightarrow> task" where
  "wanted_task configPath s =
     \<lparr>tEnabled = True, tExecute = projr (tExe s), tArgument = startup_args (projr (tAbs s configPath)),
      tWorkDir = tDirOf s (projr (tExe s))\<rparr>"

lemma wanted_kept: "kept s s' \<Longrightarrow> wanted_task path s' = wanted_task path s"
  by (simp add: kept_def wanted_task_def)

lemma runStartupTask_frame:
  assumes "runStartupTask mode path s = (r, s')"
  shows "tRun s' = tRun s" and "kept s s'"
    and "tTask s' = tTask s \<or> (\<exists>out. startupScript mode (wanted_task path s) (tTask s) = Some (out, tTask s'))"
    and "r = Inr out \<Longrightarrow> (\<exists>o1. startupScript mode (wanted_task path s) (tTask s) = Some (o1, tTask s'))
          \<and> tExe s = Inr (projr (tExe s)) \<and> tAbs s path = Inr (projr (tAbs s path))"
  using assms
  by (auto simp: runStartupTask_def Let_def wanted_task_def kept_def split: prod.splits option.splits sum.splits if_splits
      dest!: win_fault_frame)

lemma ConfigureStartup_cases:
  assumes "ConfigureStartup mode path s = (r, s')"
  shows "if mode \<noteq> ''enable'' \<and> mode \<noteq> ''disable'' then r \<noteq> None \<and> s' = s
    else let wanted = (if mode = ''enable'' then Some (wanted_task path s) else None) in
      (tTask s' = tTask s \<or> tTask s' = wanted)
      \<and> (tRun s' = tRun s \<or> r = None \<and> tRun s' = None) \<and> kept s s'
      \<and> (r = None \<longrightarrow> tTask s' = wanted \<and> tExe s = Inr (projr (tExe s)) \<and> tAbs s path = Inr (projr (tAbs s path)))"
proof (cases "mode = ''enable'' \<or> mode = ''disable''")
  case True
  obtain x s1 where T: "runStartupTask mode path s = (x, s1)" by (rule prod.exhaust)
  let ?w = "if mode = ''enable'' then Some (wanted_task path s) else None"
  have sc: "startupScript mode (wanted_task path s) (tTask s) = Some ([], ?w)"
    using True by (auto simp: startupScript_def)
  note fr = runStartupTask_frame [OF T]
  show ?thesis
  proof (cases x)
    case (Inl e)
    then show ?thesis
      using assms True T fr(1-3) sc by (auto simp: ConfigureStartup_def Let_def)
  next
    case (Inr out)
    then have "deleteStartupValue s1 = (r, s')"
      using assms True T by (auto simp: ConfigureStartup_def)
    then obtain fs where "s' = s1\<lparr>tFaults := fs\<rparr> \<or> r = None \<and> s' = s1\<lparr>tFaults := fs, tRun := None\<rparr>"
      using deleteStartupValue_frame by blast
    then show ?thesis
      using True fr(1,2) fr(4) [OF Inr] sc by (auto simp: Let_def kept_def)
  qed
qed (use assms in \<open>auto simp: ConfigureStartup_def\<close>)

lemma trim_outputs: "TrimSpace ''enabled'' = ''enabled''" "TrimSpace [] = []"
  by code_simp+

lemma fault_free_sys: "tFaults s = [] \<Longrightarrow> win_fault s = (None, s)"
  by (simp add: win_fault_def)

lemma key_access: "keyQueryValue AND keyQueryValue \<noteq> 0" "keySetValue AND keySetValue \<noteq> 0"
  by (simp_all add: keyQueryValue_def keySetValue_def)

text \<open>Without failures the whole is a function of the task and the value.\<close>

lemma read_clean:
  assumes "tFaults s = []"
  shows "readStartupValue s =
    (if \<not> tKey s then Inl (errno errorFileNotFound)
     else case tRun s of
       None \<Rightarrow> Inl (errno errorFileNotFound)
     | Some (typ, data) \<Rightarrow>
         if typ \<noteq> regSz \<or> data = [] then Inl (Errorf ''unexpected startup registry value type'')
         else Inr (UTF16ToString data), s)"
  using assms key_access
  by (auto simp: readStartupValue_def read_value_def openKey_def query_value_def closeKey_def win_fault_def
      split: option.split)

lemma legacy_pure: "tFaults s = [] \<Longrightarrow> snd (legacyStartupEnabled s) = s"
  by (auto simp: legacyStartupEnabled_def read_clean split: option.split sum.split)

lemma legacy_key: "tFaults s = [] \<Longrightarrow> fst (legacyStartupEnabled s) \<Longrightarrow> tKey s"
  by (auto simp: legacyStartupEnabled_def read_clean split: if_splits)

lemma runStartupTask_clean:
  assumes "tFaults s = []" and "tExe s = Inr x" and "tAbs s path = Inr y"
    and "startupScript mode (wanted_task path s) (tTask s) = Some (out, task)"
  shows "runStartupTask mode path s = (Inr (TrimSpace out), s\<lparr>tTask := task\<rparr>)"
  using assms by (simp add: runStartupTask_def fault_free_sys wanted_task_def)

lemma ConfigureStartup_clean:
  assumes "tFaults s = []" and "tExe s = Inr x" and "tAbs s path = Inr y" and "tKey s"
  shows "ConfigureStartup ''enable'' path s = (None, s\<lparr>tTask := Some (wanted_task path s), tRun := None\<rparr>)"
  using runStartupTask_clean [of s x path y "''enable''" "[]" "Some (wanted_task path s)"] assms key_access
  by (simp add: ConfigureStartup_def startupScript_def deleteStartupValue_def delete_value_def openKey_def closeKey_def
      win_fault_def)

definition task_enabled :: "winsys \<Rightarrow> bool" where
  "task_enabled s = (case tTask s of None \<Rightarrow> False | Some t \<Rightarrow> tEnabled t)"

lemma startup_state_clean:
  assumes "tFaults s = []" and "tExe s = Inr x" and "tAbs s path = Inr y"
  shows "startup_state path s =
    (task_enabled s \<or> fst (legacyStartupEnabled s), None,
     if fst (legacyStartupEnabled s) then s\<lparr>tTask := Some (wanted_task path s), tRun := None\<rparr> else s)"
proof -
  have q: "runStartupTask ''query'' path s = (Inr (if task_enabled s then ''enabled'' else []), s)"
    using runStartupTask_clean [OF assms, of "''query''" _ "tTask s"]
    by (auto simp: startupScript_def trim_outputs task_enabled_def split: option.split)
  obtain b where L: "legacyStartupEnabled s = (b, s)"
    using legacy_pure [OF assms(1)] by (cases "legacyStartupEnabled s") auto
  have C: "ConfigureStartup ''enable'' path s = (None, s\<lparr>tTask := Some (wanted_task path s), tRun := None\<rparr>)" if b
    using ConfigureStartup_clean [OF assms legacy_key [OF assms(1)]] L that by simp
  show ?thesis
    by (cases b) (simp_all add: startup_state_def q L C Let_def)
qed

lemma startup_state_frame:
  assumes "startup_state path s = (enabled, e, s')"
  shows "(tRun s' = tRun s \<or> tRun s' = None \<and> tTask s' = Some (wanted_task path s)) \<and> kept s s'"
proof -
  obtain r s1 where Q: "runStartupTask ''query'' path s = (r, s1)" by (rule prod.exhaust)
  note 1 = runStartupTask_frame(1,2) [OF Q]
  define p where "p = (if (case r of Inl _ \<Rightarrow> [] | Inr v \<Rightarrow> v) = ''enabled'' then (True, s1) else legacyStartupEnabled s1)"
  have 2: "tRun (snd p) = tRun s" "kept s (snd p)"
    using legacy_frame [of s1] 1 by (cases "legacyStartupEnabled s1"; force simp: p_def kept_def)+
  obtain b s3 where L: "legacyStartupEnabled (snd p) = (b, s3)" by (rule prod.exhaust)
  have 3: "tRun s3 = tRun s" "kept s s3" using legacy_frame [OF L] 2 by (auto simp: kept_def)
  obtain e4 s4 where C: "ConfigureStartup ''enable'' path s3 = (e4, s4)" by (rule prod.exhaust)
  have "s' \<in> {snd p, s3, s4}"
    using assms L C by (auto simp: startup_state_def Q p_def [symmetric] Let_def split: prod.splits if_splits bool.splits)
  then show ?thesis
    using 2 3 ConfigureStartup_cases [OF C] kept_trans [OF 3(2)] wanted_kept [OF 3(2)] by (auto simp: Let_def)
qed

text \<open>The old value, written and read back.\<close>

definition ascii :: "string \<Rightarrow> bool" where
  "ascii s \<longleftrightarrow> list_all (\<lambda>c. code_of c < 128) s"

lemma utf8_ascii: "list_all (\<lambda>c. c < 128) s \<Longrightarrow> utf8_runes s = s"
  by (induction s rule: utf8_runes.induct) (simp_all add: Let_def)

lemma utf16_ascii:
  assumes "CHR 0x00 \<notin> set s" and "ascii s"
  shows "UTF16FromString s = Inr (map (\<lambda>c. of_nat (code_of c)) s @ [0])"
proof -
  have "utf8_runes (map code_of s) = map code_of s"
    by (rule utf8_ascii) (use assms(2) in \<open>simp add: ascii_def list_all_iff\<close>)
  moreover have "concat (map utf16_encode (map code_of s)) = map (\<lambda>c. of_nat (code_of c)) s"
    using assms(2) by (induction s) (simp_all add: ascii_def utf16_encode_def)
  ultimately show ?thesis using assms(1) by (simp add: UTF16FromString_def)
qed

lemma decode_ascii: "list_all (\<lambda>n. n < 128) s \<Longrightarrow> utf16_decode s = map char_of s"
proof (induction s)
  case (Cons a s)
  then show ?case by (cases s) (simp_all add: put_utf8_def)
qed simp

lemma unat_code: "code_of c < 128 \<Longrightarrow> unat (of_nat (code_of c) :: 16 word) = code_of c"
  by (simp add: unat_of_nat take_bit_nat_eq_self)

lemma UTF16ToString_ascii:
  assumes "CHR 0x00 \<notin> set s" and "ascii s"
  shows "UTF16ToString (map (\<lambda>c. of_nat (code_of c)) s @ [0]) = s"
proof -
  have nz: "(of_nat (code_of c) :: 16 word) \<noteq> 0" if "c \<in> set s" for c
  proof
    assume "(of_nat (code_of c) :: 16 word) = 0"
    then have "code_of c = 0"
      using unat_code [of c] assms(2) that by (simp add: ascii_def list_all_iff)
    then have "code_of c = code_of (CHR 0x00)" by simp
    then have "c = CHR 0x00" by (simp only: of_char_eq_iff)
    then show False using assms(1) that by simp
  qed
  have "takeWhile (\<lambda>w. w \<noteq> 0) (map (\<lambda>c. of_nat (code_of c) :: 16 word) s @ [0]) = map (\<lambda>c. of_nat (code_of c)) s"
    using nz by (subst takeWhile_append2) auto
  moreover have "map unat (map (\<lambda>c. of_nat (code_of c) :: 16 word) s) = map code_of s"
    using assms(2) unat_code by (simp add: ascii_def list_all_iff)
  moreover have "utf16_decode (map code_of s) = map char_of (map code_of s)"
    by (rule decode_ascii) (use assms(2) in \<open>simp add: ascii_def list_all_iff\<close>)
  moreover have "map char_of (map code_of s) = s" by (simp add: comp_def)
  ultimately show ?thesis unfolding UTF16ToString_def by metis
qed

lemma written_value_is_read:
  assumes "tFaults s = []" and "CHR 0x00 \<notin> set cmd" and "ascii cmd" and "length cmd < 2 ^ 30"
  shows "\<exists>s'. writeStartupValue cmd s = (None, s') \<and> readStartupValue s' = (Inr cmd, s') \<and> tHandles s' = tHandles s"
proof -
  let ?v = "map (\<lambda>c. of_nat (code_of c)) cmd @ [0] :: 16 word list"
  define n where "n = length ?v * 2"
  have "n < 2 ^ 32" using assms(4) by (simp add: n_def)
  then have "unat (of_nat n :: 32 word) = n"
    by (simp add: unat_of_nat take_bit_nat_eq_self)
  then have "writeStartupValue cmd s = (None, s\<lparr>tKey := True, tRun := Some (regSz, ?v)\<rparr>)"
    using assms key_access
    by (simp add: writeStartupValue_def createKey_def set_value_def closeKey_def win_fault_def utf16_ascii
        n_def [symmetric]) (simp add: n_def)
  moreover have "readStartupValue (s\<lparr>tKey := True, tRun := Some (regSz, ?v)\<rparr>)
      = (Inr cmd, s\<lparr>tKey := True, tRun := Some (regSz, ?v)\<rparr>)"
    using assms(1) UTF16ToString_ascii [OF assms(2,3)] by (simp add: read_clean)
  ultimately show ?thesis by simp
qed

text \<open>The arguments of the task, as the started program reads them.\<close>

lemma startup_args_argv: "commandLineToArgv (startup_args path) = [''-config'', path, ''-autologin'']"
proof -
  have "commandLineToArgv (''-config'' @ '' '' @ EscapeArg path @ '' -autologin'')
      = ''-config'' # commandLineToArgv (EscapeArg path @ '' -autologin'')"
    by (subst argv_word) (simp_all add: blank_def ends_def)
  moreover have "commandLineToArgv (EscapeArg path @ '' -autologin'') = path # commandLineToArgv (''-autologin'' @ [])"
    by (subst argv_escaped) (simp_all add: blank_def ends_def)
  moreover have "commandLineToArgv (''-autologin'' @ []) = ''-autologin'' # commandLineToArgv (tl [])"
    by (rule argv_word) (simp_all add: blank_def ends_def)
  ultimately show ?thesis by (simp add: startup_args_def commandLineToArgv.simps [of "[]"])
qed

lemma startup_args_flags:
  "flag_Parse (commandLineToArgv (startup_args path)) f = Inr (f\<lparr>vConfig := Some path, vAutologin := True\<rparr>)"
  unfolding startup_args_argv
  by (simp add: flag_Parse.simps [of "a # as" for a as] flag_Parse.simps [of "[]"] parseOne_def cut_value_def Let_def)

section \<open>Properties\<close>

text \<open>
  Property C36. Changing the start with Windows is safe. An unknown mode touches nothing. Otherwise the
  task ends as requested whenever no error is reported, the old registry value is only ever removed
  without an error and after the task is as requested, and an error leaves the value alone. So enabling
  never loses an existing start, whatever fails. Every registry key that is opened is closed.
\<close>

theorem configure_startup_safe:
  "case ConfigureStartup mode path s of
     (r, s') \<Rightarrow>
       if mode \<noteq> ''enable'' \<and> mode \<noteq> ''disable'' then r \<noteq> None \<and> s' = s
       else
         let wanted = (if mode = ''enable'' then Some (wanted_task path s) else None) in
         (if r = None then tTask s' = wanted else tRun s' = tRun s)
         \<and> (if tRun s' = tRun s then tTask s' \<in> {tTask s, wanted} else tRun s' = None \<and> tTask s' = wanted)
         \<and> tHandles s' = tHandles s"
  by (cases "ConfigureStartup mode path s") (use ConfigureStartup_cases in \<open>fastforce simp: Let_def kept_def\<close>)

text \<open>
  Property C37. The migration of the old registry value. Refreshing the state removes the value only
  after the task exists, so an existing start survives every failure; without failures it reports
  whether the program was started by either means, moves a start by the value to the task, and changes
  nothing else. Every registry key that is opened is closed.
\<close>

theorem refresh_migrates:
  "case startup_state path s of
     (enabled, err, s') \<Rightarrow>
       (if tRun s' = tRun s then True else tRun s' = None \<and> tTask s' = Some (wanted_task path s))
       \<and> tHandles s' = tHandles s
       \<and> (if tFaults s = [] \<and> tExe s = Inr exe \<and> tAbs s path = Inr abs_path
          then err = None \<and> enabled = (task_enabled s \<or> fst (legacyStartupEnabled s))
            \<and> s' = (if fst (legacyStartupEnabled s) then s\<lparr>tTask := Some (wanted_task path s), tRun := None\<rparr> else s)
          else True)"
proof (cases "startup_state path s")
  case (fields enabled err s')
  then show ?thesis
    using startup_state_frame [OF fields] startup_state_clean [of s exe path abs_path] by (auto simp: kept_def)
qed

end
