(* ===== verification/Tray.thy ===== *)
theory Tray
  imports World Startup
begin

text \<open>
  \<open>internal/trayapp/app_windows.go\<close> and \<open>lifecycle_windows.go\<close>: the tray application. \<open>App\<close> holds the
  fields of the struct, \<open>desk\<close> adds what surrounds it: the window and its message queue, the icon, the
  goroutines. A handler runs on the window's thread without interruption: the goroutines only write
  \<open>status\<close>, \<open>workerErr\<close> (before the message that makes the handler read it) and the two startup
  flags, each under the mutex, so that no handler can observe a half-done write of theirs.
\<close>

unbundle bit_operations_syntax

section \<open>Constants\<close>

definition wmClose :: "32 word" where "wmClose = 0x0010"
definition wmDestroy :: "32 word" where "wmDestroy = 0x0002"
definition wmCommand :: "32 word" where "wmCommand = 0x0111"
definition wmUser :: "32 word" where "wmUser = 0x0400"
definition wmTray :: "32 word" where "wmTray = wmUser + 1"
definition wmStatus :: "32 word" where "wmStatus = wmUser + 2"
definition wmWorkerDone :: "32 word" where "wmWorkerDone = wmUser + 3"
definition wmQueryEndSession :: "32 word" where "wmQueryEndSession = 0x0011"
definition wmEndSession :: "32 word" where "wmEndSession = 0x0016"
definition wmPowerBroadcast :: "32 word" where "wmPowerBroadcast = 0x0218"
definition wmLButtonUp :: "32 word" where "wmLButtonUp = 0x0202"
definition wmLButtonDbl :: "32 word" where "wmLButtonDbl = 0x0203"
definition wmRButtonUp :: "32 word" where "wmRButtonUp = 0x0205"
definition wmRButtonDbl :: "32 word" where "wmRButtonDbl = 0x0206"
definition wmContextMenu :: "32 word" where "wmContextMenu = 0x007b"
definition ninSelect :: "32 word" where "ninSelect = wmUser"
definition ninKeySelect :: "32 word" where "ninKeySelect = wmUser + 1"

definition nifMessage :: "32 word" where "nifMessage = 1"
definition nifIcon :: "32 word" where "nifIcon = 2"
definition nifTip :: "32 word" where "nifTip = 4"

definition mfString :: "32 word" where "mfString = 0"
definition mfGrayed :: "32 word" where "mfGrayed = 1"
definition mfChecked :: "32 word" where "mfChecked = 8"
definition mfSeparator :: "32 word" where "mfSeparator = 0x800"

definition menuStatus :: "16 word" where "menuStatus = 100"
definition menuLogin :: "16 word" where "menuLogin = 101"
definition menuLogout :: "16 word" where "menuLogout = 102"
definition menuStartup :: "16 word" where "menuStartup = 103"
definition menuExit :: "16 word" where "menuExit = 104"
definition menuConfig :: "16 word" where "menuConfig = 105"
definition menuLogs :: "16 word" where "menuLogs = 106"

lemmas wm_defs = wmClose_def wmDestroy_def wmCommand_def wmUser_def wmTray_def wmStatus_def wmWorkerDone_def
  wmQueryEndSession_def wmEndSession_def wmPowerBroadcast_def

section \<open>State\<close>

text \<open>
  \<open>cancel\<close> and \<open>done_ch\<close> are the cancel function and the \<open>done\<close> channel of a worker, by its number;
  \<open>hwnd\<close> says whether the window handle is set. Of \<open>nid\<close> the flags and the tip are kept.
\<close>

record App =
  configPath :: string
  logPath :: string
  hwnd :: bool
  uFlags :: "32 word"
  szTip :: "16 word list"
  status :: string
  cancel :: "nat option"
  done_ch :: "nat option"
  workerErr :: "err option"
  desired :: bool
  suspended :: bool
  exiting :: bool
  autoLogin :: bool
  startup :: bool
  startupBusy :: bool

text \<open>The steps of the goroutines that deal with the start with Windows.\<close>

datatype job =
    RefreshBegin | RefreshQuery | RefreshEnd bool
  | ToggleRun bool | ToggleEnd bool "err option"

text \<open>
  \<open>window\<close> and \<open>icon\<close> (with its tip) are what the desktop shows, \<open>quit\<close> that \<open>WM_QUIT\<close> was posted.
  \<open>started\<close> counts the workers, \<open>live\<close> are those whose goroutine runs, \<open>told\<close> those whose context
  is cancelled, \<open>closed\<close> those whose \<open>done\<close> channel is closed. \<open>shellAnswers\<close> are the results of
  the calls into the shell, 0 a success (when exhausted: success), \<open>choices\<close> those of \<open>TrackPopupMenu\<close> (when exhausted: none);
  \<open>opened\<close> and \<open>shown\<close> are the paths opened and the error boxes.
\<close>

record desk =
  app :: App
  active :: bool
  taskbarCreated :: "32 word"
  window :: bool
  queue :: "(32 word \<times> 64 word \<times> 64 word) list"
  icon :: "16 word list option"
  quit :: bool
  started :: nat
  live :: "nat list"
  told :: "nat list"
  closed :: "nat list"
  jobs :: "job list"
  sys :: winsys
  shellAnswers :: "nat list"
  choices :: "16 word list"
  opened :: "string list"
  shown :: "string list"

definition upd :: "(App \<Rightarrow> App) \<Rightarrow> desk \<Rightarrow> desk" where
  "upd f d = d\<lparr>app := f (app d)\<rparr>"

definition postMessage :: "32 word \<Rightarrow> desk \<Rightarrow> desk" where
  "postMessage m d = (if window d then d\<lparr>queue := queue d @ [(m, 0, 0)]\<rparr> else d)"

definition shell_answer :: "desk \<Rightarrow> nat \<times> desk" where
  "shell_answer d = (case shellAnswers d of [] \<Rightarrow> (0, d) | r # rs \<Rightarrow> (r, d\<lparr>shellAnswers := rs\<rparr>))"

text \<open>The application that the window procedure finds, under \<open>activeMu\<close>.\<close>

definition setActiveApp :: "bool \<Rightarrow> desk \<Rightarrow> desk" where
  "setActiveApp present d = d\<lparr>active := present\<rparr>"

definition getActiveApp :: "desk \<Rightarrow> bool" where
  [simp]: "getActiveApp d = active d"

text \<open>The message \<open>TaskbarCreated\<close>: the answer of \<open>RegisterWindowMessageW\<close>, a number of 64 bits, cut to 32.\<close>

definition taskbar_id :: "64 word \<Rightarrow> 32 word" where
  "taskbar_id r = ucast r"

lemma taskbar_id_range:
  assumes "r = 0 \<or> 0xC000 \<le> r \<and> r \<le> 0xFFFF"
  shows "taskbar_id r = 0 \<or> 0xC000 \<le> taskbar_id r"
proof (cases "r = 0")
  case False
  then have r: "0xC000 \<le> unat r" "unat r \<le> 0xFFFF" using assms by (simp_all add: word_le_nat_alt)
  then have "unat (taskbar_id r) = unat r" by (simp add: taskbar_id_def unsigned_ucast_eq take_bit_nat_eq_self)
  then show ?thesis using r by (simp add: word_le_nat_alt)
qed (simp add: taskbar_id_def)

section \<open>The icon\<close>

text \<open>\<open>syscall.StringToUTF16\<close> of an ASCII string: every text shown is one.\<close>

definition StringToUTF16 :: "string \<Rightarrow> 16 word list" where
  "StringToUTF16 s = map (\<lambda>c. of_nat (code_of c)) s @ [0]"

definition writeUTF16 :: "16 word list \<Rightarrow> string \<Rightarrow> 16 word list" where
  "writeUTF16 dst s =
     (let src = StringToUTF16 s;
          src = (if length src > length dst
                 then (let src = take (length dst) src in src[length src - 1 := 0]) else src)
      in take (length dst) src @ drop (length src) dst)"

definition setTipLocked :: "string \<Rightarrow> App \<Rightarrow> App" where
  "setTipLocked tip a = a\<lparr>szTip := writeUTF16 (replicate 128 0) tip\<rparr>"

definition modifyTip :: "desk \<Rightarrow> desk" where
  "modifyTip d = (
     let d = upd (\<lambda>a. (setTipLocked (''jlu-drcom: '' @ status a) a)\<lparr>uFlags := nifTip\<rparr>) d
     in case shell_answer d of
          (r, d) \<Rightarrow> if r \<noteq> 0 then d else d\<lparr>icon := map_option (\<lambda>_. szTip (app d)) (icon d)\<rparr>)"

definition addTrayIcon :: "desk \<Rightarrow> err option \<times> desk" where
  "addTrayIcon d = (
     let d = upd (\<lambda>a. setTipLocked (''jlu-drcom: '' @ status a)
                (a\<lparr>uFlags := nifMessage OR nifIcon OR nifTip\<rparr>)) d
     in case shell_answer d of
          (r, d) \<Rightarrow>
            if r \<noteq> 0 then (Some (Wrapf ''Shell_NotifyIconW(NIM_ADD)'' (OsError [])), d)
            else (None, d\<lparr>icon := Some (szTip (app d))\<rparr>))"

text \<open>\<open>NIM_DELETE\<close> of the window's own icon; without a window handle there is none.\<close>

definition removeTrayIcon :: "desk \<Rightarrow> desk" where
  "removeTrayIcon d =
     (if \<not> hwnd (app d) then d else (upd (\<lambda>a. a\<lparr>uFlags := 0\<rparr>) d)\<lparr>icon := None\<rparr>)"

definition setStatus :: "string \<Rightarrow> desk \<Rightarrow> desk" where
  "setStatus s d = postMessage wmStatus (upd (\<lambda>a. a\<lparr>status := s\<rparr>) d)"

section \<open>The worker\<close>

text \<open>\<open>cancel()\<close>.\<close>

definition tell :: "nat \<Rightarrow> desk \<Rightarrow> desk" where
  "tell i d = d\<lparr>told := i # told d\<rparr>"

definition startClient :: "desk \<Rightarrow> desk" where
  "startClient d =
     (if exiting (app d) \<or> suspended (app d) then d
      else
        let d = upd (\<lambda>a. a\<lparr>desired := True\<rparr>) d in
        if cancel (app d) \<noteq> None then d
        else
          let i = started d;
              d = upd (\<lambda>a. setTipLocked ''jlu-drcom: Starting''
                     (a\<lparr>cancel := Some i, done_ch := Some i, exiting := False, status := ''Starting''\<rparr>)) d;
              d = modifyTip d
          in d\<lparr>started := i + 1, live := live d @ [i]\<rparr>)"

text \<open>The end of the goroutine, after \<open>runClient\<close> has returned.\<close>

definition worker_exit :: "nat \<Rightarrow> err option \<Rightarrow> desk \<Rightarrow> desk" where
  "worker_exit i err d = (
     let d = upd (\<lambda>a. a\<lparr>workerErr := err\<rparr>) d;
         d = d\<lparr>closed := i # closed d\<rparr>;
         d = postMessage wmWorkerDone d;
         d = tell i d
     in d\<lparr>live := filter (\<lambda>j. j \<noteq> i) (live d)\<rparr>)"

text \<open>The \<open>OnState\<close> callback of \<open>runClient\<close>.\<close>

definition worker_status :: "State \<Rightarrow> desk \<Rightarrow> desk" where
  "worker_status state d = setStatus (if state = StateOnline then ''Authenticated'' else state_string state) d"

definition stopClient :: "desk \<Rightarrow> desk" where
  "stopClient d = (
     let d = upd (\<lambda>a. a\<lparr>desired := False\<rparr>) d in
     case cancel (app d) of
       None \<Rightarrow> d
     | Some i \<Rightarrow> tell i (setStatus ''LoggingOut'' d))"

definition requestExit :: "desk \<Rightarrow> desk" where
  "requestExit d =
     (if exiting (app d) then d
      else
        let d = upd (\<lambda>a. a\<lparr>exiting := True, desired := False\<rparr>) d in
        case cancel (app d) of
          Some i \<Rightarrow> tell i (setStatus ''LoggingOut'' d)
        | None \<Rightarrow> postMessage wmClose d)"

definition runnerDone :: "desk \<Rightarrow> desk" where
  "runnerDone d = (
     let err = workerErr (app d);
         exits = exiting (app d);
         d = upd (\<lambda>a. a\<lparr>cancel := None, done_ch := None\<rparr>) d;
         d = (if (case err of None \<Rightarrow> False | Some e \<Rightarrow> \<not> errors_Is e Canceled)
              then upd (\<lambda>a. a\<lparr>status := ''Failed - check config/logs; then Login'', desired := False\<rparr>) d
              else upd (\<lambda>a. a\<lparr>status := ''Stopped''\<rparr>) d);
         d = (if suspended (app d) then upd (\<lambda>a. a\<lparr>status := ''Suspended''\<rparr>) d else d);
         restart = desired (app d) \<and> \<not> suspended (app d) \<and> \<not> exits;
         d = upd (\<lambda>a. setTipLocked (''jlu-drcom: '' @ status a) a) d;
         d = modifyTip d
     in if exits then postMessage wmClose d
        else if restart then startClient d
        else d)"

definition powerEvent :: "64 word \<Rightarrow> desk \<Rightarrow> desk" where
  "powerEvent event d = (
     let d = (if event = 4 then
                (let d = upd (\<lambda>a. a\<lparr>suspended := True\<rparr>) d in
                 case cancel (app d) of None \<Rightarrow> d | Some i \<Rightarrow> tell i d)
              else if event = 18 \<or> event = 7 then upd (\<lambda>a. a\<lparr>suspended := False\<rparr>) d
              else d);
         restart = desired (app d) \<and> \<not> suspended (app d) \<and> cancel (app d) = None \<and> \<not> exiting (app d)
     in if restart then startClient d else d)"

section \<open>The start with Windows\<close>

definition toggleStartup :: "desk \<Rightarrow> desk" where
  "toggleStartup d =
     (if startupBusy (app d) then d
      else
        let enable = \<not> startup (app d);
            d = upd (\<lambda>a. a\<lparr>startupBusy := True\<rparr>) d
        in d\<lparr>jobs := jobs d @ [ToggleRun enable]\<rparr>)"

definition ShowError :: "string \<Rightarrow> desk \<Rightarrow> desk" where
  "ShowError message d = d\<lparr>shown := shown d @ [message]\<rparr>"

text \<open>
  The goroutines of \<open>refreshStartup\<close> and \<open>toggleStartup\<close>, cut where they take the mutex: the step that follows,
  if any.
\<close>

definition refresh_step :: "job \<Rightarrow> desk \<Rightarrow> job option \<times> desk" where
  "refresh_step j d =
     (case j of
        RefreshBegin \<Rightarrow> (Some RefreshQuery, upd (\<lambda>a. a\<lparr>startupBusy := True\<rparr>) d)
      | RefreshQuery \<Rightarrow>
          (case startup_state (configPath (app d)) (sys d) of (enabled, _, s) \<Rightarrow> (Some (RefreshEnd enabled), d\<lparr>sys := s\<rparr>))
      | RefreshEnd enabled \<Rightarrow> (None, upd (\<lambda>a. a\<lparr>startup := enabled, startupBusy := False\<rparr>) d)
      | _ \<Rightarrow> (None, d))"

definition toggle_step :: "job \<Rightarrow> desk \<Rightarrow> job option \<times> desk" where
  "toggle_step j d =
     (case j of
        ToggleRun enable \<Rightarrow>
          (case ConfigureStartup (if enable then ''enable'' else ''disable'') (configPath (app d)) (sys d) of
             (err, s) \<Rightarrow>
               let d = d\<lparr>sys := s\<rparr> in
               (Some (ToggleEnd enable err),
                if err \<noteq> None
                then ShowError ''Could not change startup settings. See the log folder for details.'' d else d))
      | ToggleEnd enable err \<Rightarrow>
          (None, upd (\<lambda>a. a\<lparr>startup := (if err = None then enable else startup a), startupBusy := False\<rparr>) d)
      | _ \<Rightarrow> (None, d))"

definition run_job :: "job \<Rightarrow> desk \<Rightarrow> job option \<times> desk" where
  "run_job j d =
     (case j of
        ToggleRun _ \<Rightarrow> toggle_step j d
      | ToggleEnd _ _ \<Rightarrow> toggle_step j d
      | _ \<Rightarrow> refresh_step j d)"

section \<open>The menu\<close>

text \<open>\<open>ShellExecuteW\<close> answers a number above 32 on success.\<close>

definition shell_exec :: "desk \<Rightarrow> nat \<times> desk" where
  "shell_exec d = (case shellAnswers d of [] \<Rightarrow> (33, d) | r # rs \<Rightarrow> (r, d\<lparr>shellAnswers := rs\<rparr>))"

definition openPath :: "string \<Rightarrow> desk \<Rightarrow> string option \<times> desk" where
  "openPath path d =
     (if CHR 0x00 \<in> set path then (Some ''invalid argument'', d)
      else case shell_exec d of
        (r, d) \<Rightarrow>
          if r \<le> 32 then (Some (''could not open file/folder (Windows code '' @ dec r @ '')''), d)
          else (None, d\<lparr>opened := opened d @ [path]\<rparr>))"

definition open_or_show :: "string \<Rightarrow> desk \<Rightarrow> desk" where
  "open_or_show path d =
     (case openPath path d of (Some message, d) \<Rightarrow> ShowError message d | (None, d) \<Rightarrow> d)"

definition handleMenu :: "16 word \<Rightarrow> desk \<Rightarrow> desk" where
  "handleMenu cmd d =
     (if cmd = menuLogin then startClient d
      else if cmd = menuLogout then stopClient d
      else if cmd = menuStartup then toggleStartup d
      else if cmd = menuExit then requestExit d
      else if cmd = menuConfig then open_or_show (configPath (app d)) d
      else if cmd = menuLogs then open_or_show (logPath (app d)) d
      else d)"

definition snapshot :: "App \<Rightarrow> string \<times> bool" where
  "snapshot a = (status a, cancel a \<noteq> None)"

text \<open>A menu is the list of its items: flags, identifier, text. A text with a NUL is no text (a nil pointer).\<close>

type_synonym menu = "(32 word \<times> 16 word \<times> string) list"

definition appendMenu :: "menu \<Rightarrow> 32 word \<Rightarrow> 16 word \<Rightarrow> string \<Rightarrow> menu" where
  "appendMenu menu flags ident text = menu @ [(flags, ident, if CHR 0x00 \<in> set text then [] else text)]"

definition appendSeparator :: "menu \<Rightarrow> menu" where
  "appendSeparator menu = menu @ [(mfSeparator, 0, [])]"

definition menu_items :: "App \<Rightarrow> menu" where
  "menu_items a =
     (case snapshot a of
        (st, running) \<Rightarrow>
          let loginFlags = (if running then mfString OR mfGrayed else mfString);
              logoutFlags = (if running then mfString else mfString OR mfGrayed);
              menu = appendMenu [] (mfString OR mfGrayed) menuStatus (''Status: '' @ st);
              menu = appendSeparator menu;
              menu = appendMenu menu loginFlags menuLogin ''Login'';
              menu = appendMenu menu logoutFlags menuLogout ''Logout'';
              menu = appendSeparator menu;
              startupFlags = mfString;
              startupFlags = (if startup a then startupFlags OR mfChecked else startupFlags);
              startupFlags = (if startupBusy a then startupFlags OR mfGrayed else startupFlags);
              menu = appendMenu menu startupFlags menuStartup ''Start with Windows'';
              menu = appendSeparator menu;
              menu = appendMenu menu mfString menuConfig ''Open configuration'';
              menu = appendMenu menu mfString menuLogs ''Open log folder'';
              menu = appendSeparator menu
          in appendMenu menu mfString menuExit ''Exit'')"

text \<open>
  \<open>showMenu\<close> reads, lets the user choose, and handles the choice. Messages that arrive while the menu is
  open are steps before this one, since nothing is written until the choice.
\<close>

definition showMenu :: "desk \<Rightarrow> desk" where
  "showMenu d =
     (case choices d of
        [] \<Rightarrow> handleMenu 0 d
      | cmd # cs \<Rightarrow> handleMenu cmd (d\<lparr>choices := cs\<rparr>))"

section \<open>The window\<close>

definition isTrayActivation :: "64 word \<Rightarrow> bool" where
  "isTrayActivation lParam =
     (let event = (ucast (lParam AND 0xffff) :: 32 word) in
      event \<in> {wmLButtonUp, wmRButtonUp, wmLButtonDbl, wmRButtonDbl, wmContextMenu, ninSelect, ninKeySelect})"

definition on_destroy :: "desk \<Rightarrow> desk" where
  "on_destroy d = (
     let d = (if getActiveApp d then removeTrayIcon d else d) in d\<lparr>quit := True\<rparr>)"

text \<open>\<open>DestroyWindow\<close> sends \<open>WM_DESTROY\<close>; the pending messages of the window are dropped.\<close>

definition DestroyWindow :: "desk \<Rightarrow> desk" where
  "DestroyWindow d = (on_destroy d)\<lparr>window := False, queue := []\<rparr>"

text \<open>How long the handler of \<open>WM_ENDSESSION\<close> waits for the worker to end.\<close>

definition endSessionWait :: int where "endSessionWait = 2 * second"

text \<open>
  The result for a message that is left to \<open>DefWindowProc\<close> is \<open>None\<close>. In the case \<open>WM_ENDSESSION\<close> the
  handler waits for the worker, up to \<open>endSessionWait\<close>, which changes nothing here.
\<close>

definition windowProc :: "32 word \<Rightarrow> 64 word \<Rightarrow> 64 word \<Rightarrow> desk \<Rightarrow> 64 word option \<times> desk" where
  "windowProc msg wParam lParam d =
     (if taskbarCreated d \<noteq> 0 \<and> msg = taskbarCreated d \<and> getActiveApp d then (Some 0, snd (addTrayIcon d))
      else if msg = wmStatus then (Some 0, if getActiveApp d then modifyTip d else d)
      else if msg = wmWorkerDone then (Some 0, if getActiveApp d then runnerDone d else d)
      else if msg = wmQueryEndSession then (Some 1, d)
      else if msg = wmEndSession then
        (Some 0, if getActiveApp d \<and> wParam \<noteq> 0 then (removeTrayIcon (stopClient d))\<lparr>quit := True\<rparr> else d)
      else if msg = wmPowerBroadcast then (Some 1, if getActiveApp d then powerEvent wParam d else d)
      else if msg = wmTray \<and> getActiveApp d \<and> isTrayActivation lParam then (Some 0, showMenu d)
      else if msg = wmCommand \<and> getActiveApp d then (Some 0, handleMenu (ucast (wParam AND 0xffff)) d)
      else if msg = wmClose then
        (Some 0,
         if getActiveApp d \<and> snd (snapshot (app d)) then requestExit d else DestroyWindow d)
      else if msg = wmDestroy then (Some 0, on_destroy d)
      else (None, d))"

text \<open>
  \<open>messageLoop\<close>: one turn of it. Posted messages come first, \<open>GetMessageW\<close> reports \<open>WM_QUIT\<close> when there are
  none. The result is \<open>None\<close> while the loop goes on; \<open>fault\<close> is an error of \<open>GetMessageW\<close>.
\<close>

definition messageLoop_turn :: "err option \<Rightarrow> desk \<Rightarrow> err option option \<times> desk" where
  "messageLoop_turn fault d =
     (case fault of
        Some e \<Rightarrow> (Some (Some (Wrapf ''GetMessageW'' e)), d)
      | None \<Rightarrow>
          (case queue d of
             (m, wParam, lParam) # ms \<Rightarrow> (None, snd (windowProc m wParam lParam (d\<lparr>queue := ms\<rparr>)))
           | [] \<Rightarrow> (if quit d then Some None else None, d)))"

section \<open>New and Run\<close>

definition New :: "string \<Rightarrow> string \<Rightarrow> App" where
  "New config_path log_path =
     \<lparr>configPath = config_path, logPath = log_path, hwnd = False, uFlags = 0, szTip = replicate 128 0,
      status = state_string StateStopped, cancel = None, done_ch = None, workerErr = None,
      desired = False, suspended = False, exiting = False, autoLogin = False, startup = False, startupBusy = False\<rparr>"

definition SetAutoLogin :: "bool \<Rightarrow> App \<Rightarrow> App" where
  "SetAutoLogin enabled a = a\<lparr>autoLogin := enabled\<rparr>"

text \<open>The desktop around a new \<open>App\<close>: no window, nothing posted, no goroutine.\<close>

definition new_desk :: "App \<Rightarrow> 32 word \<Rightarrow> winsys \<Rightarrow> nat list \<Rightarrow> 16 word list \<Rightarrow> desk" where
  "new_desk a created s answers chosen =
     \<lparr>app = a, active = False, taskbarCreated = created, window = False, queue = [], icon = None, quit = False,
      started = 0, live = [], told = [], closed = [], jobs = [], sys = s, shellAnswers = answers,
      choices = chosen, opened = [], shown = []\<rparr>"

text \<open>
  \<open>createWindow\<close>; the arguments are the errors of \<open>RegisterClassExW\<close> and \<open>CreateWindowExW\<close>, if any. The messages that
  the window gets while it is created are none of those that \<open>windowProc\<close> handles.
\<close>

definition createWindow :: "err option \<Rightarrow> err option \<Rightarrow> desk \<Rightarrow> err option \<times> desk" where
  "createWindow registered created d =
     (case registered of
        Some e \<Rightarrow> (Some (Wrapf ''RegisterClassExW'' e), d)
      | None \<Rightarrow>
          (case created of
             Some e \<Rightarrow> (Some (Wrapf ''CreateWindowExW'' e), d)
           | None \<Rightarrow> (None, (upd (\<lambda>a. a\<lparr>hwnd := True\<rparr>) d)\<lparr>window := True\<rparr>)))"

text \<open>
  \<open>Run\<close> up to its message loop. Then \<open>Run\<close> is over, and so is it when the loop ends (\<open>run_end\<close>, the deferred
  \<open>setActiveApp(nil)\<close>).
\<close>

definition run_end :: "desk \<Rightarrow> desk" where
  "run_end d = setActiveApp False d"

definition Run_start :: "err option \<Rightarrow> err option \<Rightarrow> desk \<Rightarrow> err option \<times> desk" where
  "Run_start registered created d =
     (case createWindow registered created (setActiveApp True d) of
        (Some e, d) \<Rightarrow> (Some e, run_end d)
      | (None, d) \<Rightarrow>
          let d = snd (addTrayIcon d);
              d = setStatus ''Stopped'' d;
              d = d\<lparr>jobs := jobs d @ [RefreshBegin]\<rparr>;
              d = (if autoLogin (app d) then startClient d else d)
          in (None, d))"

section \<open>The steps\<close>

text \<open>
  What can happen next, once \<open>Run\<close> has created the window: a turn of the message loop; a message sent to the
  window by the system or another program, none of those the program posts to itself; an announcement or
  the end of the worker's goroutine; a step of a goroutine that deals with the start with Windows; Explorer
  goes, and the icon with it.
\<close>

definition external :: "32 word \<Rightarrow> bool" where
  "external m \<longleftrightarrow> m \<notin> {wmStatus, wmWorkerDone, wmDestroy}"

inductive tray_step :: "desk \<Rightarrow> desk \<Rightarrow> bool" where
  turn: "active d \<Longrightarrow> messageLoop_turn fault d = (r, d') \<Longrightarrow>
    tray_step d (case r of None \<Rightarrow> d' | Some _ \<Rightarrow> run_end d')"
| message: "active d \<Longrightarrow> window d \<Longrightarrow> external m \<Longrightarrow> tray_step d (snd (windowProc m wParam lParam d))"
| announce: "i \<in> set (live d) \<Longrightarrow> tray_step d (worker_status state d)"
| finish: "i \<in> set (live d) \<Longrightarrow> tray_step d (worker_exit i err d)"
| goroutine: "jobs d = js @ j # ks \<Longrightarrow> run_job j d = (next_job, d') \<Longrightarrow>
    tray_step d (d'\<lparr>jobs := js @ (case next_job of None \<Rightarrow> [] | Some k \<Rightarrow> [k]) @ ks\<rparr>)"
| explorer: "tray_step d (d\<lparr>icon := None\<rparr>)"

inductive reachable :: "desk \<Rightarrow> bool" where
  start: "r = 0 \<or> 0xC000 \<le> r \<and> r \<le> 0xFFFF \<Longrightarrow>
    Run_start None None (new_desk (SetAutoLogin auto (New cfg log)) (taskbar_id r) s answers chosen) = (None, d) \<Longrightarrow>
    reachable d"
| step: "reachable d \<Longrightarrow> tray_step d d' \<Longrightarrow> reachable d'"

section \<open>The invariant\<close>

text \<open>
  \<open>pending ms d\<close>: how the fields of the application and the goroutines agree while the messages \<open>ms\<close> are
  still to be handled. A cancel function is there exactly while a worker runs or its \<open>wmWorkerDone\<close> is
  on the way; a worker that is no longer wanted is cancelled; a wanted one exists; an exit
  asked for waits for the worker or for a \<open>wmClose\<close> on its way.
\<close>

definition worker_inv :: "32 word list \<Rightarrow> desk \<Rightarrow> bool" where
  "worker_inv ms d \<longleftrightarrow>
     done_ch (app d) = cancel (app d) \<and>
     (case cancel (app d) of
        None \<Rightarrow> live d = [] \<and> count_list ms wmWorkerDone = 0
      | Some i \<Rightarrow> window d \<and> i < started d \<and>
          (live d = [i] \<and> count_list ms wmWorkerDone = 0
           \<or> live d = [] \<and> i \<in> set (closed d) \<and> count_list ms wmWorkerDone = 1) \<and>
          (\<not> desired (app d) \<or> suspended (app d) \<or> exiting (app d) \<longrightarrow> i \<in> set (told d)))"

definition wish_inv :: "32 word list \<Rightarrow> desk \<Rightarrow> bool" where
  "wish_inv ms d \<longleftrightarrow>
     (desired (app d) \<and> \<not> suspended (app d) \<and> \<not> exiting (app d) \<longrightarrow> cancel (app d) \<noteq> None) \<and>
     (exiting (app d) \<longrightarrow> \<not> desired (app d) \<and> (cancel (app d) \<noteq> None \<or> wmClose \<in> set ms \<or> \<not> window d))"

definition window_inv :: "desk \<Rightarrow> bool" where
  "window_inv d \<longleftrightarrow>
     (if window d then hwnd (app d) else icon d = None \<and> quit d \<and> queue d = [] \<and> cancel (app d) = None) \<and>
     (taskbarCreated d = 0 \<or> 0xC000 \<le> taskbarCreated d)"

definition posted :: "desk \<Rightarrow> 32 word list" where
  "posted d = map fst (queue d)"

definition tray_inv :: "desk \<Rightarrow> bool" where
  "tray_inv d \<longleftrightarrow> worker_inv (posted d) d \<and> wish_inv (posted d) d \<and> window_inv d
     \<and> set (posted d) \<subseteq> {wmStatus, wmWorkerDone, wmClose}"

text \<open>What is kept while the message \<open>m\<close> is handled.\<close>

definition handling :: "32 word \<Rightarrow> desk \<Rightarrow> bool" where
  "handling m d \<longleftrightarrow> worker_inv (m # posted d) d \<and> wish_inv (m # posted d) d \<and> window_inv d
     \<and> set (posted d) \<subseteq> {wmStatus, wmWorkerDone, wmClose} \<and> window d"

lemmas inv_defs = worker_inv_def wish_inv_def window_inv_def posted_def

lemma wm_distinct [simp]:
  "wmStatus \<noteq> wmWorkerDone" "wmWorkerDone \<noteq> wmStatus" "wmClose \<noteq> wmWorkerDone" "wmWorkerDone \<noteq> wmClose"
  "wmStatus \<noteq> wmClose" "wmClose \<noteq> wmStatus"
  by (simp_all add: wm_defs)

text \<open>Handlers that touch neither the worker nor the window.\<close>

definition aside :: "desk \<Rightarrow> desk \<Rightarrow> bool" where
  "aside d d' \<longleftrightarrow>
     desired (app d') = desired (app d) \<and> suspended (app d') = suspended (app d)
     \<and> exiting (app d') = exiting (app d) \<and> hwnd (app d') = hwnd (app d)
     \<and> cancel (app d') = cancel (app d) \<and> done_ch (app d') = done_ch (app d) \<and> workerErr (app d') = workerErr (app d)
     \<and> active d' = active d \<and> taskbarCreated d' = taskbarCreated d \<and> window d' = window d \<and> queue d' = queue d
     \<and> quit d' = quit d \<and> started d' = started d \<and> live d' = live d \<and> told d' = told d \<and> closed d' = closed d
     \<and> (icon d' \<noteq> None \<longrightarrow> icon d \<noteq> None \<or> window d)"

lemma aside_refl: "aside d d"
  by (simp add: aside_def)

lemma aside_trans: "aside d d' \<Longrightarrow> aside d' d'' \<Longrightarrow> aside d d''"
  by (auto simp: aside_def)

lemma aside_inv:
  assumes "aside d d'"
  shows "worker_inv ms d' = worker_inv ms d" "wish_inv ms d' = wish_inv ms d" "posted d' = posted d"
    "window_inv d \<Longrightarrow> window_inv d'" "window d' = window d"
  using assms by (simp_all add: inv_defs aside_def cong: option.case_cong split: if_splits)

lemma aside_tray: "aside d d' \<Longrightarrow> tray_inv d \<Longrightarrow> tray_inv d'"
  and aside_handling: "aside d d' \<Longrightarrow> handling m d \<Longrightarrow> handling m d'"
  by (auto simp: tray_inv_def handling_def aside_inv)

text \<open>Every handler as an update of the fields the invariant reads, and something aside.\<close>

lemma shell_answer_aside: "aside d (snd (shell_answer d))"
  by (simp add: shell_answer_def aside_def split: list.split)

lemma shell_exec_aside: "aside d (snd (shell_exec d))"
  by (simp add: shell_exec_def aside_def split: list.split)

lemma upd_aside:
  assumes "\<And>a. desired (f a) = desired a \<and> suspended (f a) = suspended a \<and> exiting (f a) = exiting a
    \<and> hwnd (f a) = hwnd a \<and> cancel (f a) = cancel a \<and> done_ch (f a) = done_ch a \<and> workerErr (f a) = workerErr a"
  shows "aside d (upd f d)"
  using assms by (simp add: aside_def upd_def)

lemma modifyTip_aside: "aside d (modifyTip d)"
proof -
  define d1 where "d1 = upd (\<lambda>a. (setTipLocked (''jlu-drcom: '' @ status a) a)\<lparr>uFlags := nifTip\<rparr>) d"
  obtain r d2 where S: "shell_answer d1 = (r, d2)" by (rule prod.exhaust)
  have "aside d d1" unfolding d1_def by (rule upd_aside) (simp add: setTipLocked_def)
  moreover have "aside d1 d2" using shell_answer_aside [of d1] S by simp
  ultimately have "aside d d2" by (rule aside_trans)
  then show ?thesis
    unfolding modifyTip_def Let_def d1_def [symmetric] S by (simp add: aside_def)
qed

lemma addTrayIcon_aside:
  assumes "window d"
  shows "aside d (snd (addTrayIcon d))"
proof -
  define d1 where "d1 = upd (\<lambda>a. setTipLocked (''jlu-drcom: '' @ status a)
    (a\<lparr>uFlags := nifMessage OR nifIcon OR nifTip\<rparr>)) d"
  obtain r d2 where S: "shell_answer d1 = (r, d2)" by (rule prod.exhaust)
  have "aside d d1" unfolding d1_def by (rule upd_aside) (simp add: setTipLocked_def)
  moreover have "aside d1 d2" using shell_answer_aside [of d1] S by simp
  ultimately have "aside d d2" by (rule aside_trans)
  then show ?thesis
    unfolding addTrayIcon_def Let_def d1_def [symmetric] S using assms by (simp add: aside_def)
qed

lemma openPath_aside: "aside d (snd (openPath p d))"
proof -
  obtain r d2 where S: "shell_exec d = (r, d2)" by (rule prod.exhaust)
  have "aside d d2" using shell_exec_aside [of d] S by simp
  then show ?thesis by (simp add: openPath_def S aside_refl) (simp add: aside_def)
qed

lemma open_or_show_aside: "aside d (open_or_show p d)"
proof -
  obtain r d2 where S: "openPath p d = (r, d2)" by (rule prod.exhaust)
  have "aside d d2" using openPath_aside [of d p] S by simp
  then show ?thesis by (simp add: open_or_show_def ShowError_def S aside_def split: option.split)
qed

lemma toggleStartup_aside: "aside d (toggleStartup d)"
  by (simp add: toggleStartup_def Let_def upd_def aside_def)

lemma run_job_aside: "run_job j d = (k, d') \<Longrightarrow> aside d d'"
  by (auto simp: run_job_def refresh_step_def toggle_step_def Let_def upd_def ShowError_def aside_def split: job.splits prod.splits if_splits)

text \<open>What \<open>startClient\<close> needs: as \<open>tray_inv\<close>, except that a wanted worker may be missing.\<close>

definition ready :: "desk \<Rightarrow> bool" where
  "ready d \<longleftrightarrow> window d \<and> worker_inv (posted d) d \<and> window_inv d
     \<and> set (posted d) \<subseteq> {wmStatus, wmWorkerDone, wmClose}
     \<and> (exiting (app d) \<longrightarrow> \<not> desired (app d) \<and> (cancel (app d) \<noteq> None \<or> wmClose \<in> set (posted d)))"

lemma tray_inv_ready: "tray_inv d \<Longrightarrow> window d \<Longrightarrow> ready d"
  by (simp add: tray_inv_def ready_def wish_inv_def)

lemma ready_tray_inv:
  "ready d \<Longrightarrow> (desired (app d) \<Longrightarrow> \<not> suspended (app d) \<Longrightarrow> \<not> exiting (app d) \<Longrightarrow> cancel (app d) \<noteq> None)
     \<Longrightarrow> tray_inv d"
  by (auto simp: tray_inv_def ready_def wish_inv_def)

lemma aside_ready: "aside d d' \<Longrightarrow> ready d \<Longrightarrow> ready d'"
  by (simp add: ready_def aside_inv(1,3,4,5)) (simp add: aside_def)

lemma startClient_kept:
  assumes "ready d"
  shows "tray_inv (startClient d) \<and> window (startClient d)"
proof (cases "exiting (app d) \<or> suspended (app d)")
  case True
  then have "startClient d = d" by (simp add: startClient_def)
  then show ?thesis
    using True assms ready_tray_inv [OF assms] by (auto simp: ready_def)
next
  case False
  define d1 where "d1 = upd (\<lambda>a. a\<lparr>desired := True\<rparr>) d"
  have r: "ready d1" using assms False
    by (simp add: d1_def upd_def ready_def inv_defs cong: option.case_cong split: option.splits)
  show ?thesis
  proof (cases "cancel (app d) = None")
    case False2: False
    have "startClient d = d1" using False False2 by (simp add: startClient_def Let_def d1_def upd_def)
    then show ?thesis
      using r ready_tray_inv [OF r] False2 by (simp add: ready_def) (simp add: d1_def upd_def)
  next
    case True
    let ?i = "started d"
    define d2 where "d2 = upd (\<lambda>a. setTipLocked ''jlu-drcom: Starting''
      (a\<lparr>cancel := Some ?i, done_ch := Some ?i, exiting := False, status := ''Starting''\<rparr>)) d1"
    have e: "startClient d = (modifyTip d2)\<lparr>started := ?i + 1, live := live d @ [?i]\<rparr>"
      using False True modifyTip_aside [of d2]
      by (simp add: startClient_def Let_def d1_def [symmetric] d2_def [symmetric]) (simp add: d1_def d2_def upd_def aside_def)
    have d2: "cancel (app d2) = Some ?i" "done_ch (app d2) = Some ?i" "desired (app d2)" "\<not> exiting (app d2)"
      "suspended (app d2) = suspended (app d)" "hwnd (app d2) = hwnd (app d)" "queue d2 = queue d"
      "window d2 = window d" "taskbarCreated d2 = taskbarCreated d" "icon d2 = icon d" "quit d2 = quit d"
      by (simp_all add: d2_def d1_def upd_def setTipLocked_def)
    show ?thesis
      using assms True False modifyTip_aside [of d2]
      by (simp add: e tray_inv_def ready_def inv_defs aside_def d2)
  qed
qed

lemma stopClient_kept: "tray_inv d \<Longrightarrow> window d \<Longrightarrow> tray_inv (stopClient d) \<and> window (stopClient d)"
  by (auto simp: stopClient_def tray_inv_def inv_defs upd_def tell_def setStatus_def postMessage_def Let_def
      split: option.split option.split_asm)

lemma requestExit_kept: "tray_inv d \<Longrightarrow> window d \<Longrightarrow> tray_inv (requestExit d) \<and> window (requestExit d)"
  by (auto simp: requestExit_def tray_inv_def inv_defs upd_def tell_def setStatus_def postMessage_def Let_def
      split: option.split option.split_asm)

text \<open>The handler of the end of a worker: the worker is forgotten, then \<open>wmClose\<close>, a restart, or nothing.\<close>

definition worker_over :: "desk \<Rightarrow> desk" where
  "worker_over d = (
     let failed = (case workerErr (app d) of None \<Rightarrow> False | Some e \<Rightarrow> \<not> errors_Is e Canceled)
     in upd (\<lambda>a. a\<lparr>cancel := None, done_ch := None,
          status := (if suspended a then ''Suspended''
            else if failed then ''Failed - check config/logs; then Login'' else ''Stopped''),
          desired := (desired a \<and> \<not> failed)\<rparr>) d)"

lemma runnerDone_eq:
  "runnerDone d = (
     let d1 = worker_over d;
         d2 = modifyTip (upd (\<lambda>a. setTipLocked (''jlu-drcom: '' @ status a) a) d1)
     in if exiting (app d) then postMessage wmClose d2
        else if desired (app d1) \<and> \<not> suspended (app d1) then startClient d2 else d2)"
proof -
  define failed where "failed = (case workerErr (app d) of None \<Rightarrow> False | Some e \<Rightarrow> \<not> errors_Is e Canceled)"
  obtain F S U T where texts: "F = ''Failed - check config/logs; then Login''" "S = ''Suspended''"
    "U = ''Stopped''" "T = ''jlu-drcom: ''" by simp
  show ?thesis
    unfolding runnerDone_def worker_over_def failed_def [symmetric] Let_def texts [symmetric]
    by (cases failed; cases "suspended (app d)"; simp add: upd_def; intro impI conjI arg_cong [where f = modifyTip]
        arg_cong [where f = startClient] arg_cong [where f = "postMessage wmClose"] desk.fold_congs arg_cong [where f = "setTipLocked _"] App.fold_congs; simp)
qed

lemma worker_over_facts:
  "cancel (app (worker_over d)) = None" "done_ch (app (worker_over d)) = None"
  "suspended (app (worker_over d)) = suspended (app d)" "exiting (app (worker_over d)) = exiting (app d)"
  "hwnd (app (worker_over d)) = hwnd (app d)" "desired (app (worker_over d)) \<Longrightarrow> desired (app d)"
  "queue (worker_over d) = queue d" "window (worker_over d) = window d" "live (worker_over d) = live d"
  "taskbarCreated (worker_over d) = taskbarCreated d" "icon (worker_over d) = icon d" "quit (worker_over d) = quit d"
  by (auto simp: worker_over_def upd_def Let_def)

lemma runnerDone_kept:
  assumes "handling wmWorkerDone d"
  shows "tray_inv (runnerDone d) \<and> window (runnerDone d)"
proof -
  let ?d1 = "worker_over d"
  define d2 where "d2 = modifyTip (upd (\<lambda>a. setTipLocked (''jlu-drcom: '' @ status a) a) ?d1)"
  have "aside ?d1 (upd (\<lambda>a. setTipLocked (''jlu-drcom: '' @ status a) a) ?d1)"
    by (rule upd_aside) (simp add: setTipLocked_def)
  then have a: "aside ?d1 d2"
    unfolding d2_def by (rule aside_trans) (rule modifyTip_aside)
  have w: "window d" and l: "live d = []" and c: "count_list (posted d) wmWorkerDone = 0"
    and v: "window_inv d" and s: "set (posted d) \<subseteq> {wmStatus, wmWorkerDone, wmClose}"
    and x: "exiting (app d) \<Longrightarrow> \<not> desired (app d)"
    using assms by (auto simp: handling_def worker_inv_def wish_inv_def split: option.splits)
  have p: "posted ?d1 = posted d" by (simp add: posted_def worker_over_facts)
  have 1: "worker_inv (posted ?d1) ?d1" "window_inv ?d1" "window ?d1"
    using w l c v by (auto simp: worker_inv_def window_inv_def p worker_over_facts)
  have 2: "worker_inv (posted d2) d2" "window_inv d2" "window d2" "posted d2 = posted d"
    using 1 aside_inv [OF a] p by simp_all
  have f: "cancel (app d2) = None" "exiting (app d2) = exiting (app d)" "suspended (app d2) = suspended (app ?d1)"
    "desired (app d2) = desired (app ?d1)"
    using a by (simp_all add: aside_def worker_over_facts)
  show ?thesis
  proof (cases "exiting (app d)")
    case True
    then have "runnerDone d = postMessage wmClose d2"
      by (simp add: runnerDone_eq Let_def d2_def)
    then show ?thesis
      using 2 f s x worker_over_facts(6) [of d] True
      by (auto simp: postMessage_def tray_inv_def inv_defs)
  next
    case False
    then have r: "ready d2" using 2 f s by (simp add: ready_def)
    have "runnerDone d = (if desired (app ?d1) \<and> \<not> suspended (app ?d1) then startClient d2 else d2)"
      using False by (simp add: runnerDone_eq Let_def d2_def)
    then show ?thesis
      using startClient_kept [OF r] ready_tray_inv [OF r] f 2(3) by auto
  qed
qed

lemma powerEvent_kept:
  assumes "tray_inv d" and "window d"
  shows "tray_inv (powerEvent event d) \<and> window (powerEvent event d)"
proof -
  define d1 where "d1 =
    (if event = 4 then
       (let d = upd (\<lambda>a. a\<lparr>suspended := True\<rparr>) d in case cancel (app d) of None \<Rightarrow> d | Some i \<Rightarrow> tell i d)
     else if event = 18 \<or> event = 7 then upd (\<lambda>a. a\<lparr>suspended := False\<rparr>) d else d)"
  have r: "ready d1"
    using assms
    by (auto simp: d1_def tray_inv_def ready_def inv_defs upd_def tell_def split: option.split option.split_asm)
  show ?thesis
    unfolding powerEvent_def d1_def [symmetric]
    using startClient_kept [OF r] ready_tray_inv [OF r] r by (auto simp: ready_def Let_def)
qed

lemma handleMenu_kept:
  assumes "tray_inv d" and "window d"
  shows "tray_inv (handleMenu cmd d) \<and> window (handleMenu cmd d)"
proof -
  have a: "tray_inv d' \<and> window d'" if "aside d d'" for d'
    using aside_tray [OF that assms(1)] aside_inv(5) [OF that] assms(2) by simp
  show ?thesis
    by (simp add: handleMenu_def startClient_kept [OF tray_inv_ready [OF assms]] stopClient_kept [OF assms]
        requestExit_kept [OF assms] a [OF toggleStartup_aside] a [OF open_or_show_aside] assms)
qed

lemma showMenu_kept:
  assumes "tray_inv d" and "window d"
  shows "tray_inv (showMenu d) \<and> window (showMenu d)"
proof -
  have a: "aside d (d\<lparr>choices := cs\<rparr>)" for cs by (simp add: aside_def)
  have "tray_inv (d\<lparr>choices := cs\<rparr>)" "window (d\<lparr>choices := cs\<rparr>)" for cs
    using aside_tray [OF a assms(1)] assms(2) by simp_all
  then show ?thesis
    by (simp add: showMenu_def handleMenu_kept assms split: list.split)
qed

lemma DestroyWindow_kept:
  assumes "cancel (app d) = None" and "live d = []" and "window_inv d" and "window d"
    and "desired (app d) \<Longrightarrow> \<not> suspended (app d) \<Longrightarrow> \<not> exiting (app d) \<Longrightarrow> False"
    and "exiting (app d) \<Longrightarrow> \<not> desired (app d)" and "active d" and "done_ch (app d) = None"
  shows "tray_inv (DestroyWindow d) \<and> \<not> window (DestroyWindow d)"
  using assms by (auto simp: DestroyWindow_def on_destroy_def removeTrayIcon_def upd_def tray_inv_def inv_defs Let_def)

lemma removeTrayIcon_aside: "aside d (removeTrayIcon d)"
  by (simp add: removeTrayIcon_def upd_def aside_def)

lemma quit_kept: "tray_inv d \<Longrightarrow> window d \<Longrightarrow> tray_inv (d\<lparr>quit := True\<rparr>)"
  by (simp add: tray_inv_def inv_defs cong: option.case_cong)

lemma close_kept:
  assumes "handling wmClose d \<or> tray_inv d \<and> window d" and "active d"
  shows "tray_inv (if snd (snapshot (app d)) then requestExit d else DestroyWindow d)"
proof (cases "cancel (app d) = None")
  case True
  then show ?thesis
    using assms DestroyWindow_kept [of d]
    by (auto simp: snapshot_def handling_def tray_inv_def worker_inv_def wish_inv_def split: if_splits)
next
  case False
  then have "tray_inv d" and "window d"
    using assms(1) by (auto simp: handling_def tray_inv_def worker_inv_def wish_inv_def split: option.splits)
  then show ?thesis using requestExit_kept False by (simp add: snapshot_def)
qed

text \<open>A message of the queue, and one from outside.\<close>

lemma windowProc_external:
  assumes "tray_inv d" and "window d" and "active d" and "external m"
  shows "tray_inv (snd (windowProc m wParam lParam d))"
proof -
  have m: "m \<noteq> wmStatus" "m \<noteq> wmWorkerDone" "m \<noteq> wmDestroy" using assms(4) by (auto simp: external_def)
  have t: "tray_inv (snd (addTrayIcon d))"
    by (rule aside_tray [OF addTrayIcon_aside [OF assms(2)] assms(1)])
  have e: "tray_inv ((removeTrayIcon (stopClient d))\<lparr>quit := True\<rparr>)"
    using stopClient_kept [OF assms(1,2)] removeTrayIcon_aside [of "stopClient d"] aside_tray aside_inv(5) quit_kept
    by metis
  have c: "tray_inv (if snd (snapshot (app d)) then requestExit d else DestroyWindow d)"
    by (rule close_kept) (use assms in simp_all)
  show ?thesis
    using t e c powerEvent_kept [OF assms(1,2)] showMenu_kept [OF assms(1,2)] handleMenu_kept [OF assms(1,2)] m assms(1,3)
    by (simp add: windowProc_def split del: if_split) (simp split: if_split)
qed

lemma windowProc_queued:
  assumes "handling m d" and "m \<in> {wmStatus, wmWorkerDone, wmClose}" and "active d"
  shows "tray_inv (snd (windowProc m wParam lParam d))"
proof -
  have tb: "taskbarCreated d = 0 \<or> m \<noteq> taskbarCreated d"
    using assms(1,2) by (auto simp: handling_def window_inv_def wm_defs)
  consider "m = wmStatus" | "m = wmWorkerDone" | "m = wmClose" using assms(2) by auto
  then show ?thesis
  proof cases
    case 1
    then have "tray_inv d"
      using assms(1) by (auto simp: handling_def tray_inv_def worker_inv_def wish_inv_def split: option.splits)
    then show ?thesis
      using tb 1 assms(3) aside_tray [OF modifyTip_aside] by (auto simp: windowProc_def)
  next
    case 2
    then show ?thesis
      using tb assms(1,3) runnerDone_kept by (auto simp: windowProc_def)
  next
    case 3
    then show ?thesis
      using tb assms(3) close_kept [of d] assms(1)
      by (auto simp: windowProc_def wm_defs)
  qed
qed

lemma queue_handling:
  assumes "tray_inv d" and "queue d = (m, wParam, lParam) # ms"
  shows "handling m (d\<lparr>queue := ms\<rparr>)" and "m \<in> {wmStatus, wmWorkerDone, wmClose}"
proof -
  have w: "window d" using assms by (auto simp: tray_inv_def window_inv_def split: if_splits)
  show "m \<in> {wmStatus, wmWorkerDone, wmClose}"
    using assms by (auto simp: tray_inv_def posted_def)
  show "handling m (d\<lparr>queue := ms\<rparr>)"
    using assms w by (auto simp: tray_inv_def handling_def inv_defs cong: option.case_cong)
qed

lemma run_end_kept: "tray_inv d \<Longrightarrow> tray_inv (run_end d)"
  by (simp add: tray_inv_def inv_defs run_end_def setActiveApp_def cong: option.case_cong)

lemma turn_kept:
  assumes "tray_inv d" and "active d" and "messageLoop_turn fault d = (r, d')"
  shows "tray_inv d'"
proof (cases "queue d")
  case Nil
  then show ?thesis using assms by (auto simp: messageLoop_turn_def split: option.splits)
next
  case (Cons x ms)
  obtain m wParam lParam where x: "x = (m, wParam, lParam)" by (cases x)
  have "tray_inv (snd (windowProc m wParam lParam (d\<lparr>queue := ms\<rparr>)))"
    using windowProc_queued queue_handling [OF assms(1)] Cons x assms(2) by simp
  then show ?thesis
    using assms(1,3) Cons x by (auto simp: messageLoop_turn_def split: option.splits)
qed

lemma worker_status_kept: "tray_inv d \<Longrightarrow> i \<in> set (live d) \<Longrightarrow> tray_inv (worker_status state d)"
  by (auto simp: worker_status_def setStatus_def postMessage_def upd_def tray_inv_def inv_defs
      split: option.splits)

lemma worker_exit_kept: "tray_inv d \<Longrightarrow> i \<in> set (live d) \<Longrightarrow> tray_inv (worker_exit i err d)"
  by (auto simp: worker_exit_def postMessage_def tell_def upd_def tray_inv_def inv_defs Let_def
      split: option.splits)

lemma jobs_aside: "aside d d' \<Longrightarrow> aside d (d'\<lparr>jobs := js\<rparr>)"
  by (simp add: aside_def)

lemma tray_step_kept: "tray_step d d' \<Longrightarrow> tray_inv d \<Longrightarrow> tray_inv d'"
proof (induction rule: tray_step.induct)
  case (turn d fault r d')
  then show ?case using turn_kept run_end_kept by (simp split: option.split)
next
  case (message d m wParam lParam)
  then show ?case by (simp add: windowProc_external)
next
  case (announce i d state)
  then show ?case by (simp add: worker_status_kept)
next
  case (finish i d err)
  then show ?case by (simp add: worker_exit_kept)
next
  case (goroutine d js j ks next_job d')
  then show ?case using aside_tray [OF jobs_aside [OF run_job_aside]] by blast
next
  case (explorer d)
  have "aside d (d\<lparr>icon := None\<rparr>)" by (simp add: aside_def)
  then show ?case using explorer aside_tray by blast
qed

text \<open>
  The start: the window is there, the icon tried, \<open>wmStatus\<close> posted, and nothing runs until the login at launch.
\<close>

lemma Run_start_kept:
  assumes "taskbar = 0 \<or> 0xC000 \<le> taskbar"
    and "Run_start None None (new_desk (SetAutoLogin auto (New cfg log)) taskbar s answers chosen) = (None, d)"
  shows "tray_inv d"
proof -
  define d0 where "d0 = (upd (\<lambda>a. a\<lparr>hwnd := True\<rparr>)
    (setActiveApp True (new_desk (SetAutoLogin auto (New cfg log)) taskbar s answers chosen)))\<lparr>window := True\<rparr>"
  define d1 where "d1 = snd (addTrayIcon d0)"
  define d2 where "d2 = setStatus ''Stopped'' d1"
  define d3 where "d3 = d2\<lparr>jobs := jobs d2 @ [RefreshBegin]\<rparr>"
  have "snd (Run_start None None (new_desk (SetAutoLogin auto (New cfg log)) taskbar s answers chosen))
    = (if autoLogin (app d3) then startClient d3 else d3)"
    unfolding Run_start_def createWindow_def Let_def option.case prod.case d0_def [symmetric] d1_def [symmetric] d2_def [symmetric] d3_def [symmetric]
    by (rule snd_conv)
  then have d: "d = (if autoLogin (app d3) then startClient d3 else d3)"
    using assms(2) by (simp only: snd_conv)
  have 0: "tray_inv d0" "window d0"
    using assms(1)
    by (simp_all add: d0_def setActiveApp_def new_desk_def SetAutoLogin_def New_def upd_def tray_inv_def inv_defs)
  have 1: "tray_inv d1" "window d1"
    unfolding d1_def using aside_tray [OF addTrayIcon_aside 0(1)] aside_inv(5) [OF addTrayIcon_aside] 0(2) by simp_all
  have 2: "tray_inv d2" "window d2"
    using 1 by (simp_all add: d2_def setStatus_def postMessage_def upd_def tray_inv_def inv_defs cong: option.case_cong)
  have a: "aside d2 d3" by (simp add: d3_def aside_def)
  have 3: "tray_inv d3" "window d3"
    using aside_tray [OF a 2(1)] aside_inv(5) [OF a] 2(2) by simp_all
  then show ?thesis
    using startClient_kept [OF tray_inv_ready] d by (simp split: if_splits)
qed

lemma reachable_tray_inv: "reachable d \<Longrightarrow> tray_inv d"
  by (induction rule: reachable.induct) (auto intro: Run_start_kept [OF taskbar_id_range] tray_step_kept)

section \<open>The end of the application\<close>

text \<open>The message loop, for \<open>n\<close> turns without an error of \<open>GetMessageW\<close>.\<close>

fun loop_turns :: "nat \<Rightarrow> desk \<Rightarrow> desk" where
  "loop_turns 0 d = d"
| "loop_turns (Suc n) d = loop_turns n (snd (messageLoop_turn None d))"

text \<open>
  Once an exit is asked for, a turn never posts more than one message, and only for the end of the
  worker: this is the number of turns still to come.
\<close>

definition turns_left :: "desk \<Rightarrow> nat" where
  "turns_left d = length (queue d) + count_list (posted d) wmWorkerDone"

lemma messageLoop_idle: "queue d = [] \<Longrightarrow> loop_turns n d = d"
  by (induction n) (simp_all add: messageLoop_turn_def)

lemma live_idle: "tray_inv d \<Longrightarrow> live d = [] \<Longrightarrow> queue d = [] \<Longrightarrow> cancel (app d) = None"
  by (auto simp: tray_inv_def inv_defs split: option.splits)

lemma exit_idle:
  assumes "tray_inv d" and "exiting (app d)" and "live d = []" and "queue d = []"
  shows "\<not> window d \<and> icon d = None \<and> quit d"
proof -
  have "cancel (app d) = None" by (rule live_idle [OF assms(1,3,4)])
  moreover have "wish_inv [] d" using assms(1,4) by (simp add: tray_inv_def posted_def)
  ultimately have "\<not> window d" using assms(2) by (simp add: wish_inv_def)
  then show ?thesis using assms(1) by (simp add: tray_inv_def window_inv_def)
qed

text \<open>A turn in the exit, by the message it handles.\<close>

lemma exit_turn:
  assumes "tray_inv d" and "active d" and "exiting (app d)" and "live d = []" and "queue d = x # ms"
  shows "let d' = snd (messageLoop_turn None d) in
    tray_inv d' \<and> active d' \<and> exiting (app d') \<and> live d' = [] \<and> turns_left d' < turns_left d"
proof -
  obtain m wParam lParam where x: "x = (m, wParam, lParam)" by (cases x)
  define d0 where "d0 = d\<lparr>queue := ms\<rparr>"
  have q: "queue d = (m, wParam, lParam) # ms" using assms(5) x by simp
  have h: "handling m d0" and m: "m \<in> {wmStatus, wmWorkerDone, wmClose}"
    using queue_handling [OF assms(1) q] by (simp_all add: d0_def)
  have d': "snd (messageLoop_turn None d) = snd (windowProc m wParam lParam d0)"
    by (simp add: messageLoop_turn_def q d0_def)
  have inv: "tray_inv (snd (windowProc m wParam lParam d0))"
    using windowProc_queued [OF h m] assms(2) by (simp add: d0_def)
  have tb: "taskbarCreated d0 = 0 \<or> m \<noteq> taskbarCreated d0"
    using h m by (auto simp: handling_def window_inv_def wm_defs)
  have s: "active d0" "exiting (app d0)" "live d0 = []" "queue d0 = ms"
    using assms(2,3,4) by (simp_all add: d0_def)
  have left: "turns_left d0 < turns_left d" "m = wmWorkerDone \<Longrightarrow> Suc (turns_left d0) < turns_left d"
    using q by (simp_all add: turns_left_def posted_def d0_def)
  consider "m = wmStatus" | "m = wmWorkerDone" | "m = wmClose" using m by auto
  then have "let d' = snd (windowProc m wParam lParam d0) in
    active d' \<and> exiting (app d') \<and> live d' = [] \<and> turns_left d' < turns_left d"
  proof cases
    case 1
    then have "snd (windowProc m wParam lParam d0) = modifyTip d0"
      using tb s(1) by (auto simp: windowProc_def)
    then show ?thesis
      using modifyTip_aside [of d0] s left by (simp add: aside_def turns_left_def posted_def)
  next
    case 2
    define d1 where "d1 = upd (\<lambda>a. setTipLocked (''jlu-drcom: '' @ status a) a) (worker_over d0)"
    have "snd (windowProc m wParam lParam d0) = postMessage wmClose (modifyTip d1)"
      using tb 2 s by (auto simp: windowProc_def runnerDone_eq Let_def d1_def)
    moreover have "queue d1 = ms \<and> active d1 \<and> exiting (app d1) \<and> live d1 = []"
      using s by (simp add: d1_def upd_def setTipLocked_def worker_over_facts) (simp add: worker_over_def upd_def Let_def)
    ultimately show ?thesis
      using modifyTip_aside [of d1] s(4) left(2) [OF 2]
      by (simp add: aside_def turns_left_def posted_def postMessage_def)
  next
    case 3
    then have "snd (windowProc m wParam lParam d0)
      = (if snd (snapshot (app d0)) then requestExit d0 else DestroyWindow d0)"
      using tb s(1) by (auto simp: windowProc_def wm_defs)
    then show ?thesis
      using s left q
      by (simp add: requestExit_def DestroyWindow_def on_destroy_def removeTrayIcon_def upd_def turns_left_def posted_def Let_def)
  qed
  then show ?thesis using inv by (simp add: Let_def d')
qed

lemma exit_turns:
  assumes "tray_inv d" and "active d" and "exiting (app d)" and "live d = []" and "turns_left d \<le> n"
  shows "let d' = loop_turns n d in \<not> window d' \<and> icon d' = None \<and> queue d' = [] \<and> quit d'"
  using assms
proof (induction n arbitrary: d)
  case 0
  then have "queue d = []" by (simp add: turns_left_def)
  then show ?case using exit_idle [OF 0(1,3,4)] by simp
next
  case (Suc n)
  show ?case
  proof (cases "queue d")
    case Nil
    then show ?thesis
      using exit_idle [OF Suc.prems(1,3,4) Nil] messageLoop_idle [OF Nil, of "Suc n"] by (simp only: Let_def simp_thms)
  next
    case (Cons x ms)
    then show ?thesis
      using Suc.IH [of "snd (messageLoop_turn None d)"] exit_turn [OF Suc.prems(1-4) Cons] Suc.prems(5)
      by (simp add: Let_def)
  qed
qed

section \<open>The end of a worker\<close>

lemma shell_answer_app: "app (snd (shell_answer d)) = app d"
  by (simp add: shell_answer_def split: list.split)

lemma shell_exec_app: "app (snd (shell_exec d)) = app d"
  by (simp add: shell_exec_def split: list.split)

definition tip_of :: "string \<Rightarrow> 16 word list" where
  "tip_of s = writeUTF16 (replicate 128 0) (''jlu-drcom: '' @ s)"

lemma setTipLocked_tip: "setTipLocked (''jlu-drcom: '' @ s) a = a\<lparr>szTip := tip_of s\<rparr>"
  by (simp only: setTipLocked_def tip_of_def)

lemma modifyTip_app: "app (modifyTip d) = (app d)\<lparr>szTip := tip_of (status (app d)), uFlags := nifTip\<rparr>"
proof -
  define d1 where "d1 = upd (\<lambda>a. (setTipLocked (''jlu-drcom: '' @ status a) a)\<lparr>uFlags := nifTip\<rparr>) d"
  obtain r d2 where S: "shell_answer d1 = (r, d2)" by (rule prod.exhaust)
  have "app d2 = app d1" using shell_answer_app [of d1] S by simp
  then have "app (modifyTip d) = app d1"
    unfolding modifyTip_def Let_def d1_def [symmetric] S by simp
  then show ?thesis by (simp only: d1_def upd_def setTipLocked_tip) simp
qed

lemma startClient_starts:
  assumes "\<not> exiting (app d)" and "\<not> suspended (app d)" and "cancel (app d) = None"
  shows "let d' = startClient d in
    cancel (app d') = Some (started d) \<and> live d' = live d @ [started d] \<and> status (app d') = ''Starting''
    \<and> szTip (app d') = tip_of (status (app d')) \<and> queue d' = queue d"
proof -
  define d1 where "d1 = upd (\<lambda>a. setTipLocked ''jlu-drcom: Starting'' (a\<lparr>cancel := Some (started d),
    done_ch := Some (started d), exiting := False, status := ''Starting''\<rparr>)) (upd (\<lambda>a. a\<lparr>desired := True\<rparr>) d)"
  have e: "startClient d = (modifyTip d1)\<lparr>started := started d + 1, live := live d1 @ [started d]\<rparr>"
    using assms modifyTip_aside [of d1]
    by (simp add: startClient_def Let_def upd_def d1_def aside_def)
  have s: "status (app d1) = ''Starting''" "cancel (app d1) = Some (started d)" "live d1 = live d" "queue d1 = queue d"
    by (simp_all only: d1_def upd_def setTipLocked_def) simp_all
  have q: "queue (modifyTip d1) = queue d1" using modifyTip_aside [of d1] by (simp add: aside_def)
  show ?thesis
    unfolding e Let_def by (simp add: modifyTip_app s q del: append.simps)
qed

lemma runnerDone_after:
  fixes d :: desk
  defines "d1 \<equiv> worker_over d"
  defines "d2 \<equiv> modifyTip (upd (\<lambda>a. setTipLocked (''jlu-drcom: '' @ status a) a) d1)"
  shows "cancel (app d2) = None" and "suspended (app d2) = suspended (app d)" and "exiting (app d2) = exiting (app d)"
    and "desired (app d2) = desired (app d1)" and "status (app d2) = status (app d1)"
    and "szTip (app d2) = tip_of (status (app d2))"
    and "queue d2 = queue d" and "window d2 = window d" and "live d2 = live d" and "started d2 = started d"
proof -
  define d0 where "d0 = upd (\<lambda>a. setTipLocked (''jlu-drcom: '' @ status a) a) d1"
  have e: "d2 = modifyTip d0" by (simp only: d2_def d0_def)
  have a: "aside d0 d2" unfolding e by (rule modifyTip_aside)
  have p: "app d2 = (app d0)\<lparr>szTip := tip_of (status (app d0)), uFlags := nifTip\<rparr>"
    unfolding e by (rule modifyTip_app)
  have s: "app d0 = (app d1)\<lparr>szTip := tip_of (status (app d1))\<rparr>" "queue d0 = queue d" "window d0 = window d"
    "live d0 = live d" "started d0 = started d"
    by (simp_all only: d0_def upd_def setTipLocked_tip) (simp_all add: d1_def worker_over_def upd_def Let_def)
  show "cancel (app d2) = None" "suspended (app d2) = suspended (app d)" "exiting (app d2) = exiting (app d)"
    "desired (app d2) = desired (app d1)" "status (app d2) = status (app d1)"
    "szTip (app d2) = tip_of (status (app d2))"
    by (simp_all add: p s d1_def worker_over_facts)
  show "queue d2 = queue d" "window d2 = window d" "live d2 = live d" "started d2 = started d"
    using a s by (simp_all add: aside_def)
qed

section \<open>Properties\<close>

text \<open>
  A tray that has just started, and the same after a choice of the menu. No step depends on the text of the tip, so
  the witnesses evaluate states without it.
\<close>

declare writeUTF16_def [code del]

definition sample_sys :: winsys where
  "sample_sys = \<lparr>tTask = None, tKey = True, tRun = None, tHandles = 0, tExe = Inr ''tray.exe'', tAbs = Inr,
     tDirOf = (\<lambda>_. []), tFaults = []\<rparr>"

definition sample_tray :: "bool \<Rightarrow> desk" where
  "sample_tray auto = snd (Run_start None None (new_desk (SetAutoLogin auto (New ''config.toml'' ''logs''))
     (taskbar_id 0) sample_sys [] []))"

definition chosen :: "16 word \<Rightarrow> desk \<Rightarrow> desk" where
  "chosen cmd d = snd (windowProc wmCommand (ucast cmd) 0 d)"

lemma reachable_sample: "reachable (sample_tray auto)"
proof (rule reachable.start [where r = 0])
  show "Run_start None None (new_desk (SetAutoLogin auto (New ''config.toml'' ''logs'')) (taskbar_id 0) sample_sys [] [])
     = (None, sample_tray auto)"
    unfolding sample_tray_def by (simp add: Run_start_def createWindow_def Let_def)
qed simp

lemma sample_tray_starting: "status (app (sample_tray True)) = ''Starting''"
  by code_simp

lemma reachable_chosen: "reachable d \<Longrightarrow> active d \<Longrightarrow> window d \<Longrightarrow> reachable (chosen cmd d)"
  unfolding chosen_def
  by (rule reachable.step, assumption, rule tray_step.message) (simp_all add: external_def wm_defs)

text \<open>
  Property C5. The worker and the wish of the user agree in every reachable state. Without a worker there is no cancel
  function, no goroutine, no end of a worker on its way, and none is wanted. With one there is a window, the only
  goroutine is that worker or its single \<open>wmWorkerDone\<close> is in the queue, and unless a worker is
  wanted (after a logout, an exit, or while Windows sleeps) it has been cancelled. A window that
  is gone left no worker and no icon behind.
\<close>

theorem worker_matches_wish:
  assumes "reachable d"
  shows "(window d \<or> cancel (app d) = None \<and> icon d = None \<and> quit d) \<and>
    (case cancel (app d) of
      None \<Rightarrow> live d = [] \<and> wmWorkerDone \<notin> set (posted d)
        \<and> \<not> (desired (app d) \<and> \<not> suspended (app d) \<and> \<not> exiting (app d))
    | Some i \<Rightarrow> window d \<and> set (live d) \<subseteq> {i} \<and> length (live d) + count_list (posted d) wmWorkerDone = 1
        \<and> (\<not> desired (app d) \<or> suspended (app d) \<or> exiting (app d) \<longrightarrow> i \<in> set (told d)))"
  using reachable_tray_inv [OF assms]
  by (auto simp: tray_inv_def worker_inv_def wish_inv_def window_inv_def count_list_0_iff split: option.split if_splits)

theorem worker_matches_wish_witness:
  "cancel (app (chosen menuLogout (sample_tray True))) = Some 0
    \<and> 0 \<in> set (told (chosen menuLogout (sample_tray True)))"
proof -
  have "active (sample_tray True) \<and> window (sample_tray True)" by code_simp
  then have "reachable (chosen menuLogout (sample_tray True))"
    by (intro reachable_chosen reachable_sample) simp_all
  note * = worker_matches_wish [OF this]
  have "cancel (app (chosen menuLogout (sample_tray True))) = Some 0
    \<and> \<not> desired (app (chosen menuLogout (sample_tray True)))" by code_simp
  then show ?thesis using * by simp
qed

text \<open>
  Property C17. An exit is completed: from any reachable state in which one has been asked for and the worker has
  ended, the message loop handles what is queued, and within that many turns the window is destroyed,
  the icon removed, nothing left in the queue, and the loop returns without an error.
\<close>

theorem exit_completes:
  assumes "reachable d" and "active d" and "exiting (app d)" and "live d = []"
  shows "let d' = loop_turns (length (queue d) + 1) d in
    \<not> window d' \<and> icon d' = None \<and> messageLoop_turn None d' = (Some None, d')"
proof -
  have i: "tray_inv d" by (rule reachable_tray_inv [OF assms(1)])
  have "count_list (posted d) wmWorkerDone \<le> 1"
    using i by (auto simp: tray_inv_def worker_inv_def split: option.splits)
  then have "turns_left d \<le> length (queue d) + 1" by (simp add: turns_left_def)
  from exit_turns [OF i assms(2-4) this] show ?thesis
    by (simp add: Let_def messageLoop_turn_def)
qed

theorem exit_completes_witness:
  "window (worker_exit 0 None (chosen menuExit (sample_tray True)))
    \<and> \<not> window (loop_turns 4 (worker_exit 0 None (chosen menuExit (sample_tray True))))"
proof -
  let ?d = "chosen menuExit (sample_tray True)"
  have a: "active (sample_tray True) \<and> window (sample_tray True)" by code_simp
  have l: "live ?d = [0]" by code_simp
  have "reachable ?d"
    using a by (intro reachable_chosen reachable_sample) simp_all
  then have r: "reachable (worker_exit 0 None ?d)"
    by (rule reachable.step) (rule tray_step.finish, simp add: l)
  have e: "active (worker_exit 0 None ?d) \<and> exiting (app (worker_exit 0 None ?d)) \<and> live (worker_exit 0 None ?d) = []
    \<and> length (queue (worker_exit 0 None ?d)) = 3 \<and> window (worker_exit 0 None ?d)"
    by code_simp
  then show ?thesis using exit_completes [OF r] by (simp add: Let_def)
qed

text \<open>
  Property C18. The end of a worker, on every branch. In an exit the window is asked to close. Otherwise a
  login that is still wanted starts the next worker at once, except after a failure, which is shown and ends the wish.
  A cancellation (logout, sleep, exit) is not a failure. The icon's tip is always that of the new status.
\<close>

theorem worker_end_outcomes:
  "let failed = (case workerErr (app d) of None \<Rightarrow> False | Some e \<Rightarrow> \<not> errors_Is e Canceled);
       d' = runnerDone d
   in szTip (app d') = tip_of (status (app d')) \<and>
     (if \<not> exiting (app d) \<and> desired (app d) \<and> \<not> suspended (app d) \<and> \<not> failed
      then cancel (app d') = Some (started d) \<and> live d' = live d @ [started d] \<and> status (app d') = ''Starting''
      else cancel (app d') = None \<and> live d' = live d \<and> desired (app d') = (desired (app d) \<and> \<not> failed)
        \<and> status (app d') = (if suspended (app d) then ''Suspended''
            else if failed then ''Failed - check config/logs; then Login'' else ''Stopped'')
        \<and> posted d' = posted d @ (if exiting (app d) \<and> window d then [wmClose] else []))"
proof -
  define failed where "failed = (case workerErr (app d) of None \<Rightarrow> False | Some e \<Rightarrow> \<not> errors_Is e Canceled)"
  define d2 where "d2 = modifyTip (upd (\<lambda>a. setTipLocked (''jlu-drcom: '' @ status a) a) (worker_over d))"
  note f = runnerDone_after [of d, folded d2_def]
  have w: "desired (app (worker_over d)) = (desired (app d) \<and> \<not> failed)"
    "status (app (worker_over d)) = (if suspended (app d) then ''Suspended''
       else if failed then ''Failed - check config/logs; then Login'' else ''Stopped'')"
    by (simp_all only: worker_over_def failed_def [symmetric] Let_def upd_def) simp_all
  have e: "runnerDone d = (if exiting (app d) then postMessage wmClose d2
      else if desired (app d) \<and> \<not> failed \<and> \<not> suspended (app d) then startClient d2 else d2)"
    by (simp only: runnerDone_eq Let_def d2_def [symmetric] w worker_over_facts) simp
  show ?thesis
    using startClient_starts [of d2]
    by (simp only: failed_def [symmetric] Let_def e) (simp add: f w posted_def postMessage_def)
qed




declare writeUTF16_def [code]

end
