(* ===== verification/TrayText.thy ===== *)
theory TrayText
  imports Tray
begin

text \<open>
  What the tray shows: the status, the tip of the icon and the first line of the menu are always one of a fixed
  list of texts, complete and terminated within the 128 characters that the system gives to a tip.
\<close>

section \<open>The texts\<close>

definition status_texts :: "string list" where
  "status_texts = [''Starting'', ''Suspended'', ''Authenticated'', ''Failed - check config/logs; then Login'']
     @ map state_string [StateStopped, StateDisconnected, StateLoginChallenge, StateLoggingIn, StateOnline,
         StateReconnecting, StateLoggingOut, StateFailed]"

text \<open>A tip as the system reads it, up to the first NUL.\<close>

definition tip_ok :: "16 word list \<Rightarrow> bool" where
  "tip_ok t \<longleftrightarrow> length t = 128 \<and> 0 \<in> set t \<and> UTF16ToString t \<in> set (map (\<lambda>s. ''jlu-drcom: '' @ s) status_texts)"

definition text_inv :: "desk \<Rightarrow> bool" where
  "text_inv d \<longleftrightarrow> status (app d) \<in> set status_texts \<and> tip_ok (szTip (app d))
     \<and> (case icon d of None \<Rightarrow> True | Some t \<Rightarrow> tip_ok t)"

lemma status_texts_ascii:
  "\<forall>s \<in> set status_texts. CHR 0x00 \<notin> set s \<and> ascii s \<and> length s < 100"
  by code_simp

lemma status_texts_fixed:
  "''Starting'' \<in> set status_texts" "''Suspended'' \<in> set status_texts" "''Stopped'' \<in> set status_texts"
  "''LoggingOut'' \<in> set status_texts" "''Failed - check config/logs; then Login'' \<in> set status_texts"
  "(if state = StateOnline then ''Authenticated'' else state_string state) \<in> set status_texts"
  by (simp_all add: status_texts_def) (cases state; simp)

text \<open>A short text fits, with its terminating NUL.\<close>

lemma tip_of_ok:
  assumes "s \<in> set status_texts"
  shows "tip_ok (tip_of s)"
proof -
  define t where "t = ''jlu-drcom: '' @ s"
  have s: "CHR 0x00 \<notin> set s" "ascii s" "length s < 100" using status_texts_ascii assms by auto
  have t: "CHR 0x00 \<notin> set t" "ascii t" "length t < 128"
    using s by (simp_all add: t_def ascii_def)
  have e: "tip_of s = StringToUTF16 t @ replicate (127 - length t) 0"
    using t(3) unfolding tip_of_def t_def [symmetric] by (simp add: writeUTF16_def Let_def StringToUTF16_def)
  have "takeWhile (\<lambda>w. w \<noteq> 0) (xs @ [0] @ ys) = takeWhile (\<lambda>w. w \<noteq> 0) (xs @ [0])" for xs ys :: "16 word list"
    by (induction xs) simp_all
  then have "UTF16ToString (tip_of s) = UTF16ToString (StringToUTF16 t)"
    by (simp only: e UTF16ToString_def StringToUTF16_def append_assoc)
  then have "UTF16ToString (tip_of s) = t"
    using UTF16ToString_ascii [OF t(1,2)] by (simp only: StringToUTF16_def)
  moreover have "length (tip_of s) = 128" "0 \<in> set (tip_of s)"
    using t(3) by (simp_all add: e StringToUTF16_def)
  ultimately show ?thesis using assms by (simp add: tip_ok_def t_def)
qed

section \<open>Every step keeps them\<close>

lemma text_upd:
  "status (f (app d)) \<in> set status_texts \<Longrightarrow> szTip (f (app d)) = szTip (app d) \<Longrightarrow> text_inv d \<Longrightarrow> text_inv (upd f d)"
  by (simp add: text_inv_def upd_def)

lemma text_frame:
  "text_inv d \<Longrightarrow> status (app d') = status (app d) \<Longrightarrow> szTip (app d') = szTip (app d)
     \<Longrightarrow> icon d' = icon d \<or> icon d' = None \<Longrightarrow> text_inv d'"
  by (auto simp: text_inv_def)

lemma shell_answer_icon: "icon (snd (shell_answer d)) = icon d"
  by (simp add: shell_answer_def split: list.split)

lemma shell_exec_icon: "icon (snd (shell_exec d)) = icon d"
  by (simp add: shell_exec_def split: list.split)

lemma modifyTip_icon: "icon (modifyTip d) = icon d \<or> icon (modifyTip d) = map_option (\<lambda>_. tip_of (status (app d))) (icon d)"
proof -
  define d1 where "d1 = upd (\<lambda>a. (setTipLocked (''jlu-drcom: '' @ status a) a)\<lparr>uFlags := nifTip\<rparr>) d"
  obtain r d2 where S: "shell_answer d1 = (r, d2)" by (rule prod.exhaust)
  have a: "app d1 = (app d)\<lparr>szTip := tip_of (status (app d)), uFlags := nifTip\<rparr>" "icon d1 = icon d"
    by (simp_all only: d1_def upd_def setTipLocked_tip) simp_all
  have "app d2 = app d1" "icon d2 = icon d"
    using shell_answer_app [of d1] shell_answer_icon [of d1] S a(2) by simp_all
  then show ?thesis
    unfolding modifyTip_def Let_def d1_def [symmetric] S by (simp add: a)
qed

lemma modifyTip_text: "status (app d) \<in> set status_texts \<Longrightarrow> (case icon d of None \<Rightarrow> True | Some t \<Rightarrow> tip_ok t) \<Longrightarrow> text_inv (modifyTip d)"
  using modifyTip_icon [of d] tip_of_ok
  by (auto simp: text_inv_def modifyTip_app split: option.splits)

lemma text_modifyTip: "text_inv d \<Longrightarrow> text_inv (modifyTip d)"
  by (rule modifyTip_text) (simp_all add: text_inv_def)

lemma addTrayIcon_text:
  assumes "status (app d) \<in> set status_texts" and "case icon d of None \<Rightarrow> True | Some t \<Rightarrow> tip_ok t"
  shows "text_inv (snd (addTrayIcon d))"
proof -
  define d1 where "d1 = upd (\<lambda>a. setTipLocked (''jlu-drcom: '' @ status a) (a\<lparr>uFlags := nifMessage OR nifIcon OR nifTip\<rparr>)) d"
  obtain r d2 where S: "shell_answer d1 = (r, d2)" by (rule prod.exhaust)
  have "app d1 = (app d)\<lparr>uFlags := nifMessage OR nifIcon OR nifTip, szTip := tip_of (status (app d))\<rparr>" "icon d1 = icon d"
    by (simp_all only: d1_def upd_def setTipLocked_tip) simp_all
  then have "app d2 = (app d)\<lparr>uFlags := nifMessage OR nifIcon OR nifTip, szTip := tip_of (status (app d))\<rparr>" "icon d2 = icon d"
    using shell_answer_app [of d1] shell_answer_icon [of d1] S by simp_all
  then show ?thesis
    unfolding addTrayIcon_def Let_def d1_def [symmetric] S using assms tip_of_ok by (auto simp: text_inv_def)
qed

lemma text_addTrayIcon: "text_inv d \<Longrightarrow> text_inv (snd (addTrayIcon d))"
  by (rule addTrayIcon_text) (simp_all add: text_inv_def)

lemma text_setStatus: "s \<in> set status_texts \<Longrightarrow> text_inv d \<Longrightarrow> text_inv (setStatus s d)"
  by (auto simp: setStatus_def postMessage_def text_inv_def upd_def)

lemma text_postMessage: "text_inv d \<Longrightarrow> text_inv (postMessage m d)"
  by (auto simp: postMessage_def text_inv_def)

lemma text_tell: "text_inv d \<Longrightarrow> text_inv (tell i d)"
  by (auto simp: tell_def text_inv_def)

lemma setTip_text:
  "status (app d) \<in> set status_texts \<Longrightarrow> (case icon d of None \<Rightarrow> True | Some t \<Rightarrow> tip_ok t) \<Longrightarrow>
     text_inv (modifyTip (upd (\<lambda>a. setTipLocked (''jlu-drcom: '' @ status a) a) d))"
  by (rule modifyTip_text) (simp_all add: upd_def setTipLocked_def)

lemma text_startClient:
  assumes "text_inv d"
  shows "text_inv (startClient d)"
proof (cases "exiting (app d) \<or> suspended (app d)")
  case False
  define d1 where "d1 = upd (\<lambda>a. a\<lparr>desired := True\<rparr>) d"
  have 1: "text_inv d1" using assms by (simp add: d1_def upd_def text_inv_def)
  define d2 where "d2 = upd (\<lambda>a. setTipLocked ''jlu-drcom: Starting'' (a\<lparr>cancel := Some (started d1),
    done_ch := Some (started d1), exiting := False, status := ''Starting''\<rparr>)) d1"
  have "status (app d2) = ''Starting''" "icon d2 = icon d1"
    by (simp_all only: d2_def upd_def setTipLocked_def) simp_all
  then have "text_inv (modifyTip d2)"
    using 1 status_texts_fixed(1) by (intro modifyTip_text) (simp_all only: text_inv_def)
  then have "text_inv ((modifyTip d2)\<lparr>started := n, live := l\<rparr>)" for n l by (simp add: text_inv_def)
  moreover have "startClient d = (if cancel (app d1) \<noteq> None then d1
      else (modifyTip d2)\<lparr>started := started d1 + 1, live := live (modifyTip d2) @ [started d1]\<rparr>)"
    using False by (simp add: startClient_def Let_def d1_def [symmetric] d2_def [symmetric])
  ultimately show ?thesis using 1 by (simp split: if_split)
qed (use assms in \<open>simp add: startClient_def\<close>)

lemma text_fields:
  "text_inv d \<Longrightarrow> (\<And>a. status (f a) = status a \<and> szTip (f a) = szTip a) \<Longrightarrow> text_inv (upd f d)"
  by (simp add: text_inv_def upd_def)

lemma text_stopClient: "text_inv d \<Longrightarrow> text_inv (stopClient d)"
  unfolding stopClient_def Let_def
  by (simp add: text_fields text_tell text_setStatus status_texts_fixed split: option.split)

lemma text_requestExit: "text_inv d \<Longrightarrow> text_inv (requestExit d)"
  unfolding requestExit_def Let_def
  by (simp add: text_fields text_tell text_setStatus text_postMessage status_texts_fixed split: option.split)

lemma text_runnerDone:
  assumes "text_inv d"
  shows "text_inv (runnerDone d)"
proof -
  define d1 where "d1 = worker_over d"
  have "status (app d1) \<in> set status_texts" "icon d1 = icon d"
    by (simp_all only: d1_def worker_over_def Let_def upd_def) (simp_all add: status_texts_fixed)
  then have "text_inv (modifyTip (upd (\<lambda>a. setTipLocked (''jlu-drcom: '' @ status a) a) d1))"
    using assms by (intro setTip_text) (simp_all only: text_inv_def)
  then show ?thesis
    unfolding runnerDone_eq Let_def d1_def [symmetric]
    by (simp only: text_postMessage text_startClient if_split simp_thms)
qed

lemma text_powerEvent: "text_inv d \<Longrightarrow> text_inv (powerEvent event d)"
  unfolding powerEvent_def Let_def
  by (simp add: text_fields text_tell text_startClient split: option.split)

lemma text_toggleStartup: "text_inv d \<Longrightarrow> text_inv (toggleStartup d)"
  by (erule text_frame) (simp_all add: toggleStartup_def Let_def upd_def)

lemma text_open_or_show:
  assumes "text_inv d"
  shows "text_inv (open_or_show p d)"
proof -
  obtain r d2 where S: "shell_exec d = (r, d2)" by (rule prod.exhaust)
  have "app d2 = app d" "icon d2 = icon d"
    using shell_exec_app [of d] shell_exec_icon [of d] S by simp_all
  then show ?thesis
    using assms by (intro text_frame [OF assms]) (simp_all add: open_or_show_def openPath_def S ShowError_def)
qed

lemma text_handleMenu: "text_inv d \<Longrightarrow> text_inv (handleMenu cmd d)"
  by (simp add: handleMenu_def text_startClient text_stopClient text_requestExit text_toggleStartup text_open_or_show)

lemma text_showMenu: "text_inv d \<Longrightarrow> text_inv (showMenu d)"
  by (auto simp: showMenu_def text_inv_def intro!: text_handleMenu [unfolded text_inv_def] split: list.split)

lemma text_removeTrayIcon: "text_inv d \<Longrightarrow> text_inv (removeTrayIcon d)"
  by (simp add: removeTrayIcon_def text_inv_def upd_def)

lemma text_quit: "text_inv d \<Longrightarrow> text_inv (d\<lparr>quit := True\<rparr>)"
  by (simp add: text_inv_def)

lemma text_on_destroy: "text_inv d \<Longrightarrow> text_inv (on_destroy d)"
  by (simp add: on_destroy_def Let_def text_removeTrayIcon text_quit)

lemma text_DestroyWindow: "text_inv d \<Longrightarrow> text_inv (DestroyWindow d)"
  using text_on_destroy [of d] by (simp add: DestroyWindow_def text_inv_def)

lemma text_windowProc:
  assumes "text_inv d"
  shows "text_inv (snd (windowProc m wParam lParam d))"
  unfolding windowProc_def
  by (simp add: assms text_addTrayIcon text_modifyTip text_runnerDone text_stopClient text_removeTrayIcon text_quit
      text_powerEvent text_showMenu text_handleMenu text_requestExit text_DestroyWindow text_on_destroy)

lemma text_job: "text_inv d \<Longrightarrow> run_job j d = (k, d') \<Longrightarrow> text_inv d'"
  by (erule text_frame) (auto simp: run_job_def refresh_step_def toggle_step_def Let_def upd_def ShowError_def
      split: job.splits prod.splits if_splits)

lemma text_turn:
  assumes "messageLoop_turn fault d = (r, d')" and "text_inv d"
  shows "text_inv d'"
proof (cases "queue d")
  case (Cons x ms)
  obtain m wParam lParam where x: "x = (m, wParam, lParam)" by (cases x)
  have "text_inv (d\<lparr>queue := ms\<rparr>)" using assms(2) by (simp add: text_inv_def)
  then have "text_inv (snd (windowProc m wParam lParam (d\<lparr>queue := ms\<rparr>)))" by (rule text_windowProc)
  then show ?thesis
    using assms Cons x by (auto simp: messageLoop_turn_def split: option.splits)
qed (use assms in \<open>auto simp: messageLoop_turn_def split: option.splits\<close>)

lemma text_run_end: "text_inv d \<Longrightarrow> text_inv (run_end d)"
  by (simp add: run_end_def setActiveApp_def text_inv_def)

lemma text_step: "tray_step d d' \<Longrightarrow> text_inv d \<Longrightarrow> text_inv d'"
proof (induction rule: tray_step.induct)
  case (turn d fault r d')
  then show ?case using text_turn text_run_end by (simp split: option.split)
next
  case (announce i d state)
  then show ?case unfolding worker_status_def by (intro text_setStatus status_texts_fixed)
next
  case (finish i d err)
  then show ?case
    by (intro text_frame [OF finish.prems]) (simp_all add: worker_exit_def Let_def upd_def postMessage_def tell_def)
next
  case (goroutine d js j ks next_job d')
  have "text_inv d'" by (rule text_job [OF goroutine.prems goroutine.hyps(2)])
  then show ?case by (simp add: text_inv_def)
next
  case (message d m wParam lParam)
  then show ?case by (intro text_windowProc)
next
  case (explorer d)
  then show ?case by (simp add: text_inv_def)
qed

lemma text_start:
  assumes "Run_start None None (new_desk (SetAutoLogin auto (New cfg log)) taskbar s answers cs) = (None, d)"
  shows "text_inv d"
proof -
  define d0 where "d0 = (upd (\<lambda>a. a\<lparr>hwnd := True\<rparr>)
    (setActiveApp True (new_desk (SetAutoLogin auto (New cfg log)) taskbar s answers cs)))\<lparr>window := True\<rparr>"
  have "status (app d0) = ''Stopped''" "icon d0 = None"
    by (simp_all add: d0_def setActiveApp_def new_desk_def SetAutoLogin_def New_def upd_def)
  then have "text_inv (snd (addTrayIcon d0))"
    by (intro addTrayIcon_text) (simp_all add: status_texts_fixed)
  then have "text_inv ((setStatus ''Stopped'' (snd (addTrayIcon d0)))\<lparr>jobs := js\<rparr>)" for js
    using text_setStatus [OF status_texts_fixed(3)] by (simp add: text_inv_def)
  then show ?thesis
    using assms unfolding Run_start_def createWindow_def Let_def option.case prod.case d0_def [symmetric]
    by (auto intro: text_startClient split: if_splits)
qed

lemma reachable_text: "reachable d \<Longrightarrow> text_inv d"
  by (induction rule: reachable.induct) (auto intro: text_start text_step)

section \<open>Property\<close>

text \<open>
  Property C35. What the user sees has a fixed form. In every reachable state the status is one of twelve texts, the
  buffer of the tip and the tip that the icon shows have 128 words, hold a terminating NUL and read as the name of the program
  and one of these texts, never cut, and the first line of the menu is one of them, greyed out.
\<close>

theorem shown_texts_are_fixed:
  assumes "reachable d"
  shows "status (app d) \<in> set status_texts \<and> tip_ok (szTip (app d))
    \<and> (case icon d of None \<Rightarrow> True | Some t \<Rightarrow> tip_ok t)
    \<and> (case menu_items (app d) of [] \<Rightarrow> False
       | (flags, ident, text) # _ \<Rightarrow> flags = mfGrayed \<and> ident = menuStatus
           \<and> text \<in> set (map (\<lambda>s. ''Status: '' @ s) status_texts))"
proof -
  have t: "text_inv d" by (rule reachable_text [OF assms])
  then have s: "status (app d) \<in> set status_texts" by (simp add: text_inv_def)
  then have n: "CHR 0x00 \<notin> set (''Status: '' @ status (app d))"
    using status_texts_ascii by auto
  define line1 where "line1 = ''Status: '' @ status (app d)"
  have "\<exists>rest. menu_items (app d) = (mfString OR mfGrayed, menuStatus, line1) # rest"
    using n unfolding menu_items_def snapshot_def Let_def prod.case line1_def [symmetric]
    by (simp add: appendMenu_def appendSeparator_def)
  moreover have "mfString OR mfGrayed = mfGrayed" by (simp add: mfString_def)
  moreover have "line1 \<in> set (map (\<lambda>s. ''Status: '' @ s) status_texts)" using s by (simp add: line1_def)
  ultimately show ?thesis using t by (auto simp: text_inv_def)
qed

theorem shown_texts_are_fixed_witness:
  "tip_ok (szTip (app (sample_tray True))) \<and> status (app (sample_tray True)) = ''Starting''"
  using shown_texts_are_fixed [OF reachable_sample, of True] sample_tray_starting by simp

end
