(* ===== verification/Entry.thy ===== *)
theory Entry
  imports Logging Tray
begin

text \<open>
  \<open>cmd/drcom-tray/main.go\<close> and \<open>AcquireInstance\<close>: the process from its flags to its exit code, with the
  resources it holds. The message loop of the tray (\<open>Tray\<close>) enters as the result of \<open>app.Run()\<close> and
  the records it has logged.
\<close>

section \<open>The process\<close>

text \<open>
  \<open>locks\<close> are the handles on the instance mutex (of this process), \<open>writer\<close> the log file, \<open>steps\<close> the
  history of the two. \<open>mutexFree\<close> is the answer of \<open>CreateMutexW\<close>: an error, or whether the mutex
  did not exist before. The file system and the scheduled task are those of the other theories.
\<close>

datatype proc_event = Locked | Unlocked | LogOpened string | LogClosed | Configured string | Ran App

record process =
  locks :: nat
  mutexFree :: "err + bool"
  writer :: "RotatingWriter option"
  fs :: fsys
  winsys :: winsys
  steps :: "proc_event list"
  boxes :: "err list"

definition step :: "proc_event \<Rightarrow> process \<Rightarrow> process" where
  "step e p = p\<lparr>steps := steps p @ [e]\<rparr>"

definition AcquireInstance :: "process \<Rightarrow> (err + bool) \<times> process" where
  "AcquireInstance p =
     (case mutexFree p of
        Inl e \<Rightarrow> (Inl (Wrapf ''create instance mutex'' e), p)
      | Inr free \<Rightarrow> (Inr (\<not> free), step Locked (p\<lparr>locks := locks p + 1\<rparr>)))"

text \<open>The function \<open>release\<close>, and the deferred \<open>closer.Close()\<close>, whose error is dropped.\<close>

definition release :: "process \<Rightarrow> process" where
  "release p = step Unlocked (p\<lparr>locks := locks p - 1\<rparr>)"

definition close_log :: "process \<Rightarrow> process" where
  "close_log p =
     (case writer p of
        None \<Rightarrow> p
      | Some w \<Rightarrow>
          (case writer_Close w (fs p) of (_, w, s) \<Rightarrow> step LogClosed (p\<lparr>writer := Some w, fs := s\<rparr>)))"

text \<open>A record of the logger; errors of the writer are dropped by \<open>slog\<close>.\<close>

definition log_record :: "bytes \<Rightarrow> process \<Rightarrow> process" where
  "log_record bs p =
     (case writer p of
        None \<Rightarrow> p
      | Some w \<Rightarrow> (case Write bs w (fs p) of (_, _, w, s) \<Rightarrow> p\<lparr>writer := Some w, fs := s\<rparr>))"

text \<open>
  The flags after \<open>flag.Parse\<close>, and what the rest of the world answers: \<open>os.Executable\<close>, \<open>filepath.Abs\<close>,
  \<open>filepath.Join\<close>, \<open>os.UserCacheDir\<close>, the result of \<open>app.Run()\<close> with the records logged meanwhile, and
  how \<open>slog\<close> writes a message.
\<close>

record launch =
  fConfig :: "string option"
  fAutologin :: bool
  fStartup :: string
  aExe :: "err + string"
  aDir :: "string \<Rightarrow> string"
  aAbs :: "string \<Rightarrow> err + string"
  aJoin :: "string list \<Rightarrow> string"
  aCache :: "err + string"
  aRun :: "App \<Rightarrow> err option \<times> bytes list"
  aRecord :: "string \<Rightarrow> bytes"

definition run_tray :: "launch \<Rightarrow> string \<Rightarrow> string \<Rightarrow> process \<Rightarrow> err option \<times> process" where
  "run_tray l path logDir p = (
     let p = log_record (aRecord l ''tray starting'') p;
         a = SetAutoLogin (fAutologin l) (Tray.New path logDir)
     in case aRun l a of
          (err, recs) \<Rightarrow>
            let p = fold log_record recs (step (Ran a) p) in
            case err of
              Some e \<Rightarrow> (Some e, log_record (aRecord l ''tray failed'') p)
            | None \<Rightarrow> (None, log_record (aRecord l ''tray stopped'') p))"

definition run :: "launch \<Rightarrow> process \<Rightarrow> err option \<times> process" where
  "run l p =
     (case aExe l of
        Inl e \<Rightarrow> (Some e, p)
      | Inr exe \<Rightarrow>
          let configPath = (case fConfig l of Some c \<Rightarrow> c | None \<Rightarrow> aJoin l [aDir l exe, ''config.toml'']) in
          case aAbs l configPath of
            Inl e \<Rightarrow> (Some e, p)
          | Inr path \<Rightarrow>
              if fStartup l \<noteq> [] then
                (case ConfigureStartup (fStartup l) path (winsys p) of
                   (err, s) \<Rightarrow> (err, step (Configured (fStartup l)) (p\<lparr>winsys := s\<rparr>)))
              else
                (case AcquireInstance p of
                   (Inl e, p) \<Rightarrow> (Some e, p)
                 | (Inr alreadyRunning, p) \<Rightarrow>
                     if alreadyRunning then (None, release p)
                     else
                       (case UserLogger (aJoin l) (aCache l) (fs p) of
                          (Inl e, s) \<Rightarrow> (Some (Wrapf ''cannot open user log folder'' e), release (p\<lparr>fs := s\<rparr>))
                        | (Inr (w, logDir), s) \<Rightarrow>
                            (case run_tray l path logDir (step (LogOpened logDir) (p\<lparr>writer := Some w, fs := s\<rparr>)) of
                               (err, p) \<Rightarrow> (err, release (close_log p))))))"

text \<open>\<open>main\<close>: the exit code.\<close>

definition main :: "launch \<Rightarrow> process \<Rightarrow> int \<times> process" where
  "main l p =
     (case run l p of
        (Some e, p) \<Rightarrow> (1, p\<lparr>boxes := boxes p @ [e]\<rparr>)
      | (None, p) \<Rightarrow> (0, p))"

text \<open>
  The program with its arguments: \<open>flag.Parse\<close> comes after \<open>os.Executable\<close> and ends the process itself when it
  cannot read them, without a message box.
\<close>

definition with_flags :: "flags \<Rightarrow> launch \<Rightarrow> launch" where
  "with_flags f l = l\<lparr>fConfig := vConfig f, fAutologin := vAutologin f, fStartup := vStartup f\<rparr>"

definition main_args :: "string list \<Rightarrow> launch \<Rightarrow> process \<Rightarrow> int \<times> process" where
  "main_args args l p =
     (case aExe l of
        Inl _ \<Rightarrow> main l p
      | Inr _ \<Rightarrow>
          (case flag_Parse args default_flags of
             Inl code \<Rightarrow> (code, p)
           | Inr f \<Rightarrow> main (with_flags f l) p))"

section \<open>Facts\<close>

text \<open>Logging leaves everything but the file and its writer alone; a writer stays one.\<close>

definition only_logs :: "process \<Rightarrow> process \<Rightarrow> bool" where
  "only_logs p p' \<longleftrightarrow> locks p' = locks p \<and> steps p' = steps p \<and> winsys p' = winsys p \<and> boxes p' = boxes p
     \<and> (writer p' = None \<longleftrightarrow> writer p = None)"

lemma log_record_only [simp]: "only_logs p (log_record bs p)"
  by (auto simp: log_record_def only_logs_def split: option.split prod.split)

lemma only_logs_trans: "only_logs p q \<Longrightarrow> only_logs q r \<Longrightarrow> only_logs p r"
  by (simp add: only_logs_def)

lemma log_records_only: "only_logs p (fold log_record recs p)"
proof (induction recs arbitrary: p)
  case (Cons bs recs)
  show ?case unfolding fold_simps by (rule only_logs_trans [OF log_record_only Cons])
qed (simp add: only_logs_def)

lemma run_tray_eff:
  assumes "run_tray l path logDir p = (r, p')"
  shows "r = fst (aRun l (SetAutoLogin (fAutologin l) (Tray.New path logDir)))"
    and "locks p' = locks p" and "winsys p' = winsys p" and "boxes p' = boxes p"
    and "writer p' = None \<longleftrightarrow> writer p = None"
    and "steps p' = steps p @ [Ran (SetAutoLogin (fAutologin l) (Tray.New path logDir))]"
proof -
  define a where "a = SetAutoLogin (fAutologin l) (Tray.New path logDir)"
  obtain err recs where A: "aRun l a = (err, recs)" by (rule prod.exhaust)
  define p1 where "p1 = log_record (aRecord l ''tray starting'') p"
  define p2 where "p2 = fold log_record recs (step (Ran a) p1)"
  have "only_logs p p1" and "only_logs (step (Ran a) p1) p2"
    by (simp_all add: p1_def p2_def log_records_only)
  moreover obtain bs where "r = err" and "p' = log_record bs p2"
    using assms unfolding run_tray_def Let_def a_def [symmetric] A p1_def [symmetric] p2_def [symmetric] prod.case
    by (cases err) auto
  moreover have "only_logs p2 (log_record bs p2)" by simp
  ultimately show "r = fst (aRun l (SetAutoLogin (fAutologin l) (Tray.New path logDir)))"
    "locks p' = locks p" "winsys p' = winsys p" "boxes p' = boxes p" "writer p' = None \<longleftrightarrow> writer p = None"
    "steps p' = steps p @ [Ran (SetAutoLogin (fAutologin l) (Tray.New path logDir))]"
    unfolding a_def [symmetric] by (simp_all add: A only_logs_def step_def)
qed

lemma close_log_eff:
  "writer p \<noteq> None \<Longrightarrow> locks (close_log p) = locks p \<and> steps (close_log p) = steps p @ [LogClosed]
     \<and> (case writer (close_log p) of None \<Rightarrow> False | Some w \<Rightarrow> \<not> wFile w)"
  by (auto simp: close_log_def step_def writer_Close_def split: option.split prod.splits)

text \<open>What \<open>run\<close> did, by its result and the history it adds.\<close>

definition ran :: "launch \<Rightarrow> process \<Rightarrow> err option \<Rightarrow> process \<Rightarrow> proc_event list \<Rightarrow> bool" where
  "ran l p r p' h \<longleftrightarrow>
     h = [] \<and> r \<noteq> None \<and> fs p' = fs p
     \<or> h = [Configured (fStartup l)] \<and> fStartup l \<noteq> [] \<and> fs p' = fs p
     \<or> h = [Locked, Unlocked] \<and> mutexFree p = Inr False \<and> r = None \<and> fs p' = fs p
     \<or> h = [Locked, Unlocked] \<and> mutexFree p = Inr True \<and> r \<noteq> None
     \<or> mutexFree p = Inr True \<and> (case writer p' of None \<Rightarrow> False | Some w \<Rightarrow> \<not> wFile w) \<and>
        (\<exists>cfg dir. h = [Locked, LogOpened dir, Ran (SetAutoLogin (fAutologin l) (Tray.New cfg dir)), LogClosed, Unlocked]
          \<and> r = fst (aRun l (SetAutoLogin (fAutologin l) (Tray.New cfg dir))))"

lemma run_instance:
  assumes "mutexFree p = Inr True" and "fStartup l = []" and "aExe l = Inr exe"
    and "aAbs l (case fConfig l of Some c \<Rightarrow> c | None \<Rightarrow> aJoin l [aDir l exe, ''config.toml'']) = Inr path"
    and "run l p = (r, p')"
  shows "locks p' = locks p \<and> boxes p' = boxes p \<and> (\<exists>h. steps p' = steps p @ h \<and> ran l p r p' h)"
proof -
  define p1 where "p1 = step Locked (p\<lparr>locks := locks p + 1\<rparr>)"
  obtain u s where U: "UserLogger (aJoin l) (aCache l) (fs p1) = (u, s)" by (rule prod.exhaust)
  have A: "AcquireInstance p = (Inr False, p1)" using assms(1) by (simp add: AcquireInstance_def p1_def)
  show ?thesis
  proof (cases u)
    case (Inl e)
    then have "r = Some (Wrapf ''cannot open user log folder'' e)" and "p' = release (p1\<lparr>fs := s\<rparr>)"
      using assms(2-) A U by (auto simp: run_def Let_def)
    then show ?thesis using assms(1) by (simp add: release_def step_def p1_def ran_def)
  next
    case (Inr wd)
    obtain w dir where wd: "wd = (w, dir)" by (cases wd)
    define p2 where "p2 = step (LogOpened dir) (p1\<lparr>writer := Some w, fs := s\<rparr>)"
    obtain r1 p3 where T: "run_tray l path dir p2 = (r1, p3)" by (rule prod.exhaust)
    have e: "r = r1" "p' = release (close_log p3)"
      using assms(2-) A U Inr wd T by (simp_all add: run_def Let_def p2_def)
    note t = run_tray_eff [OF T]
    have w: "writer p3 \<noteq> None" using t(5) by (simp add: p2_def step_def)
    have b: "boxes p3 = boxes p" "boxes (close_log p3) = boxes p3"
      using t(4) by (simp_all add: p2_def p1_def step_def close_log_def split: option.split prod.split)
    show ?thesis
      using close_log_eff [OF w] t(1,2,6) assms(1) b
      by (auto simp: e release_def step_def ran_def p2_def p1_def split: option.splits)
  qed
qed

lemma run_ran:
  assumes "run l p = (r, p')"
  shows "locks p' = locks p \<and> boxes p' = boxes p \<and> (\<exists>h. steps p' = steps p @ h \<and> ran l p r p' h)"
proof -
  let ?c = "\<lambda>exe. case fConfig l of Some c \<Rightarrow> c | None \<Rightarrow> aJoin l [aDir l exe, ''config.toml'']"
  consider (exe) e where "aExe l = Inl e" | (absolute) exe e where "aExe l = Inr exe" "aAbs l (?c exe) = Inl e"
    | (startup) exe path where "aExe l = Inr exe" "aAbs l (?c exe) = Inr path" "fStartup l \<noteq> []"
    | (mutex) exe path e where "aExe l = Inr exe" "aAbs l (?c exe) = Inr path" "fStartup l = []" "mutexFree p = Inl e"
    | (second) exe path where "aExe l = Inr exe" "aAbs l (?c exe) = Inr path" "fStartup l = []" "mutexFree p = Inr False"
    | (first) exe path where "aExe l = Inr exe" "aAbs l (?c exe) = Inr path" "fStartup l = []" "mutexFree p = Inr True"
  proof (cases "aExe l")
    case (Inr exe)
    then show ?thesis
      using that(2-) by (cases "aAbs l (?c exe)"; cases "fStartup l = []"; cases "mutexFree p") (auto, blast+)
  qed (use that(1) in blast)
  then show ?thesis
  proof cases
    case startup
    then show ?thesis using assms
      by (auto simp: run_def Let_def step_def ran_def split: prod.splits)
  next
    case first
    then show ?thesis using run_instance assms by blast
  qed (use assms in \<open>auto simp: run_def Let_def ran_def AcquireInstance_def release_def step_def\<close>)
qed

lemma main_ran:
  "main l p = (code, p') \<Longrightarrow> \<exists>r h. ran l p r p' h \<and> steps p' = steps p @ h \<and> locks p' = locks p
     \<and> code = (if r = None then 0 else 1) \<and> boxes p' = boxes p @ (case r of None \<Rightarrow> [] | Some e \<Rightarrow> [e])"
proof -
  assume m: "main l p = (code, p')"
  obtain r p1 where R: "run l p = (r, p1)" by (rule prod.exhaust)
  from run_ran [OF this] obtain h where "locks p1 = locks p" "boxes p1 = boxes p" "steps p1 = steps p @ h" "ran l p r p1 h"
    by blast
  then show ?thesis
    using m by (cases r) (auto simp: main_def R intro!: exI [of _ r] exI [of _ h], auto simp: ran_def)
qed

section \<open>Properties\<close>

text \<open>
  Property C39. One instance, one log. On every path the process has given back the mutex at its end, and the log file
  is opened only under the mutex and only if no other instance has it, used by the tray alone, and closed before
  the mutex is given back. A second instance ends with code 0 and touches nothing; an error ends with code 1
  and one message; a change of the start with Windows neither takes the mutex nor opens the log; arguments that
  cannot be read end the process with code 2 (0 if help is asked for) before anything is touched.
\<close>

theorem one_instance_one_log:
  "case main_args args l p of
     (code, p') \<Rightarrow>
       (case aExe l of
          Inr _ \<Rightarrow>
            (case flag_Parse args default_flags of
               Inl c \<Rightarrow> code = c \<and> c \<in> {0, 2} \<and> p' = p
             | Inr f \<Rightarrow> \<exists>r h. ran (with_flags f l) p r p' h \<and> steps p' = steps p @ h \<and> locks p' = locks p
                 \<and> code = (if r = None then 0 else 1) \<and> boxes p' = boxes p @ (case r of None \<Rightarrow> [] | Some e \<Rightarrow> [e]))
        | Inl e \<Rightarrow> code = 1 \<and> p' = p\<lparr>boxes := boxes p @ [e]\<rparr>)"
proof (cases "aExe l")
  case (Inl e)
  then show ?thesis by (simp add: main_args_def main_def run_def)
next
  case (Inr exe)
  show ?thesis
  proof (cases "flag_Parse args default_flags")
    case Inl2: (Inl c)
    then show ?thesis using Inr flag_Parse_code [OF Inl2] by (simp add: main_args_def)
  next
    case Inr2: (Inr f)
    then show ?thesis using Inr main_ran [of "with_flags f l" p] by (cases "main (with_flags f l) p") (simp add: main_args_def)
  qed
qed

text \<open>
  Property C28. The task starts the program as the user configured it. When enabling the start with Windows reports
  no error, the task is enabled, runs this executable in its directory, and its arguments, split as Windows programs split a
  command line and read by the flags of the program, are the absolute path of this configuration and a login at
  launch, whatever characters the path has: quotes, blanks and backslashes included.
\<close>

theorem startup_task_starts_tray:
  "case ConfigureStartup ''enable'' path s of
     (Some _, _) \<Rightarrow> True
   | (None, s') \<Rightarrow>
       (case tTask s' of
          None \<Rightarrow> False
        | Some t \<Rightarrow> tEnabled t \<and> tExe s = Inr (tExecute t) \<and> tWorkDir t = tDirOf s (tExecute t)
            \<and> (case tAbs s path of
                 Inl _ \<Rightarrow> False
               | Inr full \<Rightarrow> commandLineToArgv (tArgument t) = [''-config'', full, ''-autologin'']
                   \<and> (\<forall>l p. main_args (commandLineToArgv (tArgument t)) l p
                        = main (l\<lparr>fConfig := Some full, fAutologin := True, fStartup := []\<rparr>) p)))"
proof (cases "ConfigureStartup ''enable'' path s")
  case (Pair r s')
  show ?thesis
  proof (cases r)
    case None
    then have t: "tTask s' = Some (wanted_task path s)" "tExe s = Inr (projr (tExe s))" "tAbs s path = Inr (projr (tAbs s path))"
      using ConfigureStartup_cases [OF Pair] by (auto simp: Let_def)
    define full where "full = projr (tAbs s path)"
    have a: "tArgument (wanted_task path s) = startup_args full"
      by (simp add: wanted_task_def full_def)
    have f: "flag_Parse [''-config'', full, ''-autologin''] default_flags = Inr \<lparr>vConfig = Some full, vAutologin = True, vStartup = []\<rparr>"
      using startup_args_flags [of full default_flags] by (simp add: startup_args_argv default_flags_def)
    have m: "main_args [''-config'', full, ''-autologin''] l p
        = main (l\<lparr>fConfig := Some full, fAutologin := True, fStartup := []\<rparr>) p" for l p
      unfolding main_args_def f by (cases "aExe l") (simp_all add: with_flags_def main_def run_def)
    show ?thesis
      unfolding Pair None prod.case option.case t(1) a startup_args_argv
      using t(2,3) m by (simp add: full_def [symmetric]) (simp add: wanted_task_def)
  qed (simp add: Pair)
qed

end
