(* ===== verification/Spec2Isabelle.thy ===== *)
theory Spec2Isabelle
  imports Layout Recovery Config Logging TrayText Entry
begin

text \<open>
  A verification development for jlu-drcom-win, the Windows tray client of the JLU campus network (DrCOM, UDP).

  \<^bold>\<open>The program.\<close> \<open>cmd/drcom-tray\<close> takes the instance mutex, opens the log and runs the tray
  (\<open>internal/trayapp\<close>), a Win32 message loop. A login starts a worker goroutine: \<open>runner.Supervisor\<close>, which
  reads the configuration (\<open>internal/config\<close>), opens the socket (\<open>internal/transport\<close>) and runs one session
  after another with a back-off. A session (\<open>runner.Runner\<close>) logs in, keeps the connection alive with two kinds of
  heartbeat, and logs out when cancelled, exchanging the packets of \<open>internal/protocol\<close>.

  \<^bold>\<open>Theories, in the order of their imports.\<close>
  \<^item> \<open>Prelude\<close>: bytes, byte arrays of Go, out-of-range accesses as panics, errors with \<open>errors.Is\<close>, the error and
    state monads (\<open>exc + 'a\<close>), \<open>named_theorems\<close> shared by all.
  \<^item> \<open>Md5\<close>, \<open>Crypto\<close> (\<open>protocol/crypto.go\<close>): MD5, the two checksum loops, \<open>ROR\<close>, \<open>XOR\<close>. Closed forms of the
    checksums as multiples of the XOR of the words, and which errors they detect.
  \<^item> \<open>Packets\<close>, \<open>Layout\<close>, \<open>Response\<close> (the rest of \<open>protocol\<close>): the builders with their writes in program
    order, the parsers, the matcher of replies. The documented field table, decoding by the receiver, the exact result of
    every parser on every input.
  \<^item> \<open>World\<close>, \<open>NetAddr\<close>, \<open>Transport\<close> (\<open>transport\<close>): a world with clock, scheduler delays, contexts, one socket, its inbox and
    the network as a function of what was sent; \<open>NewTransport\<close>, \<open>Exchange\<close>, \<open>RetryExchange\<close>, interface pinning.
    What an exchange returns, when it returns, what it ignores, that nothing leaks.
  \<^item> \<open>Runner\<close>, \<open>Client\<close> (\<open>runner/runner.go\<close>): the session over any exchanger that satisfies the locale \<open>runner_env\<close>,
    interpreted on the transport. Outcomes of every operation, the word of states a run announces, its end.
  \<^item> \<open>Progress\<close>: what a session achieves when the server answers its requests, the first and extra heartbeats possibly
    with the documented file of phase \<open>06\<close>. The locales \<open>answering_exchanger\<close> and
    \<open>answering_runner\<close> extend the interface by answers within a bound to a set of requests; interpreted on \<open>Exchange\<close>
    over such a network, they give that the session comes online and stays online, and that it logs out.
  \<^item> \<open>Supervisor\<close> (\<open>runner/supervisor.go\<close>): the retry loop; why it stops, the back-off, cancellation.
  \<^item> \<open>Recovery\<close>: the two together. The supervisor waits while the network is down and is online soon after it is up.
  \<^item> \<open>GoStrings\<close>, \<open>GoNet\<close>: the functions of \<open>strings\<close>, \<open>strconv\<close>, \<open>encoding/hex\<close> and \<open>net\<close> that the configuration uses.
  \<^item> \<open>Config\<close> (\<open>config/config.go\<close>): reading, detection of the adapter, validation. What loads is valid, which
    errors are retryable, the adapter chosen is the unique best.
  \<^item> \<open>Logging\<close> (\<open>logging/logging.go\<close>): the rotating log over a file system with faults; its bound, its refinement of
    an abstract log, and the rotation that silences it.
  \<^item> \<open>CmdLine\<close>: \<open>syscall.EscapeArg\<close>, the splitting of a command line into arguments, and \<open>flag.Parse\<close> for the flags
    of the program; what was escaped is read back.
  \<^item> \<open>Startup\<close> (\<open>trayapp/startup_windows.go\<close>): the scheduled task with its action, the registry value it
    replaces, handles of keys and their access rights. Each fault leaves a definite state, no handle stays open.
  \<^item> \<open>Tray\<close> (\<open>trayapp/app_windows.go\<close>, \<open>lifecycle_windows.go\<close>): the record \<open>App\<close>, the handlers as functions, the
    interleaving of message loop, worker and startup goroutines as the relation \<open>tray_step\<close>; the invariant \<open>tray_inv\<close> of
    the reachable states, the end of the application, a race on the startup mark.
  \<^item> \<open>TrayText\<close>: the texts the tray shows, as a type invariant of the same relation: always one of a fixed list,
    complete within the buffer of the tip.
  \<^item> \<open>Entry\<close> (\<open>cmd/drcom-tray/main.go\<close>): the process and the resources it holds on every path; the
    arguments of the scheduled task start exactly this tray.
  \<^item> This theory: the worker of the tray is the supervisor over \<open>Config.Load\<close>, and it ends within the
    two seconds that the tray waits for it at the end of the Windows session.

  \<^bold>\<open>Bounds and fuel.\<close> Loops that may run for ever take fuel and return \<open>None\<close> without enough: the heartbeat loop (\<open>n\<close>
  rounds) and the supervisor's loop (\<open>turns\<close>). A round takes at least the heartbeat interval and a turn at least five
  seconds, so fuel that covers the time until the cancellation suffices; the termination theorems say so.
  Every other loop is total. \<open>lags\<close> are arbitrary delays of the scheduler, a finite list; time bounds are
  stated apart from them (\<open>busy\<close>).

  \<^bold>\<open>Parameters.\<close> The TOML decoder, lower case of Unicode, \<open>filepath\<close>, the answers of the operating system and of the
  network are arguments; the only law asked of the system is that none of its errors is the sentinel for
  rejected credentials (\<open>plain_env\<close>, \<open>system_errors\<close>).

  \<^bold>\<open>Not modelled.\<close> The layout of Win32 structures, the lazy procedures that call into the system and the constants
  passed to it alone: the calls are modelled by their outcomes. \<open>app_other.go\<close> and \<open>interface_other.go\<close>: stubs for
  other systems. The PowerShell script is modelled by its effect on the task. The formatting of log
  lines is outside; the attributes passed are events of the trace.
\<close>

section \<open>The tray's worker\<close>

text \<open>
  \<open>runClient\<close>: the supervisor of the worker reads the configuration afresh for every session, from the file and
  the system as they are at that time.
\<close>

definition tray_load :: "(int \<Rightarrow> sys_env) \<Rightarrow> (int \<Rightarrow> err + string) \<Rightarrow> int \<Rightarrow> err + config" where
  "tray_load env file t = Load (env t) (file t)"

definition runClient :: "(int \<Rightarrow> sys_env) \<Rightarrow> (int \<Rightarrow> err + string) \<Rightarrow> (int \<Rightarrow> os_net) \<Rightarrow> supervisor" where
  "runClient env file os = app_supervisor (tray_load env file) os"

text \<open>The errors of the system are the system's: none is the sentinel for rejected credentials.\<close>

definition system_errors :: "(int \<Rightarrow> sys_env) \<Rightarrow> (int \<Rightarrow> err + string) \<Rightarrow> (int \<Rightarrow> os_net) \<Rightarrow> bool" where
  "system_errors env file os \<longleftrightarrow>
     (\<forall>t. (case file t of Inl e \<Rightarrow> foreign e | Inr _ \<Rightarrow> True)
        \<and> (case netInterfaces (env t) of Inl e \<Rightarrow> foreign e | Inr _ \<Rightarrow> True) \<and> os_foreign (os t))"

lemma selectAutoNetwork_foreign: "selectAutoNetwork uni cs hint = Inl e \<Longrightarrow> foreign e"
  by (auto simp: selectAutoNetwork_def foreign_def Let_def split: prod.splits if_splits)

lemma tray_load_foreign:
  assumes "system_errors env file os" and "tray_load env file t = Inl e"
  shows "foreign e"
proof -
  have f: "foreign e'" if "file t = Inl e'" for e'
    using assms(1) that by (auto simp: system_errors_def dest!: spec [of _ t])
  have i: "foreign e'" if "netInterfaces (env t) = Inl e'" for e'
    using assms(1) that by (auto simp: system_errors_def dest!: spec [of _ t])
  have d: "foreign e'" if "AutoDetectNetwork uni (netInterfaces (env t)) hint = Inl e'" for uni hint e'
    using that i selectAutoNetwork_foreign by (auto simp: AutoDetectNetwork_def bindS_Inl)
  show ?thesis
  proof (cases "file t")
    case (Inl e')
    then show ?thesis using assms(2) f by (simp add: tray_load_def Load_def)
  next
    case (Inr data)
    then have "plain_message e \<or> (\<exists>x hint. AutoDetectNetwork (unicodeLower (env t)) (netInterfaces (env t)) hint = Inl x
        \<and> e = detection_error x)"
      using assms(2) ParseWithDetector_Inl by (fastforce simp: tray_load_def Load_def Parse_def)
    then show ?thesis
      using d by (auto simp: plain_message_def foreign_def detection_error_def split: if_splits)
  qed
qed

lemma tray_load_env: "system_errors env file os \<Longrightarrow> plain_env (tray_load env file) os"
  using tray_load_foreign by (auto simp: plain_env_def system_errors_def)

lemma tray_load_heartbeat:
  assumes "tray_load env file t = Inr cfg"
  shows "second \<le> HeartbeatInterval cfg"
proof -
  obtain data where "ParseWithDetector (tomlDecode (env t)) (osHostname (env t)) (runtimeGOOS (env t)) data
      (AutoDetectNetwork (unicodeLower (env t)) (netInterfaces (env t))) = Inr cfg"
    using assms by (auto simp: tray_load_def Load_def Parse_def bindS_Inr)
  note v = parsed_valid [OF this]
  show ?thesis using v(1) unfolding v(3) by (simp add: valid_fields_def second_def)
qed

text \<open>
  Property C14. The wait at the end of the Windows session is long enough. Whatever configuration is read, whenever the
  worker is cancelled and whatever it is doing, it is back within the two seconds that \<open>WM_ENDSESSION\<close> waits, logout
  included, if the scheduler takes less than half a second; and it gives up only for a cause.
  One heartbeat round per second and one session per five seconds are enough fuel.
\<close>

theorem worker_ends_within_logoff_wait:
  assumes "system_errors env file os" and "ctx_done c = Some t" and "now w \<le> t" and "busy w < 500 * millisecond"
    and "t + busy w < now w + int n * second" and "t + busy w < now w + int turns * (5 * second)"
  shows "\<exists>x w'. supervisor_Run (runClient env file os) c n turns w = Some (x, w')
     \<and> now w' < t + endSessionWait \<and> stop_cause (tray_load env file) c x w w'"
proof -
  note p = tray_load_env [OF assms(1)]
  let ?w = "w\<lparr>delay := 5 * second\<rparr>"
  have due: "due t ?w = t + busy w" using assms(3) by (simp add: due_def busy_def)
  have fuel: "due t ?w < now ?w + int n * second" "due t ?w < now ?w + int turns * (5 * second)"
    using assms(5,6) due by simp_all
  have "\<exists>x w'. sup_loop (app_supervisor (tray_load env file) os) c n turns ?w = Some (x, w')
      \<and> due t w' \<le> due t ?w + 1500 * millisecond"
  proof (rule sup_loop_returns [OF assms(2) p _ _ fuel])
    show "0 < second" by (simp add: second_def)
    show "HeartbeatInterval cfg \<le> 0 \<or> second \<le> HeartbeatInterval cfg" if "tray_load env file t' = Inr cfg" for t' cfg
      using tray_load_heartbeat [OF that] by simp
  qed simp
  then obtain x w' where R: "supervisor_Run (app_supervisor (tray_load env file) os) c n turns w = Some (x, w')"
    and "due t w' \<le> due t ?w + 1500 * millisecond"
    by (auto simp: supervisor_Run_def)
  moreover have "now w' \<le> due t w'" using due_ge [of w' t] busy_nonneg [of w'] by linarith
  ultimately have "now w' < t + endSessionWait"
    using due assms(4) by (simp add: endSessionWait_def second_def millisecond_def)
  then show ?thesis
    using R supervisor_Run_cases [OF R p] by (auto simp: runClient_def)
qed

theorem worker_ends_within_logoff_wait_witness:
  "\<exists>x w'. supervisor_Run (runClient (\<lambda>_. sample_env) (\<lambda>_. Inr ''config'') (\<lambda>_. sample_os))
       \<lparr>cancel_at = Some (7 * second), ctx_deadline = None\<rparr> 8 2 sample_world = Some (x, w')
     \<and> now w' < 9 * second"
proof -
  have b: "busy sample_world = 12" "now sample_world = 0" by (simp_all add: busy_def sample_world_def)
  have "system_errors (\<lambda>_. sample_env) (\<lambda>_. Inr ''config'') (\<lambda>_. sample_os)"
    by (simp add: system_errors_def sample_env_def os_foreign_def sample_os_def foreign_def)
  then show ?thesis
    using worker_ends_within_logoff_wait [of "\<lambda>_. sample_env" "\<lambda>_. Inr ''config''" "\<lambda>_. sample_os"
        "\<lparr>cancel_at = Some (7 * second), ctx_deadline = None\<rparr>" "7 * second" sample_world 8 2]
    by (auto simp: b ctx_done_def second_def millisecond_def endSessionWait_def)
qed

end
